(* ===== verification/Prelude.thy ===== *)
theory Prelude
  imports Main "HOL-Library.Word"
begin

unbundle bit_operations_syntax

text \<open>
  Shared vocabulary of the development: the errors the Python code can raise, the bit-field
  calculus used by the instruction encoders and decoders (a word as a concatenation \<open>cat\<close> of
  fields, low field first, read back by \<open>slice_at\<close>), and generic lemmas on lists and integers.
  The collection \<open>slice_simps\<close> holds the rewrite rules that evaluate a slice of a concatenation.
\<close>

named_theorems slice_simps

section \<open>Exceptions of the Python code\<close>

datatype py_error =
    AssertionError
  | IndexError
  | StructError
  | ValueError
  | TypeError
  | SystemExit int

type_synonym 'a py = "py_error + 'a"

fun bind_py :: "'a py \<Rightarrow> ('a \<Rightarrow> 'b py) \<Rightarrow> 'b py" where
  "bind_py (Inl e) k = Inl e"
| "bind_py (Inr x) k = k x"

definition assert_py :: "bool \<Rightarrow> unit py" where
  "assert_py b = (if b then Inr () else Inl AssertionError)"

lemma assert_py_simps [simp]:
  "assert_py True = Inr ()" "assert_py False = Inl AssertionError"
  by (simp_all add: assert_py_def)

lemma bind_py_Inr_iff:
  "bind_py m k = Inr y \<longleftrightarrow> (\<exists>x. m = Inr x \<and> k x = Inr y)"
  by (cases m) auto

section \<open>Bit fields\<close>

text \<open>A value fits in a field of \<open>k\<close> bits.\<close>

definition fits :: "nat \<Rightarrow> int \<Rightarrow> bool" where
  "fits k x \<longleftrightarrow> 0 \<le> x \<and> x < 2 ^ k"

lemma fits_iff_take: "fits k x \<longleftrightarrow> take_bit k x = x"
  by (auto simp: fits_def take_bit_int_eq_self_iff)

lemma fits_take: "fits k x \<Longrightarrow> take_bit k x = x"
  by (simp add: fits_iff_take)

lemma fits_take_bit [simp]: "fits k (take_bit k x)"
  by (simp add: fits_iff_take)

lemma fits_drop: "fits k x \<Longrightarrow> drop_bit k x = 0"
  by (simp add: fits_def drop_bit_eq_div)

lemma fits_bit: "fits k x \<Longrightarrow> bit x n \<Longrightarrow> n < k"
  by (metis bit_take_bit_iff fits_take)

lemma fits_mono: "fits j x \<Longrightarrow> j \<le> k \<Longrightarrow> fits k x"
  unfolding fits_def by (meson order_less_le_trans one_le_numeral power_increasing)

lemma fits_or: "fits k x \<Longrightarrow> fits k y \<Longrightarrow> fits k (x OR y)"
  by (simp add: fits_iff_take)

lemma fits_push:
  assumes "fits j x" and "j + k \<le> m"
  shows "fits m (push_bit k x)"
  using assms(2) unfolding fits_iff_take
  by (intro bit_eqI) (auto simp: bit_simps dest: fits_bit [OF assms(1)])

text \<open>Python's \<open>x & mask\<close> for the masks the code uses.\<close>

lemma and_mask_take [slice_simps]:
  fixes x :: int
  shows "x AND 1 = take_bit 1 x" "x AND 0x7 = take_bit 3 x" "x AND 0xF = take_bit 4 x"
    "x AND 0x1F = take_bit 5 x" "x AND 0x3F = take_bit 6 x" "x AND 0x7F = take_bit 7 x"
    "x AND 0xFF = take_bit 8 x" "x AND 0x3FF = take_bit 10 x" "x AND 0xFFF = take_bit 12 x"
    "x AND 0x1FFF = take_bit 13 x" "x AND 0xFFFFF = take_bit 20 x"
    "x AND 0x1FFFFF = take_bit 21 x" "x AND 0xFFFFFFFF = take_bit 32 x"
  by (simp_all add: take_bit_eq_mask mask_eq_exp_minus_1 and_one_eq)

text \<open>A word as the concatenation of its fields, least significant first.\<close>

fun cat :: "(nat \<times> int) list \<Rightarrow> int" where
  "cat [] = 0"
| "cat ((k, v) # r) = v OR push_bit k (cat r)"

definition slice_at :: "nat \<Rightarrow> nat \<Rightarrow> int \<Rightarrow> int" where
  "slice_at lo k x = take_bit k (drop_bit lo x)"

lemma fits_slice_at [simp]: "fits k (slice_at lo k x)"
  by (simp add: slice_at_def)

lemma slice_of_mask:
  "lo + k \<le> m \<Longrightarrow> take_bit k (drop_bit lo (take_bit m x)) = slice_at lo k x"
  by (simp add: slice_at_def drop_bit_take_bit min_absorb1)

fun all_fit :: "(nat \<times> int) list \<Rightarrow> bool" where
  "all_fit [] = True"
| "all_fit ((k, v) # r) = (fits k v \<and> all_fit r)"

fun width :: "(nat \<times> int) list \<Rightarrow> nat" where
  "width [] = 0"
| "width ((k, v) # r) = k + width r"

lemma fits_cat: "all_fit l \<Longrightarrow> fits (width l) (cat l)"
proof (induction l rule: cat.induct)
  case 1
  show ?case by (simp add: fits_def)
next
  case (2 k v r)
  then show ?case
    by (auto intro!: fits_or intro: fits_push fits_mono)
qed

lemma drop_cat: "fits k v \<Longrightarrow> drop_bit k (cat ((k, v) # r)) = cat r"
  by (simp add: drop_bit_or fits_drop drop_bit_push_bit)

lemma slice_cat_in [slice_simps]:
  "fits k v \<Longrightarrow> lo + j \<le> k \<Longrightarrow> slice_at lo j (cat ((k, v) # r)) = slice_at lo j v"
  unfolding slice_at_def by (intro bit_eqI) (auto simp: bit_simps)

lemma slice_cat_past [slice_simps]:
  "fits k v \<Longrightarrow> k \<le> lo \<Longrightarrow> slice_at lo j (cat ((k, v) # r)) = slice_at (lo - k) j (cat r)"
  using drop_cat [of k v r] drop_bit_drop_bit [of "lo - k" k "cat ((k, v) # r)"]
  by (simp add: slice_at_def del: cat.simps)

lemma slice_fits [slice_simps]: "fits k v \<Longrightarrow> slice_at 0 k v = v"
  by (simp add: slice_at_def fits_take)

text \<open>A two's complement value that fits in \<open>Suc k\<close> signed bits.\<close>

definition sfits :: "nat \<Rightarrow> int \<Rightarrow> bool" where
  "sfits k x \<longleftrightarrow> - (2 ^ k) \<le> x \<and> x < 2 ^ k"

lemma sfits_signed_take: "sfits k x \<Longrightarrow> signed_take_bit k x = x"
  by (simp add: sfits_def signed_take_bit_int_eq_self)

lemma sfits_sign_extend: "sfits k x \<Longrightarrow> signed_take_bit k (take_bit (Suc k) x) = x"
  using sfits_signed_take [of k x]
  by (simp add: signed_take_bit_take_bit)

end
