(* ===== verification/Encoders.thy ===== *)
theory Encoders
  imports Prelude
begin

text \<open>
  The instruction encoders of \<open>shared/spike/gen_program.py\<close> (lines 45-92). Python's integers are
  unbounded, so the model works on \<open>int\<close>; \<open><<\<close>, \<open>>>\<close>, \<open>&\<close> and \<open>|\<close> are \<open>push_bit\<close>, \<open>drop_bit\<close>,
  \<open>AND\<close> and \<open>OR\<close>, which agree with Python on negative numbers as well. Every encoder is shown to
  be the concatenation of the fields of its RISC-V format, from which all decoders of the
  development (the RTL's \<open>imm_gen\<close> and the C++ simulator's) read their fields back.
\<close>

definition u32 :: "int \<Rightarrow> int" where
  "u32 v = v AND 0xFFFFFFFF"

definition enc_r :: "int \<Rightarrow> int \<Rightarrow> int \<Rightarrow> int \<Rightarrow> int \<Rightarrow> int \<Rightarrow> int" where
  "enc_r opcode funct3 funct7 rd rs1 rs2 =
     u32 (push_bit 25 funct7 OR push_bit 20 rs2 OR push_bit 15 rs1 OR push_bit 12 funct3
          OR push_bit 7 rd OR opcode)"

definition enc_i :: "int \<Rightarrow> int \<Rightarrow> int \<Rightarrow> int \<Rightarrow> int \<Rightarrow> int" where
  "enc_i opcode funct3 rd rs1 imm =
     u32 (push_bit 20 (imm AND 0xFFF) OR push_bit 15 rs1 OR push_bit 12 funct3
          OR push_bit 7 rd OR opcode)"

definition enc_shift :: "int \<Rightarrow> int \<Rightarrow> int \<Rightarrow> int \<Rightarrow> int \<Rightarrow> int \<Rightarrow> int" where
  "enc_shift opcode funct3 funct7 rd rs1 shamt =
     u32 (push_bit 25 funct7 OR push_bit 20 (shamt AND 0x1F) OR push_bit 15 rs1
          OR push_bit 12 funct3 OR push_bit 7 rd OR opcode)"

definition enc_s :: "int \<Rightarrow> int \<Rightarrow> int \<Rightarrow> int \<Rightarrow> int \<Rightarrow> int" where
  "enc_s opcode funct3 rs1 rs2 imm0 =
     (let imm = imm0 AND 0xFFF
      in u32 (push_bit 25 (drop_bit 5 imm) OR push_bit 20 rs2 OR push_bit 15 rs1
              OR push_bit 12 funct3 OR push_bit 7 (imm AND 0x1F) OR opcode))"

definition enc_b :: "int \<Rightarrow> int \<Rightarrow> int \<Rightarrow> int \<Rightarrow> int \<Rightarrow> int" where
  "enc_b opcode funct3 rs1 rs2 imm0 =
     (let imm = imm0 AND 0x1FFF;
          b12 = drop_bit 12 imm AND 1; b11 = drop_bit 11 imm AND 1;
          b105 = drop_bit 5 imm AND 0x3F; b41 = drop_bit 1 imm AND 0xF
      in u32 (push_bit 31 b12 OR push_bit 25 b105 OR push_bit 20 rs2 OR push_bit 15 rs1
              OR push_bit 12 funct3 OR push_bit 8 b41 OR push_bit 7 b11 OR opcode))"

definition enc_u :: "int \<Rightarrow> int \<Rightarrow> int \<Rightarrow> int" where
  "enc_u opcode rd imm20 =
     u32 (push_bit 12 (imm20 AND 0xFFFFF) OR push_bit 7 rd OR opcode)"

definition enc_j :: "int \<Rightarrow> int \<Rightarrow> int \<Rightarrow> int" where
  "enc_j opcode rd imm0 =
     (let imm = imm0 AND 0x1FFFFF;
          b20 = drop_bit 20 imm AND 1; b19_12 = drop_bit 12 imm AND 0xFF;
          b11 = drop_bit 11 imm AND 1; b10_1 = drop_bit 1 imm AND 0x3FF
      in u32 (push_bit 31 b20 OR push_bit 12 b19_12 OR push_bit 20 b11 OR push_bit 21 b10_1
              OR push_bit 7 rd OR opcode))"

definition R_TYPE :: "(int \<times> int \<times> int) list" where
  "R_TYPE =
     [(0x33, 0x0, 0x00), (0x33, 0x0, 0x20), (0x33, 0x1, 0x00), (0x33, 0x2, 0x00),
      (0x33, 0x3, 0x00), (0x33, 0x4, 0x00), (0x33, 0x5, 0x00), (0x33, 0x5, 0x20),
      (0x33, 0x6, 0x00), (0x33, 0x7, 0x00)]"

definition I_ARITH :: "(int \<times> int) list" where
  "I_ARITH = map (\<lambda>f3. (0x13, f3)) [0x0, 0x2, 0x3, 0x4, 0x6, 0x7]"

definition I_SHIFT :: "(int \<times> int \<times> int) list" where
  "I_SHIFT = [(0x13, 0x1, 0x00), (0x13, 0x5, 0x00), (0x13, 0x5, 0x20)]"

definition BRANCHES :: "(int \<times> int) list" where
  "BRANCHES = map (\<lambda>f3. (0x63, f3)) [0x0, 0x1, 0x4, 0x5]"

section \<open>Every encoder returns a 32-bit word\<close>

lemma u32_take: "u32 v = take_bit 32 v"
  by (simp add: u32_def slice_simps)

lemma fits_u32: "fits 32 (u32 v)"
  by (simp add: u32_take)

lemma enc_fits:
  "fits 32 (enc_r opc f3 f7 rd rs1 rs2)" "fits 32 (enc_i opc f3 rd rs1 imm)"
  "fits 32 (enc_shift opc f3 f7 rd rs1 sh)" "fits 32 (enc_s opc f3 rs1 rs2 imm)"
  "fits 32 (enc_b opc f3 rs1 rs2 imm)" "fits 32 (enc_u opc rd imm)"
  "fits 32 (enc_j opc rd imm)"
  by (simp_all add: enc_r_def enc_i_def enc_shift_def enc_s_def enc_b_def enc_u_def enc_j_def
      fits_u32 Let_def)

lemma push_bit_twice: "push_bit k (2 * x) = push_bit (k + 1) (x :: int)"
  by (simp add: push_bit_eq_mult)

section \<open>Every encoder is the concatenation of its fields\<close>

lemma u32_cat: "all_fit l \<Longrightarrow> width l = 32 \<Longrightarrow> u32 (cat l) = cat l"
  using fits_cat [of l] by (simp add: u32_take fits_iff_take)

lemma enc_r_cat:
  assumes "fits 7 opc" "fits 3 f3" "fits 7 f7" "fits 5 rd" "fits 5 rs1" "fits 5 rs2"
  shows "enc_r opc f3 f7 rd rs1 rs2
    = cat [(7, opc), (5, rd), (3, f3), (5, rs1), (5, rs2), (7, f7)]" (is "_ = cat ?l")
proof -
  have "push_bit 25 f7 OR push_bit 20 rs2 OR push_bit 15 rs1 OR push_bit 12 f3
          OR push_bit 7 rd OR opc = cat ?l"
    by (simp add: push_bit_push_bit ac_simps)
  with assms show ?thesis
    unfolding enc_r_def by (simp only:) (simp add: u32_cat del: cat.simps)
qed

lemma enc_i_cat:
  assumes "fits 7 opc" "fits 3 f3" "fits 5 rd" "fits 5 rs1"
  shows "enc_i opc f3 rd rs1 imm
    = cat [(7, opc), (5, rd), (3, f3), (5, rs1), (12, take_bit 12 imm)]" (is "_ = cat ?l")
proof -
  have "push_bit 20 (take_bit 12 imm) OR push_bit 15 rs1 OR push_bit 12 f3
          OR push_bit 7 rd OR opc = cat ?l"
    by (simp add: push_bit_push_bit ac_simps)
  with assms show ?thesis
    unfolding enc_i_def slice_simps by (simp only:) (simp add: u32_cat del: cat.simps)
qed

lemma enc_shift_cat:
  assumes "fits 7 opc" "fits 3 f3" "fits 7 f7" "fits 5 rd" "fits 5 rs1"
  shows "enc_shift opc f3 f7 rd rs1 sh
    = cat [(7, opc), (5, rd), (3, f3), (5, rs1), (5, take_bit 5 sh), (7, f7)]"
  using enc_r_cat [OF assms, of "take_bit 5 sh"]
  by (simp add: enc_shift_def enc_r_def slice_simps)

lemma enc_s_cat:
  assumes "fits 7 opc" "fits 3 f3" "fits 5 rs1" "fits 5 rs2"
  shows "enc_s opc f3 rs1 rs2 imm
    = cat [(7, opc), (5, slice_at 0 5 imm), (3, f3), (5, rs1), (5, rs2), (7, slice_at 5 7 imm)]"
proof -
  have "fits 7 (slice_at 5 7 imm)" "fits 5 (slice_at 0 5 imm)"
    by simp_all
  from enc_r_cat [OF assms(1,2) this assms(3,4)] show ?thesis
    by (simp add: enc_s_def enc_r_def Let_def slice_simps slice_at_def drop_bit_take_bit)
qed

lemma enc_b_cat:
  assumes "fits 7 opc" "fits 3 f3" "fits 5 rs1" "fits 5 rs2"
  shows "enc_b opc f3 rs1 rs2 imm
    = cat [(7, opc), (1, slice_at 11 1 imm), (4, slice_at 1 4 imm), (3, f3), (5, rs1), (5, rs2),
           (6, slice_at 5 6 imm), (1, slice_at 12 1 imm)]" (is "_ = cat ?l")
proof -
  have "push_bit 31 (slice_at 12 1 imm) OR push_bit 25 (slice_at 5 6 imm) OR push_bit 20 rs2
          OR push_bit 15 rs1 OR push_bit 12 f3 OR push_bit 8 (slice_at 1 4 imm)
          OR push_bit 7 (slice_at 11 1 imm) OR opc = cat ?l"
    by (simp add: push_bit_push_bit push_bit_twice ac_simps)
  moreover have "all_fit ?l"
    using assms by simp
  ultimately show ?thesis
    using u32_cat [of ?l]
    by (simp add: enc_b_def Let_def slice_simps slice_of_mask del: cat.simps take_bit_Suc_0)
qed

lemma enc_u_cat:
  assumes "fits 7 opc" "fits 5 rd"
  shows "enc_u opc rd imm = cat [(7, opc), (5, rd), (20, take_bit 20 imm)]" (is "_ = cat ?l")
proof -
  have "push_bit 12 (take_bit 20 imm) OR push_bit 7 rd OR opc = cat ?l"
    by (simp add: push_bit_push_bit ac_simps)
  with assms show ?thesis
    unfolding enc_u_def slice_simps by (simp only:) (simp add: u32_cat del: cat.simps)
qed

lemma enc_j_cat:
  assumes "fits 7 opc" "fits 5 rd"
  shows "enc_j opc rd imm
    = cat [(7, opc), (5, rd), (8, slice_at 12 8 imm), (1, slice_at 11 1 imm),
           (10, slice_at 1 10 imm), (1, slice_at 20 1 imm)]" (is "_ = cat ?l")
proof -
  have "push_bit 31 (slice_at 20 1 imm) OR push_bit 12 (slice_at 12 8 imm)
          OR push_bit 20 (slice_at 11 1 imm) OR push_bit 21 (slice_at 1 10 imm)
          OR push_bit 7 rd OR opc = cat ?l"
    by (simp add: push_bit_push_bit push_bit_twice ac_simps)
  moreover have "all_fit ?l"
    using assms by simp
  ultimately show ?thesis
    using u32_cat [of ?l]
    by (simp add: enc_j_def Let_def slice_simps slice_of_mask del: cat.simps take_bit_Suc_0)
qed

lemmas enc_cats = enc_r_cat enc_i_cat enc_shift_cat enc_s_cat enc_b_cat enc_u_cat enc_j_cat

end
