(* ===== verification/Py_Random.thy ===== *)
theory Py_Random
  imports Prelude
begin

text \<open>
  The part of Python's \<open>random.Random\<close> that \<open>gen_program.py\<close> uses. The state of the generator is the
  tape of 32-bit outputs its Mersenne Twister has still to produce; the methods consume it exactly
  as CPython does (\<open>_randbelow\<close> rejects draws of \<open>bit_length(n)\<close> bits that are not below \<open>n\<close>,
  \<open>random()\<close> builds a 53-bit fraction from two outputs, \<open>choices\<close> bisects the cumulative weights at
  \<open>random() * total\<close>, rounded as an IEEE double). Every run of the program on every seed reads some
  finite tape, so a theorem about all tapes is a theorem about all seeds; reading past the end of a
  tape yields zero.

  The locale \<open>bounded_draws\<close> is the contract the generator relies on; it is interpreted on the
  methods below.
\<close>

type_synonym rng = "32 word list"

fun genrand_uint32 :: "rng \<Rightarrow> 32 word \<times> rng" where
  "genrand_uint32 [] = (0, [])"
| "genrand_uint32 (w # ws) = (w, ws)"

text \<open>\<open>int.bit_length\<close>.\<close>

function bit_length :: "int \<Rightarrow> nat" where
  "bit_length n = (if n = 0 then 0 else Suc (bit_length (\<bar>n\<bar> div 2)))"
  by pat_completeness auto
termination
  by (relation "measure (\<lambda>n. nat \<bar>n\<bar>)") auto

declare bit_length.simps [simp del]

text \<open>\<open>_randbelow(n)\<close>: draw \<open>n.bit_length()\<close> bits until the draw is below \<open>n\<close>.\<close>

fun randbelow :: "int \<Rightarrow> rng \<Rightarrow> int \<times> rng" where
  "randbelow n [] = (0, [])"
| "randbelow n (w # ws) =
     (let r = uint (drop_bit (32 - bit_length n) w)
      in if r < n then (r, ws) else randbelow n ws)"

definition randint :: "int \<Rightarrow> int \<Rightarrow> rng \<Rightarrow> int \<times> rng" where
  "randint a b t = (let (r, t') = randbelow (b + 1 - a) t in (a + r, t'))"

definition randrange :: "int \<Rightarrow> int \<Rightarrow> int \<Rightarrow> rng \<Rightarrow> int \<times> rng" where
  "randrange start stop step t =
     (let (r, t') = randbelow ((stop - start + step - 1) div step) t in (start + step * r, t'))"

definition choice :: "'a list \<Rightarrow> rng \<Rightarrow> 'a \<times> rng" where
  "choice xs t = (let (r, t') = randbelow (int (length xs)) t in (xs ! nat r, t'))"

text \<open>\<open>random()\<close> as the numerator of a fraction over \<open>2 ^ 53\<close>.\<close>

definition random53 :: "rng \<Rightarrow> int \<times> rng" where
  "random53 t =
     (let (a, t1) = genrand_uint32 t; (b, t2) = genrand_uint32 t1
      in (uint (drop_bit 5 a) * 67108864 + uint (drop_bit 6 b), t2))"

text \<open>Rounding of a non-negative integer to 53 significant bits, ties to even.\<close>

definition round53 :: "int \<Rightarrow> int" where
  "round53 m =
     (let e = bit_length m - 53; q = m div 2 ^ e; r = m mod 2 ^ e
      in if e = 0 then m
         else if 2 * r > 2 ^ e \<or> (2 * r = 2 ^ e \<and> odd q) then (q + 1) * 2 ^ e
         else q * 2 ^ e)"

fun accumulate :: "int \<Rightarrow> int list \<Rightarrow> int list" where
  "accumulate s [] = []"
| "accumulate s (w # ws) = (s + w) # accumulate (s + w) ws"

text \<open>\<open>choices(population, weights)[0]\<close>: \<open>bisect(cum_weights, random() * total, 0, n - 1)\<close>.\<close>

definition choices :: "'a list \<Rightarrow> int list \<Rightarrow> rng \<Rightarrow> 'a \<times> rng" where
  "choices population weights t =
     (let cum_weights = accumulate 0 weights;
          total = last cum_weights;
          (k, t') = random53 t;
          x = round53 (k * total);
          hi = length population - 1
      in (population ! length (takeWhile (\<lambda>c. c * 2 ^ 53 \<le> x) (take hi cum_weights)), t'))"

section \<open>The contract of the draws\<close>

locale bounded_draws =
  fixes below :: "int \<Rightarrow> 's \<Rightarrow> int \<times> 's"
  assumes below_nonneg: "0 < n \<Longrightarrow> below n s = (r, s') \<Longrightarrow> 0 \<le> r"
    and below_less: "0 < n \<Longrightarrow> below n s = (r, s') \<Longrightarrow> r < n"
begin

lemma offset_bounds:
  "a \<le> b \<Longrightarrow> below (b + 1 - a) s = (r, s') \<Longrightarrow> a \<le> a + r \<and> a + r \<le> b"
  using below_nonneg [of "b + 1 - a" s r s'] below_less [of "b + 1 - a" s r s'] by simp

lemma index_in:
  "xs \<noteq> [] \<Longrightarrow> below (int (length xs)) s = (r, s') \<Longrightarrow> xs ! nat r \<in> set xs"
  using below_nonneg [of "int (length xs)" s r s'] below_less [of "int (length xs)" s r s'] by simp

end

lemma randbelow_bounds:
  "0 < n \<Longrightarrow> randbelow n t = (r, t') \<Longrightarrow> 0 \<le> r \<and> r < n"
  by (induction n t rule: randbelow.induct) (auto simp: Let_def split: if_splits)

interpretation draws: bounded_draws randbelow
  by unfold_locales (auto dest: randbelow_bounds)

lemma randint_bounds:
  "a \<le> b \<Longrightarrow> randint a b t = (r, t') \<Longrightarrow> a \<le> r \<and> r \<le> b"
  by (auto simp: randint_def split: prod.splits dest: draws.offset_bounds)

lemma choice_in:
  "xs \<noteq> [] \<Longrightarrow> choice xs t = (x, t') \<Longrightarrow> x \<in> set xs"
  by (auto simp: choice_def split: prod.splits dest: draws.index_in)

lemma randrange_bounds:
  assumes "0 < step" "start < stop" "randrange start stop step t = (r, t')"
  obtains k where "r = start + step * k" "0 \<le> k" "r < stop"
proof -
  let ?n = "(stop - start + step - 1) div step"
  obtain k where k: "randbelow ?n t = (k, t')" "r = start + step * k"
    using assms(3) by (auto simp: randrange_def split: prod.splits)
  have "0 < ?n" using assms(1,2) by (simp add: pos_imp_zdiv_pos_iff)
  with k have b: "0 \<le> k" "k < ?n" by (auto dest: randbelow_bounds)
  then have "step * (k + 1) \<le> step * ?n" using assms(1) by simp
  also have "\<dots> \<le> stop - start + step - 1"
    using assms(1) pos_mod_sign [of step "stop - start + step - 1"]
    unfolding minus_mod_eq_mult_div [symmetric] by linarith
  finally have "r < stop" using k(2) by (simp add: algebra_simps)
  with k b that show thesis by blast
qed

lemma length_accumulate [simp]: "length (accumulate s ws) = length ws"
  by (induction ws arbitrary: s) auto

lemma choices_in:
  assumes "population \<noteq> []" "length weights = length population"
    and "choices population weights t = (x, t')"
  shows "x \<in> set population"
proof -
  obtain k where k: "random53 t = (k, t')"
    using assms(3) by (auto simp: choices_def Let_def split: prod.splits)
  let ?xs = "take (length population - 1) (accumulate 0 weights)"
  let ?n = "length (takeWhile (\<lambda>c. c * 2 ^ 53 \<le> round53 (k * last (accumulate 0 weights))) ?xs)"
  have "?n \<le> length ?xs" by (rule length_takeWhile_le)
  then have "?n < length population" using assms(1,2) by (cases population) auto
  moreover have "x = population ! ?n" using assms(3) k by (auto simp: choices_def Let_def)
  ultimately show ?thesis by simp
qed

lemma random53_bounds:
  assumes "random53 t = (k, t')"
  shows "0 \<le> k \<and> k < 2 ^ 53"
proof -
  obtain a b :: "32 word" where k: "k = uint (drop_bit 5 a) * 67108864 + uint (drop_bit 6 b)"
    using assms by (auto simp: random53_def Let_def split: prod.splits)
  have "uint (drop_bit 5 a) < 2 ^ 27" "uint (drop_bit 6 b) < 2 ^ 26"
    using uint_lt2p [of a] uint_lt2p [of b]
    by (simp_all add: uint_div drop_bit_eq_div)
  then show ?thesis using k by simp
qed

end
