(* ===== verification/Generator.thy ===== *)
theory Generator
  imports Encoders Py_Random
begin

text \<open>
  The random program generator of \<open>shared/spike/gen_program.py\<close> (lines 95-448). The mutable set
  \<open>written_offsets\<close> and the random state are threaded explicitly, in that order, through every
  function that changes them; the list \<open>instrs\<close>, which starts as \<open>[None] * n\<close>, is a list of
  optional words.
\<close>

type_synonym ranges = "(int \<times> int) list"

definition gen_reg :: "rng \<Rightarrow> int \<times> rng" where
  "gen_reg t = randint 0 29 t"

definition DATA_MEM_BYTES :: int where "DATA_MEM_BYTES = 4096"
definition LOAD_STORE_WINDOW :: int where "LOAD_STORE_WINDOW = 32"
definition LOOP_BODY_WORDS :: "int \<times> int" where "LOOP_BODY_WORDS = (1, 5)"
definition LOOP_TRIP_COUNTS :: "int \<times> int" where "LOOP_TRIP_COUNTS = (2, 8)"

text \<open>The double nearest to 0.15 is 5404319552844595 / 2^55.\<close>

definition below_LOOP_BLOCK_PROB :: "int \<Rightarrow> bool" where
  "below_LOOP_BLOCK_PROB k \<longleftrightarrow> k * 4 < 5404319552844595"

definition in_any_range :: "int \<Rightarrow> ranges \<Rightarrow> bool" where
  "in_any_range idx ranges = (\<exists>(lo, hi) \<in> set ranges. lo \<le> idx \<and> idx < hi)"

section \<open>One random instruction\<close>

definition gen_r :: "rng \<Rightarrow> int \<times> rng" where
  "gen_r t =
     (let ((op, f3, f7), t1) = choice R_TYPE t;
          (rd, t2) = gen_reg t1; (rs1, t3) = gen_reg t2; (rs2, t4) = gen_reg t3
      in (enc_r op f3 f7 rd rs1 rs2, t4))"

definition gen_i_arith :: "rng \<Rightarrow> int \<times> rng" where
  "gen_i_arith t =
     (let ((op, f3), t1) = choice I_ARITH t;
          (rd, t2) = gen_reg t1; (rs1, t3) = gen_reg t2; (imm, t4) = randint (-2048) 2047 t3
      in (enc_i op f3 rd rs1 imm, t4))"

definition gen_i_shift :: "rng \<Rightarrow> int \<times> rng" where
  "gen_i_shift t =
     (let ((op, f3, f7), t1) = choice I_SHIFT t;
          (rd, t2) = gen_reg t1; (rs1, t3) = gen_reg t2; (sh, t4) = randint 0 31 t3
      in (enc_shift op f3 f7 rd rs1 sh, t4))"

definition gen_load :: "int set \<Rightarrow> rng \<Rightarrow> int \<times> rng" where
  "gen_load written t =
     (let (offset, t1) = choice (sorted_list_of_set written) t; (rd, t2) = gen_reg t1
      in (enc_i 0x03 0x2 rd 31 offset, t2))"

definition gen_store :: "int set \<Rightarrow> rng \<Rightarrow> int \<times> int set \<times> rng" where
  "gen_store written t =
     (let (offset, t1) = randrange (- LOAD_STORE_WINDOW) (LOAD_STORE_WINDOW + 1) 4 t;
          written' = insert offset written;
          (rs2, t2) = gen_reg t1
      in (enc_s 0x23 0x2 31 rs2 offset, written', t2))"

text \<open>\<open>min(8, total - 1 - pos) or 1\<close>, and the distances whose target no loop block covers.\<close>

definition max_span :: "int \<Rightarrow> int \<Rightarrow> int" where
  "max_span pos total_n = (let m = min 8 (total_n - 1 - pos) in if m = 0 then 1 else m)"

definition candidates :: "int \<Rightarrow> int \<Rightarrow> ranges \<Rightarrow> int list" where
  "candidates pos total_n loop_ranges =
     filter (\<lambda>d. \<not> in_any_range (pos + d) loop_ranges) [1 .. max_span pos total_n]"

definition gen_branch :: "int \<Rightarrow> int \<Rightarrow> ranges \<Rightarrow> rng \<Rightarrow> int \<times> rng" where
  "gen_branch pos total_n loop_ranges t =
     (let ((op, f3), t1) = choice BRANCHES t;
          cands = candidates pos total_n loop_ranges
      in if cands = [] then gen_r t1
         else (let (delta_words, t2) = choice cands t1;
                   (rs1, t3) = gen_reg t2; (rs2, t4) = gen_reg t3
               in (enc_b op f3 rs1 rs2 (delta_words * 4), t4)))"

definition gen_jal :: "int \<Rightarrow> int \<Rightarrow> ranges \<Rightarrow> rng \<Rightarrow> int \<times> rng" where
  "gen_jal pos total_n loop_ranges t =
     (let cands = candidates pos total_n loop_ranges
      in if cands = [] then gen_r t
         else (let (delta_words, t1) = choice cands t
               in (enc_j 0x6F 0 (delta_words * 4), t1)))"

definition categories :: "bool \<Rightarrow> int set \<Rightarrow> string list" where
  "categories allow_branch_jal written =
     [''r'', ''i_arith'', ''i_shift'', ''store'']
     @ (if allow_branch_jal then [''branch'', ''jal''] else [])
     @ (if written \<noteq> {} then [''load''] else [])"

definition category_weights :: "bool \<Rightarrow> int set \<Rightarrow> int list" where
  "category_weights allow_branch_jal written =
     [10, 10, 4, 8]
     @ (if allow_branch_jal then [8, 3] else [])
     @ (if written \<noteq> {} then [8] else [])"

text \<open>
  \<open>pos\<close> and \<open>total\<close> are Python's \<open>None\<close> when branches and jumps are not allowed; they are read
  only in the branch and jal categories, which are then not among the choices, so any number
  stands for \<open>None\<close> there. A category outside the list cannot be drawn; the last case is
  Python's jal branch.
\<close>

definition gen_one_instr ::
    "bool \<Rightarrow> int \<Rightarrow> int \<Rightarrow> ranges \<Rightarrow> int set \<Rightarrow> rng \<Rightarrow> int \<times> int set \<times> rng" where
  "gen_one_instr allow_branch_jal pos total_n loop_ranges written t =
     (let (category, t1) = choices (categories allow_branch_jal written)
                             (category_weights allow_branch_jal written) t;
          keep = (\<lambda>(w, t'). (w, written, t'))
      in if category = ''r'' then keep (gen_r t1)
         else if category = ''i_arith'' then keep (gen_i_arith t1)
         else if category = ''i_shift'' then keep (gen_i_shift t1)
         else if category = ''load'' then keep (gen_load written t1)
         else if category = ''store'' then gen_store written t1
         else if category = ''branch'' then keep (gen_branch pos total_n loop_ranges t1)
         else keep (gen_jal pos total_n loop_ranges t1))"

section \<open>Loop blocks\<close>

fun gen_body :: "nat \<Rightarrow> int set \<Rightarrow> rng \<Rightarrow> int list \<times> int set \<times> rng" where
  "gen_body 0 written t = ([], written, t)"
| "gen_body (Suc k) written t =
     (let (w, written1, t1) = gen_one_instr False 0 0 [] written t;
          (ws, written2, t2) = gen_body k written1 t1
      in (w # ws, written2, t2))"

definition random_loop_block ::
    "int set \<Rightarrow> int \<Rightarrow> rng \<Rightarrow> (int list \<times> int) option \<times> int set \<times> rng" where
  "random_loop_block written budget_words t =
     (let max_body = min (snd LOOP_BODY_WORDS) (budget_words - 3)
      in if max_body < fst LOOP_BODY_WORDS then (None, written, t)
         else
           (let (body_len, t1) = randint (fst LOOP_BODY_WORDS) max_body t;
                (trip_count, t2) = randint (fst LOOP_TRIP_COUNTS) (snd LOOP_TRIP_COUNTS) t1;
                init = enc_i 0x13 0x0 30 0 trip_count;
                (body, written', t3) = gen_body (nat body_len) written t2;
                decrement = enc_i 0x13 0x0 30 30 (-1);
                branch_back = enc_b 0x63 0x1 30 0 (- (body_len + 1) * 4);
                words = [init] @ body @ [decrement, branch_back];
                retire_count = 1 + trip_count * (body_len + 2)
            in (Some (words, retire_count), written', t3)))"

lemma random_loop_block_nonempty:
  "random_loop_block written budget_words t = (Some (words, retire_count), written', t')
   \<Longrightarrow> words \<noteq> []"
  by (auto simp: random_loop_block_def Let_def split: if_splits prod.splits)

section \<open>The whole random stream\<close>

text \<open>\<open>instrs[i : i + len(words)] = words\<close>.\<close>

definition splice_in :: "nat \<Rightarrow> 'a list \<Rightarrow> 'a list \<Rightarrow> 'a list" where
  "splice_in i ws xs = take i xs @ ws @ drop (i + length ws) xs"

text \<open>The state of pass 1: the words, the retirement estimate, the loop ranges, the open slots.\<close>

record pass1 =
  instrs :: "int option list"
  expected_retire :: int
  loop_ranges :: ranges
  single_slots :: "int list"

function place_blocks ::
    "int \<Rightarrow> int \<Rightarrow> pass1 \<Rightarrow> int set \<Rightarrow> rng \<Rightarrow> pass1 \<times> int set \<times> rng" where
  "place_blocks n i s written t =
     (if i < n then
        (let (k, t1) = random53 t;
             (block, written', t2) =
               (if below_LOOP_BLOCK_PROB k then random_loop_block written (n - i) t1
                else (None, written, t1))
         in case block of
              Some (words, retire_count) \<Rightarrow>
                place_blocks n (i + int (length words))
                  (s\<lparr>instrs := splice_in (nat i) (map Some words) (instrs s),
                     loop_ranges := loop_ranges s @ [(i, i + int (length words))],
                     expected_retire := expected_retire s + retire_count\<rparr>) written' t2
            | None \<Rightarrow>
                place_blocks n (i + 1)
                  (s\<lparr>single_slots := single_slots s @ [i],
                     expected_retire := expected_retire s + 1\<rparr>) written' t2)
      else (s, written, t))"
  by pat_completeness auto
termination
proof (relation "measure (\<lambda>(n, i, _). nat (n - i))", goal_cases)
  case (3 n i s written t x k t1 y block z written' t2 p words retire_count)
  then have "y = (Some (words, retire_count), written', t2)" by simp
  with 3 have "words \<noteq> []"
    by (auto split: if_splits dest!: random_loop_block_nonempty [OF sym])
  then have "0 < int (length words)" by simp
  with 3(1) show ?case by simp
qed simp_all

declare place_blocks.simps [simp del]

fun fill_slots ::
    "int \<Rightarrow> ranges \<Rightarrow> int list \<Rightarrow> int option list \<Rightarrow> int set \<Rightarrow> rng
     \<Rightarrow> int option list \<times> int set \<times> rng" where
  "fill_slots n ranges [] ins written t = (ins, written, t)"
| "fill_slots n ranges (i # slots) ins written t =
     (let (w, written', t') = gen_one_instr True i n ranges written t
      in fill_slots n ranges slots (ins[nat i := Some w]) written' t')"

definition AUIPC_PC :: int where "AUIPC_PC = 31 * 4"

text \<open>Lines 364-368: the split of \<open>data_offset\<close> into the immediates of auipc and addi.\<close>

definition split_offset :: "int \<Rightarrow> int \<times> int" where
  "split_offset data_offset =
     (let lo12 = data_offset AND 0xFFF; hi20 = drop_bit 12 data_offset
      in if lo12 AND 0x800 \<noteq> 0 then (hi20 + 1, lo12 - 0x1000) else (hi20, lo12))"

definition random_program :: "int \<Rightarrow> rng \<Rightarrow> (int option list \<times> int) py \<times> rng" where
  "random_program n t =
     (let total_words = 31 + n + 1;
          program_end_bytes = total_words * 4;
          data_offset = program_end_bytes - AUIPC_PC + LOAD_STORE_WINDOW;
          max_valid_end = DATA_MEM_BYTES - 4 - 2 * LOAD_STORE_WINDOW
      in if \<not> program_end_bytes \<le> max_valid_end then (Inl AssertionError, t)
         else
           (let (hi20, lo12) = split_offset data_offset
            in if n \<le> 0 then (Inl IndexError, t)
               else
                 (let ins0 = (replicate (nat n) None)[0 := Some (enc_u 0x17 31 hi20)];
                      ins1 = (if n > 1 then ins0[1 := Some (enc_i 0x13 0x0 31 31 lo12)] else ins0);
                      start = (if n > 1 then 2 else 1);
                      (s, written, t1) = place_blocks n start
                        \<lparr>instrs = ins1, expected_retire = 0, loop_ranges = [], single_slots = []\<rparr> {} t;
                      (ins, written', t2) = fill_slots n (loop_ranges s) (single_slots s) (instrs s) written t1
                  in (Inr (ins, expected_retire s), t2))))"

definition EPILOGUE :: int where
  "EPILOGUE = enc_b 0x63 0x0 0 0 0"

definition clear_all_regs_preamble :: "int list" where
  "clear_all_regs_preamble = map (\<lambda>r. enc_i 0x13 0x0 r 0 0) [1 .. 31]"

definition build_full_program :: "int \<Rightarrow> rng \<Rightarrow> (int option list \<times> int) py \<times> rng" where
  "build_full_program n t =
     (case random_program n t of
        (Inl e, t') \<Rightarrow> (Inl e, t')
      | (Inr (program, program_retire), t') \<Rightarrow>
          (Inr (map Some clear_all_regs_preamble @ program @ [Some EPILOGUE],
                31 + program_retire + 1), t'))"

end
