(* ===== verification/Elf_Writer.thy ===== *)
theory Elf_Writer
  imports Prelude
begin

text \<open>
  The ELF writer of \<open>shared/spike/gen_program.py\<close> (lines 453-554): \<open>struct.pack\<close> and
  \<open>struct.unpack\<close> for little-endian H (2 bytes) and I (4 bytes) fields with their range and length
  errors, \<open>build_elf32\<close> and \<open>self_check_elf\<close>, and the exact layout of the file written.
\<close>

type_synonym bytes = "8 word list"

section \<open>struct.pack and struct.unpack\<close>

text \<open>The width in bytes of a format character.\<close>

definition fmt_size :: "char \<Rightarrow> nat" where
  "fmt_size c = (if c = CHR ''H'' then 2 else 4)"

definition le_bytes :: "nat \<Rightarrow> int \<Rightarrow> bytes" where
  "le_bytes k v = map (\<lambda>i. word_of_int (drop_bit (8 * i) v)) [0 ..< k]"

definition of_le_bytes :: "bytes \<Rightarrow> int" where
  "of_le_bytes bs = foldr (\<lambda>b a. uint b + 256 * a) bs 0"

text \<open>A format is \<open><\<close> followed by H and I characters; the model takes the characters behind the \<open><\<close>.\<close>

fun struct_pack :: "string \<Rightarrow> int list \<Rightarrow> bytes py" where
  "struct_pack [] [] = Inr []"
| "struct_pack (c # cs) (v # vs) =
     (if fits (8 * fmt_size c) v
      then bind_py (struct_pack cs vs) (\<lambda>bs. Inr (le_bytes (fmt_size c) v @ bs))
      else Inl StructError)"
| "struct_pack _ _ = Inl StructError"

fun struct_unpack :: "string \<Rightarrow> bytes \<Rightarrow> int list py" where
  "struct_unpack [] bs = (if bs = [] then Inr [] else Inl StructError)"
| "struct_unpack (c # cs) bs =
     (if fmt_size c \<le> length bs
      then bind_py (struct_unpack cs (drop (fmt_size c) bs))
             (\<lambda>vs. Inr (of_le_bytes (take (fmt_size c) bs) # vs))
      else Inl StructError)"

text \<open>\<open>xs[a:b]\<close> for non-negative bounds.\<close>

definition byte_slice :: "int \<Rightarrow> int \<Rightarrow> bytes \<Rightarrow> bytes" where
  "byte_slice a b bs = take (nat b - nat a) (drop (nat a) bs)"

section \<open>The writer\<close>

definition ENTRY_ADDR :: int where
  "ENTRY_ADDR = 0x80000000"

text \<open>A slot that is still \<open>None\<close> is not an integer: \<open>struct.error\<close>.\<close>

fun pack_words :: "int option list \<Rightarrow> bytes py" where
  "pack_words [] = Inr []"
| "pack_words (None # ws) = Inl StructError"
| "pack_words (Some w # ws) =
     bind_py (struct_pack ''I'' [w]) (\<lambda>b. bind_py (pack_words ws) (\<lambda>bs. Inr (b @ bs)))"

definition EHDR_SIZE :: int where "EHDR_SIZE = 52"
definition PHDR_SIZE :: int where "PHDR_SIZE = 32"
definition SHDR_SIZE :: int where "SHDR_SIZE = 40"

definition ascii_bytes :: "string \<Rightarrow> bytes" where
  "ascii_bytes s = map (\<lambda>c. word_of_nat (of_char c)) s"

definition shstrtab_content :: bytes where
  "shstrtab_content = [0] @ ascii_bytes ''.shstrtab'' @ [0]"

definition e_ident :: bytes where
  "e_ident = [0x7F] @ ascii_bytes ''ELF'' @ [1, 1, 1, 0] @ replicate 8 0"

definition ehdr_fields :: "int \<Rightarrow> int \<Rightarrow> int list" where
  "ehdr_fields entry shoff =
     [2, 243, 1, entry, EHDR_SIZE, shoff, 0, EHDR_SIZE, PHDR_SIZE, 1, SHDR_SIZE, 2, 1]"

definition phdr_fields :: "int \<Rightarrow> int \<Rightarrow> int list" where
  "phdr_fields entry code_len =
     [1, EHDR_SIZE + PHDR_SIZE, entry, entry, code_len, code_len, 5, 0x1000]"

definition shstrtab_fields :: "int \<Rightarrow> int list" where
  "shstrtab_fields shstrtab_offset =
     [1, 3, 0, 0, shstrtab_offset, int (length shstrtab_content), 0, 0, 1, 0]"

definition null_fields :: "int list" where
  "null_fields = [0, 0, 0, 0, 0, 0, 0, 0, 0, 0]"

definition build_elf32 :: "int option list \<Rightarrow> int \<Rightarrow> bytes py" where
  "build_elf32 instr_words entry =
     bind_py (pack_words instr_words) (\<lambda>code.
       let code_offset = EHDR_SIZE + PHDR_SIZE;
           shstrtab_offset = code_offset + int (length code);
           shoff = shstrtab_offset + int (length shstrtab_content)
       in bind_py (struct_pack ''HHIIIIIHHHHHH'' (ehdr_fields entry shoff)) (\<lambda>eh.
          bind_py (struct_pack ''IIIIIIII'' (phdr_fields entry (int (length code)))) (\<lambda>phdr.
          bind_py (struct_pack ''IIIIIIIIII'' null_fields) (\<lambda>shdr_null.
          bind_py (struct_pack ''IIIIIIIIII'' (shstrtab_fields shstrtab_offset)) (\<lambda>shdr_shstrtab.
          let ehdr = e_ident @ eh;
              elf_bytes = ehdr @ phdr @ code @ shstrtab_content @ shdr_null @ shdr_shstrtab
          in bind_py (assert_py (int (length ehdr) = EHDR_SIZE \<and> int (length phdr) = PHDR_SIZE)) (\<lambda>_.
             bind_py (assert_py (int (length shdr_null) = SHDR_SIZE \<and> int (length shdr_shstrtab) = SHDR_SIZE)) (\<lambda>_.
             Inr elf_bytes)))))))"

definition self_check_elf :: "bytes \<Rightarrow> bool py" where
  "self_check_elf elf_bytes =
     bind_py (assert_py (take 4 elf_bytes = [0x7F] @ ascii_bytes ''ELF'')) (\<lambda>_.
     bind_py (struct_unpack ''HHIIIIIHHHHHH'' (byte_slice 16 52 elf_bytes)) (\<lambda>e.
       let e_type = e ! 0; e_machine = e ! 1; e_phoff = e ! 4; e_shnum = e ! 11; e_shstrndx = e ! 12
       in bind_py (assert_py (e_machine = 243)) (\<lambda>_.
          bind_py (assert_py (e_type = 2)) (\<lambda>_.
          bind_py (struct_unpack ''III'' (byte_slice e_phoff (e_phoff + 12) elf_bytes)) (\<lambda>p.
          let p_type = p ! 0; p_vaddr = p ! 2
          in bind_py (assert_py (p_type = 1)) (\<lambda>_.
             bind_py (assert_py (p_vaddr = ENTRY_ADDR)) (\<lambda>_.
             bind_py (assert_py (e_shstrndx < e_shnum)) (\<lambda>_. Inr True))))))))"

section \<open>Bytes and integers\<close>

lemma length_le_bytes [simp]: "length (le_bytes k v) = k"
  by (simp add: le_bytes_def)

lemma le_bytes_Suc: "le_bytes (Suc k) v = word_of_int v # le_bytes k (drop_bit 8 v)"
proof -
  have "[0 ..< Suc k] = 0 # map Suc [0 ..< k]" by (simp add: upt_conv_Cons map_Suc_upt del: upt_Suc)
  then show ?thesis by (simp add: le_bytes_def drop_bit_drop_bit add.commute del: upt_Suc)
qed

lemma of_le_le: "fits (8 * k) v \<Longrightarrow> of_le_bytes (le_bytes k v) = v"
proof (induction k arbitrary: v)
  case 0
  then show ?case by (simp add: fits_def of_le_bytes_def le_bytes_def)
next
  case (Suc k)
  have "fits (8 * k) (drop_bit 8 v)"
    using Suc.prems by (auto simp: fits_def drop_bit_eq_div power_add)
  from Suc.IH [OF this] have "of_le_bytes (le_bytes (Suc k) v) = v mod 256 + 256 * drop_bit 8 v"
    by (simp add: le_bytes_Suc of_le_bytes_def uint_word_of_int)
  then show ?case by (simp add: drop_bit_eq_div)
qed

fun all_fmt_fit :: "string \<Rightarrow> int list \<Rightarrow> bool" where
  "all_fmt_fit [] [] = True"
| "all_fmt_fit (c # cs) (v # vs) = (fits (8 * fmt_size c) v \<and> all_fmt_fit cs vs)"
| "all_fmt_fit _ _ = False"

definition pack_bytes :: "string \<Rightarrow> int list \<Rightarrow> bytes" where
  "pack_bytes cs vs = concat (map2 (\<lambda>c v. le_bytes (fmt_size c) v) cs vs)"

lemma struct_pack_eq:
  "struct_pack cs vs = (if all_fmt_fit cs vs then Inr (pack_bytes cs vs) else Inl StructError)"
  by (induction cs vs rule: struct_pack.induct) (auto simp: pack_bytes_def)

lemma unpack_pack: "all_fmt_fit cs vs \<Longrightarrow> struct_unpack cs (pack_bytes cs vs) = Inr vs"
  by (induction cs vs rule: all_fmt_fit.induct) (auto simp: pack_bytes_def of_le_le)

lemma length_pack_bytes: "length cs = length vs \<Longrightarrow> length (pack_bytes cs vs) = sum_list (map fmt_size cs)"
  by (induction cs vs rule: list_induct2) (simp_all add: pack_bytes_def)

definition word_bytes :: "int list \<Rightarrow> bytes" where
  "word_bytes ws = concat (map (le_bytes 4) ws)"

lemma length_word_bytes [simp]: "length (word_bytes ws) = 4 * length ws"
  by (induction ws) (simp_all add: word_bytes_def)

lemma pack_words_eq:
  "pack_words ws =
     (if \<forall>w \<in> set ws. \<exists>v. w = Some v \<and> fits 32 v then Inr (word_bytes (map the ws)) else Inl StructError)"
  by (induction ws rule: pack_words.induct)
    (auto simp: struct_pack_eq word_bytes_def pack_bytes_def fmt_size_def)

section \<open>The layout of the file\<close>

definition ehdr_of :: "int \<Rightarrow> int \<Rightarrow> bytes" where
  "ehdr_of entry n = e_ident @ pack_bytes ''HHIIIIIHHHHHH'' (ehdr_fields entry (84 + 4 * n + 11))"

definition phdr_of :: "int \<Rightarrow> int \<Rightarrow> bytes" where
  "phdr_of entry n = pack_bytes ''IIIIIIII'' (phdr_fields entry (4 * n))"

definition elf_image :: "int list \<Rightarrow> int \<Rightarrow> bytes" where
  "elf_image ws entry =
     (let n = int (length ws)
      in ehdr_of entry n @ phdr_of entry n @ word_bytes ws @ shstrtab_content
         @ pack_bytes ''IIIIIIIIII'' null_fields
         @ pack_bytes ''IIIIIIIIII'' (shstrtab_fields (84 + 4 * n)))"

lemma length_shstrtab [simp]: "length shstrtab_content = 11"
  by (simp add: shstrtab_content_def ascii_bytes_def)

lemmas elf_sizes = EHDR_SIZE_def PHDR_SIZE_def SHDR_SIZE_def

lemma elf_lengths [simp]:
  "length e_ident = 16" "length (ehdr_of entry n) = 52" "length (phdr_of entry n) = 32"
  "length (pack_bytes ''IIIIIIIIII'' null_fields) = 40"
  "length (pack_bytes ''IIIIIIIIII'' (shstrtab_fields k)) = 40"
  by (simp_all add: e_ident_def ascii_bytes_def ehdr_of_def phdr_of_def length_pack_bytes
      ehdr_fields_def phdr_fields_def shstrtab_fields_def null_fields_def fmt_size_def)

definition elf_fits :: "int list \<Rightarrow> int \<Rightarrow> bool" where
  "elf_fits ws entry \<longleftrightarrow> (\<forall>w \<in> set ws. fits 32 w) \<and> fits 32 entry \<and> fits 32 (84 + 4 * int (length ws) + 11)"

lemma headers_fit:
  assumes "elf_fits ws entry"
  shows "all_fmt_fit ''HHIIIIIHHHHHH'' (ehdr_fields entry (84 + 4 * int (length ws) + 11))"
    "all_fmt_fit ''IIIIIIII'' (phdr_fields entry (4 * int (length ws)))"
    "all_fmt_fit ''IIIIIIIIII'' null_fields"
    "all_fmt_fit ''IIIIIIIIII'' (shstrtab_fields (84 + 4 * int (length ws)))"
  using assms
  by (simp_all add: elf_fits_def ehdr_fields_def phdr_fields_def shstrtab_fields_def fmt_size_def
      null_fields_def fits_def elf_sizes)

lemma build_elf32_image:
  assumes "elf_fits ws entry"
  shows "build_elf32 (map Some ws) entry = Inr (elf_image ws entry)"
proof -
  have "\<forall>w \<in> set (map Some ws). \<exists>v. w = Some v \<and> fits 32 v"
    using assms by (auto simp: elf_fits_def)
  then have "pack_words (map Some ws) = Inr (word_bytes ws)"
    by (simp add: pack_words_eq comp_def)
  moreover have "EHDR_SIZE + PHDR_SIZE = 84" by (simp add: elf_sizes)
  moreover have "struct_pack ''HHIIIIIHHHHHH'' (ehdr_fields entry (84 + 4 * int (length ws) + 11))
      = Inr (drop 16 (ehdr_of entry (int (length ws))))"
    "struct_pack ''IIIIIIII'' (phdr_fields entry (4 * int (length ws))) = Inr (phdr_of entry (int (length ws)))"
    using headers_fit(1,2) [OF assms] by (simp_all add: struct_pack_eq ehdr_of_def phdr_of_def)
  moreover have "e_ident @ drop 16 (ehdr_of entry (int (length ws))) = ehdr_of entry (int (length ws))"
    by (simp add: ehdr_of_def)
  moreover have "struct_pack ''IIIIIIIIII'' null_fields = Inr (pack_bytes ''IIIIIIIIII'' null_fields)"
    "struct_pack ''IIIIIIIIII'' (shstrtab_fields (84 + 4 * int (length ws)))
      = Inr (pack_bytes ''IIIIIIIIII'' (shstrtab_fields (84 + 4 * int (length ws))))"
    using headers_fit(3,4) [OF assms] by (simp_all add: struct_pack_eq)
  ultimately show ?thesis
    by (simp add: build_elf32_def Let_def elf_image_def elf_sizes(1-3) del: struct_pack.simps)
qed

section \<open>Reading the file back\<close>

text \<open>A reader of the format, independent of the writer: a little-endian field at an offset, the entry
  point, the first program header and the bytes of its segment; then the section names.\<close>

definition field_at :: "nat \<Rightarrow> int \<Rightarrow> bytes \<Rightarrow> int" where
  "field_at k off bs = of_le_bytes (byte_slice off (off + int k) bs)"

definition elf_segment :: "bytes \<Rightarrow> int \<times> int \<times> bytes" where
  "elf_segment bs =
     (let phoff = field_at 4 28 bs; p_offset = field_at 4 (phoff + 4) bs; p_filesz = field_at 4 (phoff + 16) bs
      in (field_at 4 24 bs, field_at 4 (phoff + 8) bs, byte_slice p_offset (p_offset + p_filesz) bs))"

fun words_of_bytes :: "bytes \<Rightarrow> int list" where
  "words_of_bytes (a # b # c # d # bs) = of_le_bytes [a, b, c, d] # words_of_bytes bs"
| "words_of_bytes _ = []"

text \<open>The section header of index \<open>e_shstrndx\<close> and the name it gives itself.\<close>

definition elf_string_section :: "bytes \<Rightarrow> bytes" where
  "elf_string_section bs =
     (let sh = field_at 4 32 bs + field_at 2 50 bs * field_at 2 46 bs;
          off = field_at 4 (sh + 16) bs; size = field_at 4 (sh + 20) bs; name = field_at 4 sh bs
      in byte_slice (off + name) (off + size) bs)"

lemma byte_slice_past:
  "int (length xs) \<le> a \<Longrightarrow> a \<le> b \<Longrightarrow> byte_slice a b (xs @ ys) = byte_slice (a - int (length xs)) (b - int (length xs)) ys"
  by (simp add: byte_slice_def nat_diff_distrib)

lemma byte_slice_in:
  "0 \<le> a \<Longrightarrow> b \<le> int (length xs) \<Longrightarrow> byte_slice a b (xs @ ys) = byte_slice a b xs"
  by (auto simp: byte_slice_def)

lemma byte_slice_all: "int (length xs) = b \<Longrightarrow> byte_slice 0 b xs = xs"
  by (auto simp: byte_slice_def)

lemma pack_Nil: "pack_bytes [] [] = []"
  by (simp add: pack_bytes_def)

lemma pack_Cons: "pack_bytes (c # cs) (v # vs) = le_bytes (fmt_size c) v @ pack_bytes cs vs"
  by (simp add: pack_bytes_def)

lemma words_of_word_bytes: "\<forall>w \<in> set ws. fits 32 w \<Longrightarrow> words_of_bytes (word_bytes ws) = ws"
proof (induction ws)
  case (Cons w ws)
  have l: "le_bytes 4 w = [word_of_int w, word_of_int (drop_bit 8 w), word_of_int (drop_bit 16 w),
      word_of_int (drop_bit 24 w)]"
    by (simp add: le_bytes_def upt_rec)
  have "of_le_bytes (le_bytes 4 w) = w" using Cons.prems by (simp add: of_le_le)
  with l Cons show ?case by (simp add: word_bytes_def)
qed (simp add: word_bytes_def)

lemmas slice_layout = byte_slice_past byte_slice_in byte_slice_all

lemma header_fields:
  assumes "elf_fits ws entry"
  shows "field_at 4 24 (elf_image ws entry) = entry" "field_at 4 28 (elf_image ws entry) = 52"
    "field_at 4 32 (elf_image ws entry) = 95 + 4 * int (length ws)"
    "field_at 2 46 (elf_image ws entry) = 40" "field_at 2 50 (elf_image ws entry) = 1"
    "field_at 4 56 (elf_image ws entry) = 84" "field_at 4 60 (elf_image ws entry) = entry"
    "field_at 4 68 (elf_image ws entry) = 4 * int (length ws)"
  using assms
  by (simp_all add: field_at_def elf_image_def ehdr_of_def phdr_of_def ehdr_fields_def phdr_fields_def Let_def
      pack_Nil pack_Cons slice_layout fmt_size_def of_le_le elf_fits_def fits_def elf_sizes)

lemma image_code:
  "byte_slice 84 (84 + 4 * int (length ws)) (elf_image ws entry) = word_bytes ws"
  by (simp add: elf_image_def Let_def slice_layout)

lemma image_shstrtab:
  "byte_slice (84 + 4 * int (length ws)) (95 + 4 * int (length ws)) (elf_image ws entry) = shstrtab_content"
  by (simp add: elf_image_def Let_def slice_layout)

lemma section_fields:
  assumes "elf_fits ws entry"
  shows "field_at 4 (135 + 4 * int (length ws)) (elf_image ws entry) = 1"
    "field_at 4 (151 + 4 * int (length ws)) (elf_image ws entry) = 84 + 4 * int (length ws)"
    "field_at 4 (155 + 4 * int (length ws)) (elf_image ws entry) = 11"
  using assms
  by (simp_all add: field_at_def elf_image_def Let_def shstrtab_fields_def pack_Nil pack_Cons
      slice_layout fmt_size_def of_le_le elf_fits_def fits_def)

lemma image_magic: "take 4 (elf_image ws entry) = [0x7F] @ ascii_bytes ''ELF''"
  by (simp add: elf_image_def ehdr_of_def e_ident_def ascii_bytes_def Let_def)

lemma image_ehdr:
  "byte_slice 16 52 (elf_image ws entry)
     = pack_bytes ''HHIIIIIHHHHHH'' (ehdr_fields entry (84 + 4 * int (length ws) + 11))"
proof -
  have "length (pack_bytes ''HHIIIIIHHHHHH'' (ehdr_fields entry (84 + 4 * int (length ws) + 11))) = 36"
    by (simp add: length_pack_bytes ehdr_fields_def fmt_size_def)
  then show ?thesis by (simp add: elf_image_def ehdr_of_def Let_def slice_layout)
qed

lemma image_phdr:
  "byte_slice 52 64 (elf_image ws entry) = pack_bytes ''III'' [1, 84, entry]"
  by (simp add: elf_image_def Let_def slice_layout phdr_of_def phdr_fields_def pack_Nil pack_Cons
      fmt_size_def elf_sizes) (simp add: byte_slice_def)

lemma self_check_image:
  assumes "elf_fits ws entry"
  shows "self_check_elf (elf_image ws entry) = (if entry = ENTRY_ADDR then Inr True else Inl AssertionError)"
proof -
  have "all_fmt_fit ''III'' [1, 84, entry]"
    using assms by (simp add: fmt_size_def elf_fits_def fits_def)
  then show ?thesis
    using unpack_pack [OF headers_fit(1) [OF assms]]
    by (simp add: self_check_elf_def image_magic image_ehdr image_phdr unpack_pack ehdr_fields_def
        elf_sizes Let_def del: struct_unpack.simps)
qed

lemma build_elf32_cases:
  "build_elf32 ws entry =
     (if (\<forall>w \<in> set ws. \<exists>v. w = Some v \<and> fits 32 v) \<and> fits 32 entry \<and> fits 32 (84 + 4 * int (length ws) + 11)
      then Inr (elf_image (map the ws) entry) else Inl StructError)"
proof (cases "\<forall>w \<in> set ws. \<exists>v. w = Some v \<and> fits 32 v")
  case True
  have m: "map (Some \<circ> the) ws = ws" using True by (intro map_idI) auto
  show ?thesis
  proof (cases "fits 32 entry \<and> fits 32 (84 + 4 * int (length ws) + 11)")
    case fit: True
    have "elf_fits (map the ws) entry" using True fit by (auto simp: elf_fits_def)
    from build_elf32_image [OF this] m True fit show ?thesis by simp
  next
    case False
    then have "\<not> all_fmt_fit ''HHIIIIIHHHHHH'' (ehdr_fields entry (84 + 4 * int (length ws) + 11))"
      by (auto simp: ehdr_fields_def fmt_size_def fits_def elf_sizes)
    with True False show ?thesis
      by (simp add: build_elf32_def pack_words_eq struct_pack_eq Let_def elf_sizes del: struct_pack.simps)
  qed
next
  case False
  then show ?thesis by (auto simp: build_elf32_def pack_words_eq)
qed

section \<open>Properties\<close>

lemma elf_segment_image:
  assumes "elf_fits ws entry"
  shows "elf_segment (elf_image ws entry) = (entry, entry, word_bytes ws)"
  using header_fields [OF assms] image_code [of ws entry] by (simp add: elf_segment_def Let_def)

text \<open>C29: A reader of the ELF format finds in a file built from any list of 32-bit words the entry point,
  one segment to be loaded at that address whose bytes decode to exactly the words given, and a
  string section whose own name is .shstrtab.\<close>

theorem elf_round_trip:
  assumes "\<forall>w \<in> set ws. fits 32 w" "fits 32 entry" "fits 32 (84 + 4 * int (length ws) + 11)"
  shows "\<exists>bs code. build_elf32 (map Some ws) entry = Inr bs \<and> elf_segment bs = (entry, entry, code)
    \<and> words_of_bytes code = ws \<and> elf_string_section bs = ascii_bytes ''.shstrtab'' @ [0]"
proof -
  have f: "elf_fits ws entry" using assms by (simp add: elf_fits_def)
  have "byte_slice (85 + 4 * int (length ws)) (95 + 4 * int (length ws)) (elf_image ws entry)
      = drop 1 (byte_slice (84 + 4 * int (length ws)) (95 + 4 * int (length ws)) (elf_image ws entry))"
    by (simp add: byte_slice_def nat_add_distrib drop_take)
  then have "elf_string_section (elf_image ws entry) = ascii_bytes ''.shstrtab'' @ [0]"
    using header_fields [OF f] section_fields [OF f]
    by (simp add: elf_string_section_def Let_def image_shstrtab) (simp add: shstrtab_content_def)
  then show ?thesis
    using build_elf32_image [OF f] elf_segment_image [OF f] words_of_word_bytes assms(1) by blast
qed

lemma elf_round_trip_witness:
  "\<exists>bs code. build_elf32 (map Some [0x00000093, 0xFE000EE3]) 0x80000000 = Inr bs
    \<and> elf_segment bs = (0x80000000, 0x80000000, code)
    \<and> words_of_bytes code = [0x00000093, 0xFE000EE3] \<and> elf_string_section bs = ascii_bytes ''.shstrtab'' @ [0]"
  by (rule elf_round_trip) (simp_all add: fits_def)

text \<open>\<open>build_elf32\<close> fails exactly when a slot is empty or a word, the entry point or the section header
  offset does not fit 32 bits, always with \<open>struct.error\<close> (its own assertions never fire); otherwise
  the file has 175 bytes besides the code.\<close>

lemma build_elf32_result:
  "case build_elf32 ws entry of
     Inl e \<Rightarrow> e = StructError
       \<and> \<not> ((\<forall>w \<in> set ws. \<exists>v. w = Some v \<and> fits 32 v) \<and> fits 32 entry \<and> fits 32 (84 + 4 * int (length ws) + 11))
   | Inr bs \<Rightarrow> (\<forall>w \<in> set ws. \<exists>v. w = Some v \<and> fits 32 v) \<and> fits 32 entry
       \<and> length bs = 4 * length ws + 175"
  by (simp add: build_elf32_cases elf_image_def Let_def)

lemma build_elf32_result_witness:
  "case build_elf32 [Some 0x13, None] 0 of
     Inl e \<Rightarrow> e = StructError
       \<and> \<not> ((\<forall>w \<in> set [Some 0x13, None]. \<exists>v. w = Some v \<and> fits 32 v) \<and> fits 32 0
          \<and> fits 32 (84 + 4 * int (length [Some 0x13 :: int option, None]) + 11))
   | Inr bs \<Rightarrow> (\<forall>w \<in> set [Some 0x13, None]. \<exists>v. w = Some v \<and> fits 32 v) \<and> fits 32 0
       \<and> length bs = 4 * length [Some 0x13 :: int option, None] + 175"
  by (rule build_elf32_result)

text \<open>C36: \<open>self_check_elf\<close> accepts every file \<open>build_elf32\<close> writes for the entry point 0x80000000, and
  refuses every file written for another one, by its assertion on \<open>p_vaddr\<close>.\<close>

theorem self_check_built:
  assumes "build_elf32 ws entry = Inr bs"
  shows "self_check_elf bs = (if entry = 0x80000000 then Inr True else Inl AssertionError)"
proof -
  have c: "(\<forall>w \<in> set ws. \<exists>v. w = Some v \<and> fits 32 v)" "fits 32 entry"
    "fits 32 (84 + 4 * int (length ws) + 11)" "bs = elf_image (map the ws) entry"
    using assms by (simp_all add: build_elf32_cases split: if_splits)
  then have "elf_fits (map the ws) entry" by (auto simp: elf_fits_def)
  from self_check_image [OF this] c(4) show ?thesis by (simp add: ENTRY_ADDR_def)
qed

lemma self_check_built_witness:
  "self_check_elf (elf_image [0x13] 0x1000) = Inl AssertionError"
proof -
  have "build_elf32 [Some 0x13] 0x1000 = Inr (elf_image [0x13] 0x1000)"
    by (simp add: build_elf32_cases fits_def)
  from self_check_built [OF this] show ?thesis by simp
qed

end
