(* ===== verification/Py_Text.thy ===== *)
theory Py_Text
  imports Prelude
begin

text \<open>
  Text as the Python scripts handle it: characters (code points below 256, which is what HOL's \<open>char\<close>
  holds), white space as \<open>str.isspace\<close> and \<open>\s\<close> see it, \<open>strip\<close>, \<open>rstrip\<close>, universal newlines when a
  file is read, \<open>str.splitlines\<close>, and the printing and reading of decimal and hexadecimal numbers.
\<close>

abbreviation code_of :: "char \<Rightarrow> nat" where
  "code_of c \<equiv> of_char c"

definition LF :: char where "LF = CHR 0x0A"
definition CR :: char where "CR = CHR 0x0D"

definition is_space :: "char \<Rightarrow> bool" where
  "is_space c = (let n = code_of c in
     9 \<le> n \<and> n \<le> 13 \<or> 28 \<le> n \<and> n \<le> 32 \<or> n = 133 \<or> n = 160)"

definition is_digit :: "char \<Rightarrow> bool" where
  "is_digit c = (48 \<le> code_of c \<and> code_of c \<le> 57)"

definition is_hex :: "char \<Rightarrow> bool" where
  "is_hex c = (is_digit c \<or> 97 \<le> code_of c \<and> code_of c \<le> 102 \<or> 65 \<le> code_of c \<and> code_of c \<le> 70)"

definition lstrip :: "string \<Rightarrow> string" where
  "lstrip s = dropWhile is_space s"

definition strip :: "string \<Rightarrow> string" where
  "strip s = rev (dropWhile is_space (rev (lstrip s)))"

definition rstrip_LF :: "string \<Rightarrow> string" where
  "rstrip_LF s = rev (dropWhile (\<lambda>c. c = LF) (rev s))"

fun startswith :: "string \<Rightarrow> string \<Rightarrow> bool" where
  "startswith s [] = True"
| "startswith [] (p # ps) = False"
| "startswith (c # s) (p # ps) = (c = p \<and> startswith s ps)"

section \<open>Lines\<close>

text \<open>
  Iterating over a file opened in text mode: lines end at LF, CR or CR LF, and the line handed to
  the loop keeps one LF if its end was there. \<open>splitlines\<close> has more line ends and keeps none.
\<close>

fun universal_newlines :: "string \<Rightarrow> string" where
  "universal_newlines [] = []"
| "universal_newlines (c # s) =
     (if c = CR then
        (case s of d # s' \<Rightarrow> if d = LF then LF # universal_newlines s' else LF # universal_newlines s
         | [] \<Rightarrow> [LF])
      else c # universal_newlines s)"

fun split_at :: "(char \<Rightarrow> bool) \<Rightarrow> string \<Rightarrow> string list" where
  "split_at e [] = []"
| "split_at e (c # s) =
     (if e c then [] # split_at e s
      else (case split_at e s of [] \<Rightarrow> [[c]] | l # ls \<Rightarrow> (c # l) # ls))"

fun keep_ends :: "string \<Rightarrow> string list" where
  "keep_ends [] = []"
| "keep_ends (c # s) =
     (if c = LF then [c] # keep_ends s
      else (case keep_ends s of [] \<Rightarrow> [[c]] | l # ls \<Rightarrow> (c # l) # ls))"

definition file_lines :: "string \<Rightarrow> string list" where
  "file_lines s = keep_ends (universal_newlines s)"

definition is_line_end :: "char \<Rightarrow> bool" where
  "is_line_end c = (let n = code_of c in 10 \<le> n \<and> n \<le> 13 \<or> 28 \<le> n \<and> n \<le> 30 \<or> n = 133)"

definition splitlines :: "string \<Rightarrow> string list" where
  "splitlines s = split_at is_line_end (universal_newlines s)"

text \<open>\<open>enumerate(f, 1)\<close>.\<close>

definition numbered :: "string list \<Rightarrow> (nat \<times> string) list" where
  "numbered ls = zip [1 ..< length ls + 1] ls"

section \<open>Numbers\<close>

definition digit_char :: "nat \<Rightarrow> char" where
  "digit_char d = char_of (if d < 10 then 48 + d else 87 + d)"

definition digit_value :: "char \<Rightarrow> nat" where
  "digit_value c =
     (let n = code_of c in if n \<le> 57 then n - 48 else if n \<le> 70 then n - 55 else n - 87)"

text \<open>The digits of a number, most significant first; zero has one digit.\<close>

fun digits :: "nat \<Rightarrow> nat \<Rightarrow> string" where
  "digits b n = (if b < 2 \<or> n < b then [digit_char n] else digits b (n div b) @ [digit_char (n mod b)])"

declare digits.simps [simp del]

definition parse_digits :: "nat \<Rightarrow> string \<Rightarrow> nat" where
  "parse_digits b s = foldl (\<lambda>a c. a * b + digit_value c) 0 s"

definition zero_pad :: "nat \<Rightarrow> string \<Rightarrow> string" where
  "zero_pad k s = replicate (k - length s) (CHR ''0'') @ s"

text \<open>\<open>f"{n}"\<close>, \<open>f"{n:x}"\<close> and \<open>f"{n:08x}"\<close> for a natural number.\<close>

definition dec :: "nat \<Rightarrow> string" where "dec n = digits 10 n"
definition hex :: "nat \<Rightarrow> string" where "hex n = digits 16 n"
definition hex_pad :: "nat \<Rightarrow> nat \<Rightarrow> string" where "hex_pad k n = zero_pad k (hex n)"

section \<open>Reading back what was printed\<close>

lemma digit_char_simps:
  assumes "d < 16"
  shows "digit_value (digit_char d) = d" "is_hex (digit_char d)" "d < 10 \<Longrightarrow> is_digit (digit_char d)"
proof -
  have "code_of (digit_char d) = (if d < 10 then 48 + d else 87 + d)"
    using assms by (simp add: digit_char_def)
  then show "digit_value (digit_char d) = d" "is_hex (digit_char d)" "d < 10 \<Longrightarrow> is_digit (digit_char d)"
    using assms by (simp_all add: digit_value_def is_hex_def is_digit_def)
qed

lemma parse_digits_snoc: "parse_digits b (s @ [c]) = parse_digits b s * b + digit_value c"
  by (simp add: parse_digits_def)

lemma parse_digits_digits:
  "2 \<le> b \<Longrightarrow> b \<le> 16 \<Longrightarrow> parse_digits b (digits b n) = n"
proof (induction n rule: less_induct)
  case (less n)
  show ?case
  proof (cases "n < b")
    case True
    with less.prems show ?thesis by (simp add: digits.simps parse_digits_def digit_char_simps)
  next
    case False
    then have "n div b < n" "n mod b < 16" using less.prems
      by (simp_all add: order_less_le_trans [of "n mod b" b])
    with less False show ?thesis
      by (subst digits.simps) (simp add: parse_digits_snoc digit_char_simps)
  qed
qed

lemma digits_chars:
  assumes "2 \<le> b" "b \<le> 16" "c \<in> set (digits b n)"
  shows "\<exists>d < b. c = digit_char d"
  using assms
proof (induction n rule: less_induct)
  case (less n)
  show ?case
  proof (cases "n < b")
    case True
    with less.prems show ?thesis by (auto simp: digits.simps)
  next
    case False
    then have n: "n div b < n" "n mod b < b" using less.prems by simp_all
    from less.prems(3) False less.prems(1) have "c \<in> set (digits b (n div b)) \<or> c = digit_char (n mod b)"
      by (subst (asm) digits.simps) auto
    with less.IH [OF n(1)] less.prems(1,2) n(2) show ?thesis by blast
  qed
qed

lemma digits_nonempty [simp]: "digits b n \<noteq> []"
  by (subst digits.simps) simp

lemma parse_zero_pad [simp]: "parse_digits b (zero_pad k s) = parse_digits b s"
proof -
  have "foldl (\<lambda>a c. a * b + digit_value c) 0 (replicate m (CHR ''0'')) = 0" for m
    by (induction m) (simp_all add: digit_value_def)
  then show ?thesis by (simp add: zero_pad_def parse_digits_def)
qed

lemma parse_hex [simp]: "parse_digits 16 (hex n) = n" "parse_digits 16 (hex_pad k n) = n"
  by (simp_all add: hex_def hex_pad_def parse_digits_digits)

lemma parse_dec [simp]: "parse_digits 10 (dec n) = n"
  by (simp add: dec_def parse_digits_digits)

lemma hex_chars: "c \<in> set (hex n) \<Longrightarrow> is_hex c" "c \<in> set (hex_pad k n) \<Longrightarrow> is_hex c"
proof -
  show h: "c \<in> set (hex n) \<Longrightarrow> is_hex c" for c
    using digits_chars [of 16 c n] digit_char_simps(2) by (auto simp: hex_def)
  have "is_hex (CHR ''0'')" by (simp add: is_hex_def is_digit_def)
  with h show "c \<in> set (hex_pad k n) \<Longrightarrow> is_hex c"
    by (auto simp: hex_pad_def zero_pad_def split: if_splits)
qed

lemma dec_chars: "c \<in> set (dec n) \<Longrightarrow> is_digit c"
  using digits_chars [of 10 c n] by (auto simp: dec_def digit_char_simps)

lemma printed_nonempty [simp]: "hex n \<noteq> []" "dec n \<noteq> []" "hex_pad k n \<noteq> []"
  by (simp_all add: hex_def dec_def hex_pad_def zero_pad_def)

lemma length_digits: "2 \<le> b \<Longrightarrow> 0 < k \<Longrightarrow> n < b ^ k \<Longrightarrow> length (digits b n) \<le> k"
proof (induction k arbitrary: n)
  case (Suc k)
  show ?case
  proof (cases "n < b")
    case True
    then show ?thesis by (simp add: digits.simps)
  next
    case False
    then have "k \<noteq> 0" using Suc.prems by (cases k) auto
    moreover have "n div b < b ^ k" using Suc.prems by (simp add: less_mult_imp_div_less mult.commute)
    ultimately show ?thesis using Suc.IH Suc.prems(1) False by (subst digits.simps) simp
  qed
qed simp

lemma length_hex_pad: "n < 16 ^ k \<Longrightarrow> 0 < k \<Longrightarrow> length (hex_pad k n) = k"
  using length_digits [of 16 k n] by (simp add: hex_pad_def hex_def zero_pad_def)

section \<open>Lines of printed text\<close>

definition unlines :: "string list \<Rightarrow> string" where
  "unlines ls = concat (map (\<lambda>l. l @ [LF]) ls)"

lemma universal_newlines_id: "CR \<notin> set s \<Longrightarrow> universal_newlines s = s"
  by (induction s rule: universal_newlines.induct) auto

lemma split_at_line:
  "\<forall>c \<in> set l. \<not> e c \<Longrightarrow> e d \<Longrightarrow> split_at e (l @ d # s) = l # split_at e s"
  by (induction l) auto

lemma split_at_unlines:
  "\<forall>l \<in> set ls. \<forall>c \<in> set l. \<not> e c \<Longrightarrow> e LF \<Longrightarrow> split_at e (unlines ls) = ls"
  by (induction ls) (simp_all add: unlines_def split_at_line)

lemma unlines_simps [simp]: "unlines [] = []" "unlines (l # ls) = l @ LF # unlines ls"
  "unlines (ls @ ms) = unlines ls @ unlines ms"
  by (simp_all add: unlines_def)

lemma keep_ends_line: "LF \<notin> set l \<Longrightarrow> keep_ends (l @ LF # s) = (l @ [LF]) # keep_ends s"
  by (induction l) auto

lemma file_lines_unlines:
  assumes "\<forall>l \<in> set ls. CR \<notin> set l \<and> LF \<notin> set l"
  shows "file_lines (unlines ls) = map (\<lambda>l. l @ [LF]) ls"
proof -
  have "CR \<notin> set (unlines ls)" using assms by (induction ls) (auto simp: CR_def LF_def)
  moreover have "keep_ends (unlines ls) = map (\<lambda>l. l @ [LF]) ls"
    using assms by (induction ls) (simp_all add: keep_ends_line)
  ultimately show ?thesis by (simp add: file_lines_def universal_newlines_id)
qed

lemma strip_id:
  assumes "s \<noteq> []" "\<not> is_space (hd s)" "\<not> is_space (last s)"
  shows "strip s = s"
proof -
  have "lstrip s = s" using assms by (cases s) (simp_all add: lstrip_def)
  moreover have "dropWhile is_space (rev s) = rev s"
    using assms by (cases s rule: rev_cases) simp_all
  ultimately show ?thesis by (simp add: strip_def)
qed

lemma rstrip_LF_line:
  assumes "LF \<notin> set s"
  shows "rstrip_LF (s @ [LF]) = s"
proof -
  have "dropWhile (\<lambda>c. c = LF) (rev s) = rev s"
    using assms by (cases s rule: rev_cases) auto
  then show ?thesis by (simp add: rstrip_LF_def)
qed

end
