(* ===== verification/Cpp_Sim.thy ===== *)
theory Cpp_Sim
  imports Prelude "HOL-Library.Monad_Syntax"
begin

text \<open>
  The single-cycle RV32I simulator \<open>src/main.cpp\<close>: register file, byte memory of 4096 bytes shared
  by code and data, decode-and-execute, and the main loop. A \<open>uint32_t\<close> and an \<open>int32_t\<close> are both a
  \<open>32 word\<close> (the cast between them keeps the bits); signed comparisons and shifts are \<open><s\<close> and
  \<open>signed_drop_bit\<close>. An access outside \<open>memory[4096]\<close> is undefined behaviour in C++ and is the
  outcome \<open>None\<close> of the model. Console messages are collected in the field \<open>out\<close>.
\<close>

type_synonym u32w = "32 word"

datatype cpp_msg =
    UnknownIType u32w
  | UnknownRType u32w
  | UnknownStore u32w
  | UnknownBType u32w
  | OutOfBounds u32w
  | UnknownLoad u32w
  | EcallExit
  | UnknownOpcode u32w

record cpu =
  registers :: "nat \<Rightarrow> u32w"
  pc :: u32w
  memory :: "nat \<Rightarrow> 8 word"
  out :: "cpp_msg list"

definition init_cpu :: cpu where
  "init_cpu = \<lparr>registers = (\<lambda>_. 0), pc = 0, memory = (\<lambda>_. 0), out = []\<rparr>"

definition say :: "cpp_msg \<Rightarrow> cpu \<Rightarrow> cpu" where
  "say m c = c\<lparr>out := out c @ [m]\<rparr>"

definition write_reg :: "u32w \<Rightarrow> u32w \<Rightarrow> cpu \<Rightarrow> cpu" where
  "write_reg reg_num value c =
     (if reg_num = 0 then c
      else if reg_num < 32 then c\<lparr>registers := (registers c)(unat reg_num := value)\<rparr>
      else c)"

definition reg :: "cpu \<Rightarrow> u32w \<Rightarrow> u32w" where
  "reg c r = registers c (unat r)"

text \<open>Array accesses with C++'s bound made explicit.\<close>

definition mem_get :: "cpu \<Rightarrow> u32w \<Rightarrow> 8 word option" where
  "mem_get c a = (if a < 4096 then Some (memory c (unat a)) else None)"

definition mem_set :: "u32w \<Rightarrow> 8 word \<Rightarrow> cpu \<Rightarrow> cpu option" where
  "mem_set a v c =
     (if a < 4096 then Some (c\<lparr>memory := (memory c)(unat a := v)\<rparr>) else None)"

definition fetch_instruction :: "cpu \<Rightarrow> u32w \<Rightarrow> u32w option" where
  "fetch_instruction c address =
     do {
       b0 \<leftarrow> mem_get c address;
       b1 \<leftarrow> mem_get c (address + 1);
       b2 \<leftarrow> mem_get c (address + 2);
       b3 \<leftarrow> mem_get c (address + 3);
       Some (ucast b0 OR push_bit 8 (ucast b1) OR push_bit 16 (ucast b2) OR push_bit 24 (ucast b3))
     }"

text \<open>Byte \<open>k\<close> of a word, \<open>(value >> 8*k) & 0xFF\<close>.\<close>

definition byte_of :: "nat \<Rightarrow> u32w \<Rightarrow> 8 word" where
  "byte_of k v = ucast (drop_bit (8 * k) v AND 0xFF)"

definition put_word :: "u32w \<Rightarrow> u32w \<Rightarrow> cpu \<Rightarrow> cpu option" where
  "put_word address value c =
     do {
       c1 \<leftarrow> mem_set address (byte_of 0 value) c;
       c2 \<leftarrow> mem_set (address + 1) (byte_of 1 value) c1;
       c3 \<leftarrow> mem_set (address + 2) (byte_of 2 value) c2;
       mem_set (address + 3) (byte_of 3 value) c3
     }"

definition store_word :: "u32w \<Rightarrow> u32w \<Rightarrow> cpu \<Rightarrow> cpu option" where
  "store_word address value c =
     (if address + 3 \<ge> 4096 then Some c else put_word address value c)"

definition execute_alu :: "u32w \<Rightarrow> u32w \<Rightarrow> string \<Rightarrow> u32w" where
  "execute_alu op1 op2 operation =
     (if operation = ''ADD'' then op1 + op2
      else if operation = ''SUB'' then op1 - op2
      else if operation = ''AND'' then op1 AND op2
      else if operation = ''OR'' then op1 OR op2
      else if operation = ''XOR'' then op1 XOR op2
      else if operation = ''SLT'' then (if op1 <s op2 then 1 else 0)
      else if operation = ''SLTU'' then (if op1 < op2 then 1 else 0)
      else if operation = ''SLL'' then push_bit (unat op2) op1
      else if operation = ''SRL'' then drop_bit (unat op2) op1
      else if operation = ''SRA'' then signed_drop_bit (unat op2) op1
      else 0)"

definition sign_extend_12 :: "u32w \<Rightarrow> u32w" where
  "sign_extend_12 imm = (if imm AND 0x800 \<noteq> 0 then imm OR 0xFFFFF000 else imm)"

definition decode_B_imm :: "u32w \<Rightarrow> u32w" where
  "decode_B_imm instr =
     (let imm = push_bit 12 (drop_bit 31 instr) OR push_bit 11 (drop_bit 7 instr AND 0x1)
                OR push_bit 5 (drop_bit 25 instr AND 0x3F) OR push_bit 1 (drop_bit 8 instr AND 0xF)
      in if imm AND 0x1000 \<noteq> 0 then imm OR 0xFFFFE000 else imm)"

definition decode_J_imm :: "u32w \<Rightarrow> u32w" where
  "decode_J_imm instr =
     (let imm = push_bit 20 (drop_bit 31 instr) OR push_bit 1 (drop_bit 21 instr AND 0x3FF)
                OR push_bit 11 (drop_bit 20 instr AND 0x1) OR push_bit 12 (drop_bit 12 instr AND 0xFF)
      in if imm AND 0x100000 \<noteq> 0 then imm OR 0xFFE00000 else imm)"

definition decode_S_imm :: "u32w \<Rightarrow> u32w" where
  "decode_S_imm instr =
     (let imm = push_bit 5 (drop_bit 25 instr AND 0x7F) OR push_bit 0 (drop_bit 7 instr AND 0x1F)
      in if imm AND 0x800 \<noteq> 0 then imm OR 0xFFFFF000 else imm)"

section \<open>decode and execute\<close>

text \<open>The fields of an instruction word, lines 158-163.\<close>

definition f_opcode :: "u32w \<Rightarrow> u32w" where "f_opcode instr = instr AND 0x7F"
definition f_rd :: "u32w \<Rightarrow> u32w" where "f_rd instr = drop_bit 7 instr AND 0x1F"
definition f_funct3 :: "u32w \<Rightarrow> u32w" where "f_funct3 instr = drop_bit 12 instr AND 0x7"
definition f_rs1 :: "u32w \<Rightarrow> u32w" where "f_rs1 instr = drop_bit 15 instr AND 0x1F"
definition f_rs2 :: "u32w \<Rightarrow> u32w" where "f_rs2 instr = drop_bit 20 instr AND 0x1F"
definition f_funct7 :: "u32w \<Rightarrow> u32w" where "f_funct7 instr = drop_bit 25 instr AND 0x7F"

definition exec_imm :: "u32w \<Rightarrow> cpu \<Rightarrow> cpu" where
  "exec_imm instr c =
     (let rd = f_rd instr; funct3 = f_funct3 instr; a = reg c (f_rs1 instr);
          imm = sign_extend_12 (drop_bit 20 instr); shamt = f_rs2 instr
      in if funct3 = 0x0 then write_reg rd (execute_alu a imm ''ADD'') c
         else if funct3 = 0x1 then write_reg rd (execute_alu a shamt ''SLL'') c
         else if funct3 = 0x2 then write_reg rd (execute_alu a imm ''SLT'') c
         else if funct3 = 0x3 then write_reg rd (execute_alu a imm ''SLTU'') c
         else if funct3 = 0x4 then write_reg rd (execute_alu a imm ''XOR'') c
         else if funct3 = 0x5 then
           (let is_SRAI = drop_bit 30 instr AND 0x1
            in if is_SRAI \<noteq> 0 then write_reg rd (execute_alu a shamt ''SRA'') c
               else write_reg rd (execute_alu a shamt ''SRL'') c)
         else if funct3 = 0x6 then write_reg rd (execute_alu a imm ''OR'') c
         else if funct3 = 0x7 then write_reg rd (execute_alu a imm ''AND'') c
         else say (UnknownIType funct3) c)"

definition exec_reg :: "u32w \<Rightarrow> cpu \<Rightarrow> cpu" where
  "exec_reg instr c =
     (let rd = f_rd instr; funct3 = f_funct3 instr; funct7 = f_funct7 instr;
          a = reg c (f_rs1 instr); b = reg c (f_rs2 instr)
      in if funct3 = 0x0 then
           (if funct7 = 0x20 then write_reg rd (execute_alu a b ''SUB'') c
            else write_reg rd (execute_alu a b ''ADD'') c)
         else if funct3 = 0x1 then write_reg rd (execute_alu a (b AND 0x1F) ''SLL'') c
         else if funct3 = 0x2 then write_reg rd (execute_alu a b ''SLT'') c
         else if funct3 = 0x3 then write_reg rd (execute_alu a b ''SLTU'') c
         else if funct3 = 0x4 then write_reg rd (execute_alu a b ''XOR'') c
         else if funct3 = 0x5 then
           (if funct7 = 0x20 then write_reg rd (execute_alu a (b AND 0x1F) ''SRA'') c
            else write_reg rd (execute_alu a (b AND 0x1F) ''SRL'') c)
         else if funct3 = 0x6 then write_reg rd (execute_alu a b ''OR'') c
         else if funct3 = 0x7 then write_reg rd (execute_alu a b ''AND'') c
         else say (UnknownRType funct3) c)"

definition exec_store :: "u32w \<Rightarrow> cpu \<Rightarrow> cpu option" where
  "exec_store instr c =
     (let funct3 = f_funct3 instr; imm = decode_S_imm instr;
          address = reg c (f_rs1 instr) + imm; value = reg c (f_rs2 instr)
      in if funct3 = 0x0 then mem_set address (byte_of 0 value) c
         else if funct3 = 0x1 then
           do { c1 \<leftarrow> mem_set address (byte_of 0 value) c;
                mem_set (address + 1) (byte_of 1 value) c1 }
         else if funct3 = 0x2 then put_word address value c
         else Some (say (UnknownStore funct3) c))"

definition exec_branch :: "u32w \<Rightarrow> cpu \<Rightarrow> cpu" where
  "exec_branch instr c =
     (let funct3 = f_funct3 instr; imm = decode_B_imm instr;
          a = reg c (f_rs1 instr); b = reg c (f_rs2 instr);
          goto = (\<lambda>take_branch. if take_branch then c\<lparr>pc := pc c + imm - 4\<rparr> else c)
      in if funct3 = 0x0 then goto (a = b)
         else if funct3 = 0x1 then goto (a \<noteq> b)
         else if funct3 = 0x4 then goto (a <s b)
         else if funct3 = 0x5 then goto (b \<le>s a)
         else if funct3 = 0x6 then goto (a < b)
         else if funct3 = 0x7 then goto (b \<le> a)
         else say (UnknownBType funct3) c)"

definition exec_load :: "u32w \<Rightarrow> cpu \<Rightarrow> cpu option" where
  "exec_load instr c =
     (let rd = f_rd instr; funct3 = f_funct3 instr; imm = sign_extend_12 (drop_bit 20 instr);
          address = reg c (f_rs1 instr) + imm
      in if address + 3 \<ge> 4096 then Some (say (OutOfBounds address) c)
         else if funct3 = 0x0 then
           do { b0 \<leftarrow> mem_get c address; Some (write_reg rd (scast b0) c) }
         else if funct3 = 0x1 then
           do { b0 \<leftarrow> mem_get c address; b1 \<leftarrow> mem_get c (address + 1);
                Some (write_reg rd (scast (ucast b0 OR push_bit 8 (ucast b1) :: 16 word)) c) }
         else if funct3 = 0x2 then
           do { b0 \<leftarrow> mem_get c address; b1 \<leftarrow> mem_get c (address + 1);
                b2 \<leftarrow> mem_get c (address + 2); b3 \<leftarrow> mem_get c (address + 3);
                Some (write_reg rd (ucast b0 OR push_bit 8 (ucast b1) OR push_bit 16 (ucast b2)
                                    OR push_bit 24 (ucast b3)) c) }
         else if funct3 = 0x4 then
           do { b0 \<leftarrow> mem_get c address; Some (write_reg rd (ucast b0) c) }
         else if funct3 = 0x5 then
           do { b0 \<leftarrow> mem_get c address; b1 \<leftarrow> mem_get c (address + 1);
                Some (write_reg rd (ucast b0 OR push_bit 8 (ucast b1)) c) }
         else Some (say (UnknownLoad funct3) c))"

definition exec_jalr :: "u32w \<Rightarrow> cpu \<Rightarrow> cpu" where
  "exec_jalr instr c =
     (let imm = sign_extend_12 (drop_bit 20 instr);
          target_address = (reg c (f_rs1 instr) + imm) AND NOT 1;
          c1 = write_reg (f_rd instr) (pc c + 4) c
      in c1\<lparr>pc := target_address - 4\<rparr>)"

definition exec_jal :: "u32w \<Rightarrow> cpu \<Rightarrow> cpu" where
  "exec_jal instr c =
     (let imm = decode_J_imm instr;
          c1 = write_reg (f_rd instr) (pc c + 4) c
      in c1\<lparr>pc := pc c1 + imm - 4\<rparr>)"

definition exec_system :: "cpu \<Rightarrow> cpu" where
  "exec_system c = (if registers c 17 = 10 then (say EcallExit c)\<lparr>pc := 4096\<rparr> else c)"

definition decode_and_execute :: "u32w \<Rightarrow> cpu \<Rightarrow> cpu option" where
  "decode_and_execute instr c =
     (let opcode = f_opcode instr
      in if opcode = 0x13 then Some (exec_imm instr c)
         else if opcode = 0x33 then Some (exec_reg instr c)
         else if opcode = 0x23 then exec_store instr c
         else if opcode = 0x63 then Some (exec_branch instr c)
         else if opcode = 0x03 then exec_load instr c
         else if opcode = 0x67 then Some (exec_jalr instr c)
         else if opcode = 0x37 then Some (write_reg (f_rd instr) (instr AND 0xFFFFF000) c)
         else if opcode = 0x17 then
           Some (write_reg (f_rd instr) (pc c + (instr AND 0xFFFFF000)) c)
         else if opcode = 0x6F then Some (exec_jal instr c)
         else if opcode = 0x0F then Some c
         else if opcode = 0x73 then Some (exec_system c)
         else Some (say (UnknownOpcode opcode) c))"

section \<open>The main loop\<close>

text \<open>One turn of \<open>while (pc < 4096)\<close>: the loop ends, runs into undefined behaviour, or goes on.\<close>

datatype turn = Stop | Undefined | Go cpu

definition sim_step :: "cpu \<Rightarrow> turn" where
  "sim_step c =
     (if pc c < 4096 then
        (case fetch_instruction c (pc c) of
           None \<Rightarrow> Undefined
         | Some instr \<Rightarrow>
             if instr = 0 then Stop
             else (case decode_and_execute instr c of
                     None \<Rightarrow> Undefined
                   | Some c' \<Rightarrow> Go (c'\<lparr>pc := pc c' + 4\<rparr>)))
      else Stop)"

text \<open>
  \<open>run_sim fuel\<close> runs at most \<open>fuel\<close> turns: the final state when the loop has ended, or the state
  reached when the fuel is used up (the generated programs end in an endless self-branch, on which
  the C++ loop never ends).
\<close>

datatype outcome = Ended cpu | Crashed | Running cpu

fun run_sim :: "nat \<Rightarrow> cpu \<Rightarrow> outcome" where
  "run_sim 0 c = Running c"
| "run_sim (Suc fuel) c =
     (case sim_step c of Stop \<Rightarrow> Ended c | Undefined \<Rightarrow> Crashed | Go c' \<Rightarrow> run_sim fuel c')"

text \<open>The loader's loop over the words of \<open>program.hex\<close> (line 410).\<close>

fun load_words :: "u32w \<Rightarrow> u32w list \<Rightarrow> cpu \<Rightarrow> cpu option" where
  "load_words current_pc [] c = Some c"
| "load_words current_pc (instr # ws) c =
     do { c1 \<leftarrow> store_word current_pc instr c; load_words (current_pc + 4) ws c1 }"

end
