(* ===== verification/Gen_Main.thy ===== *)
theory Gen_Main
  imports Generator Elf_Writer Py_Text Cpp_Sim
begin

text \<open>
  \<open>main()\<close> of \<open>shared/spike/gen_program.py\<close> (lines 557-574): the text of \<open>program.hex\<close>, the bytes of
  \<open>program.elf\<close>, and the C++ loader \<open>load_from_file\<close> of \<open>src/main.cpp\<close> that reads \<open>program.hex\<close>.
\<close>

section \<open>The files main writes\<close>

text \<open>\<open>f"{w:08x}"\<close>; formatting \<open>None\<close> raises a TypeError.\<close>

fun format_08x :: "int option \<Rightarrow> string py" where
  "format_08x None = Inl TypeError"
| "format_08x (Some w) =
     Inr (if w < 0 then CHR ''-'' # zero_pad 7 (hex (nat (- w))) else hex_pad 8 (nat w))"

fun hex_file :: "int option list \<Rightarrow> string py" where
  "hex_file [] = Inr []"
| "hex_file (w # ws) =
     bind_py (format_08x w) (\<lambda>l. bind_py (hex_file ws) (\<lambda>r. Inr (l @ [LF] @ r)))"

text \<open>
  The command line arguments are \<open>None\<close> when they are missing. \<open>random.Random(seed)\<close> is the parameter
  \<open>seeded\<close>: the outputs the Mersenne Twister produces from a seed (\<open>random_Random\<close> computes them). The result is the contents of both
  files and the number the last message prints.
\<close>

definition main :: "(int \<Rightarrow> rng) \<Rightarrow> int option \<Rightarrow> int option \<Rightarrow> (string \<times> bytes \<times> int) py" where
  "main seeded arg1 arg2 =
     (let seed = (case arg1 of Some s \<Rightarrow> s | None \<Rightarrow> 42);
          n = (case arg2 of Some k \<Rightarrow> k | None \<Rightarrow> 60)
      in bind_py (fst (build_full_program n (seeded seed))) (\<lambda>(program, expected_retire).
         bind_py (hex_file program) (\<lambda>program_hex.
         bind_py (build_elf32 program ENTRY_ADDR) (\<lambda>elf_bytes.
         bind_py (self_check_elf elf_bytes) (\<lambda>_.
         Inr (program_hex, elf_bytes, expected_retire))))))"

section \<open>The C++ loader\<close>

definition c_isspace :: "char \<Rightarrow> bool" where
  "c_isspace c = (let n = code_of c in 9 \<le> n \<and> n \<le> 13 \<or> n = 32)"

text \<open>
  \<open>std::stoul(line, nullptr, 16)\<close> with a 64-bit \<open>unsigned long\<close>; \<open>None\<close> when it throws. A prefix 0x is
  skipped when a digit follows.
\<close>

fun skip_0x :: "string \<Rightarrow> string" where
  "skip_0x (z # x # h # r) =
     (if z = CHR ''0'' \<and> (x = CHR ''x'' \<or> x = CHR ''X'') \<and> is_hex h then h # r else z # x # h # r)"
| "skip_0x s = s"

definition stoul16 :: "string \<Rightarrow> nat option" where
  "stoul16 s =
     (let s1 = dropWhile c_isspace s;
          neg = (s1 \<noteq> [] \<and> hd s1 = CHR ''-'');
          s2 = (if s1 \<noteq> [] \<and> (hd s1 = CHR ''-'' \<or> hd s1 = CHR ''+'') then tl s1 else s1);
          ds = takeWhile is_hex (skip_0x s2);
          v = parse_digits 16 ds
      in if ds = [] \<or> 2 ^ 64 \<le> v then None
         else Some (if neg then (2 ^ 64 - v) mod 2 ^ 64 else v))"

text \<open>
  The loop over the lines with \<open>current_pc\<close>; the second result counts the lines reported as bad.
  \<open>None\<close> is undefined behaviour, which \<open>store_word\<close> could only reach if \<open>current_pc\<close> wrapped around.
\<close>

fun load_lines :: "u32w \<Rightarrow> string list \<Rightarrow> cpu \<Rightarrow> (cpu \<times> u32w \<times> nat) option" where
  "load_lines current_pc [] c = Some (c, current_pc, 0)"
| "load_lines current_pc (line # ls) c =
     (if line = [] then load_lines current_pc ls c
      else (case stoul16 line of
              Some v \<Rightarrow>
                do { c1 \<leftarrow> store_word current_pc (of_nat v) c; load_lines (current_pc + 4) ls c1 }
            | None \<Rightarrow> map_option (\<lambda>(c, p, bad). (c, p, Suc bad)) (load_lines current_pc ls c)))"

definition load_from_file :: "string \<Rightarrow> cpu \<Rightarrow> (cpu \<times> u32w \<times> nat) option" where
  "load_from_file text c = load_lines 0 (split_at (\<lambda>c. c = LF) text) c"

section \<open>Writing and loading\<close>

lemma hex_file_eq:
  "\<forall>w \<in> set ws. fits 32 w \<Longrightarrow> hex_file (map Some ws) = Inr (unlines (map (\<lambda>w. hex_pad 8 (nat w)) ws))"
  by (induction ws) (auto simp: fits_def)

lemma is_hex_codes: "is_hex c \<Longrightarrow> \<not> c_isspace c \<and> c \<noteq> CHR ''-'' \<and> c \<noteq> CHR ''+'' \<and> c \<noteq> CHR ''x'' \<and> c \<noteq> CHR ''X''
    \<and> c \<noteq> LF \<and> c \<noteq> CR"
  by (auto simp: is_hex_def is_digit_def c_isspace_def Let_def LF_def CR_def)

lemma stoul16_hex:
  assumes "s \<noteq> []" "\<forall>c \<in> set s. is_hex c" "parse_digits 16 s < 2 ^ 64"
  shows "stoul16 s = Some (parse_digits 16 s)"
proof -
  obtain c r where s: "s = c # r" using assms(1) by (cases s) auto
  have c: "\<not> c_isspace c" "c \<noteq> CHR ''-''" "c \<noteq> CHR ''+''" using assms(2) s is_hex_codes by auto
  have p: "skip_0x s = s"
    using assms(2) is_hex_codes by (cases s rule: skip_0x.cases) auto
  have "takeWhile is_hex s = s" using assms(2) by (simp add: takeWhile_eq_all_conv)
  then show ?thesis using assms(1,3) c p s by (simp add: stoul16_def Let_def)
qed

lemma load_lines_words:
  "\<forall>w \<in> set ws. fits 32 w \<Longrightarrow>
   load_lines p (map (\<lambda>w. hex_pad 8 (nat w)) ws) c
     = map_option (\<lambda>c'. (c', p + 4 * of_nat (length ws), 0)) (load_words p (map word_of_int ws) c)"
proof (induction ws arbitrary: p c)
  case (Cons w ws)
  have w: "0 \<le> w" "nat w < 2 ^ 64" using Cons.prems by (auto simp: fits_def)
  have "stoul16 (hex_pad 8 (nat w)) = Some (nat w)"
    using stoul16_hex [of "hex_pad 8 (nat w)"] hex_chars w by auto
  moreover have "(of_nat (nat w) :: u32w) = word_of_int w" using w by simp
  ultimately show ?case
    using Cons by (simp add: algebra_simps map_option_bind o_def split: Option.bind_splits)
qed simp

lemma load_hex_text:
  assumes "\<forall>w \<in> set ws. fits 32 w"
  shows "load_from_file (unlines (map (\<lambda>w. hex_pad 8 (nat w)) ws)) c
    = map_option (\<lambda>c'. (c', 4 * of_nat (length ws), 0)) (load_words 0 (map word_of_int ws) c)"
proof -
  have "split_at (\<lambda>c. c = LF) (unlines (map (\<lambda>w. hex_pad 8 (nat w)) ws)) = map (\<lambda>w. hex_pad 8 (nat w)) ws"
    using hex_chars(2) is_hex_codes by (intro split_at_unlines) auto
  then show ?thesis by (simp add: load_from_file_def load_lines_words [OF assms])
qed

end
