(* ===== verification/Instructions.thy ===== *)
theory Instructions
  imports Encoders Cpp_Sim
begin

text \<open>
  The abstract instructions the generator emits, their encoding through the encoders of
  \<open>gen_program.py\<close>, and a reference semantics \<open>exec_op\<close> on the machine of \<open>src/main.cpp\<close>. The lemma
  \<open>decode_encode\<close> says that the C++ decoder, run on an encoded instruction, does exactly what the
  reference semantics of that instruction says: field extraction, immediate reassembly and sign
  extension invert the encoders.
\<close>

datatype op =
    OpR int int int int int
  | OpI int int int int
  | OpShift int int int int int
  | OpLoad int int int
  | OpStore int int int
  | OpBranch int int int int
  | OpJal int int
  | OpAuipc int int

fun encode :: "op \<Rightarrow> int" where
  "encode (OpR f3 f7 rd rs1 rs2) = enc_r 0x33 f3 f7 rd rs1 rs2"
| "encode (OpI f3 rd rs1 imm) = enc_i 0x13 f3 rd rs1 imm"
| "encode (OpShift f3 f7 rd rs1 sh) = enc_shift 0x13 f3 f7 rd rs1 sh"
| "encode (OpLoad rd rs1 imm) = enc_i 0x03 0x2 rd rs1 imm"
| "encode (OpStore rs1 rs2 imm) = enc_s 0x23 0x2 rs1 rs2 imm"
| "encode (OpBranch f3 rs1 rs2 imm) = enc_b 0x63 f3 rs1 rs2 imm"
| "encode (OpJal rd imm) = enc_j 0x6F rd imm"
| "encode (OpAuipc rd imm) = enc_u 0x17 rd imm"

text \<open>The operand ranges each format can carry, restricted to the supported \<open>funct3\<close>/\<open>funct7\<close>.\<close>

fun wf_op :: "op \<Rightarrow> bool" where
  "wf_op (OpR f3 f7 rd rs1 rs2) =
     ((0x33, f3, f7) \<in> set R_TYPE \<and> fits 5 rd \<and> fits 5 rs1 \<and> fits 5 rs2)"
| "wf_op (OpI f3 rd rs1 imm) =
     ((0x13, f3) \<in> set I_ARITH \<and> fits 5 rd \<and> fits 5 rs1 \<and> sfits 11 imm)"
| "wf_op (OpShift f3 f7 rd rs1 sh) =
     ((0x13, f3, f7) \<in> set I_SHIFT \<and> fits 5 rd \<and> fits 5 rs1 \<and> fits 5 sh)"
| "wf_op (OpLoad rd rs1 imm) = (fits 5 rd \<and> fits 5 rs1 \<and> sfits 11 imm)"
| "wf_op (OpStore rs1 rs2 imm) = (fits 5 rs1 \<and> fits 5 rs2 \<and> sfits 11 imm)"
| "wf_op (OpBranch f3 rs1 rs2 imm) =
     ((0x63, f3) \<in> set BRANCHES \<and> fits 5 rs1 \<and> fits 5 rs2 \<and> sfits 12 imm \<and> even imm)"
| "wf_op (OpJal rd imm) = (fits 5 rd \<and> sfits 20 imm \<and> even imm)"
| "wf_op (OpAuipc rd imm) = (fits 5 rd \<and> fits 20 imm)"

section \<open>Reference semantics\<close>

definition alu_r :: "int \<Rightarrow> int \<Rightarrow> u32w \<Rightarrow> u32w \<Rightarrow> u32w" where
  "alu_r f3 f7 a b =
     (if f3 = 0 then (if f7 = 0x20 then a - b else a + b)
      else if f3 = 1 then push_bit (unat (b AND 0x1F)) a
      else if f3 = 2 then (if a <s b then 1 else 0)
      else if f3 = 3 then (if a < b then 1 else 0)
      else if f3 = 4 then a XOR b
      else if f3 = 5 then (if f7 = 0x20 then signed_drop_bit (unat (b AND 0x1F)) a
                           else drop_bit (unat (b AND 0x1F)) a)
      else if f3 = 6 then a OR b
      else a AND b)"

definition branch_cond :: "int \<Rightarrow> u32w \<Rightarrow> u32w \<Rightarrow> bool" where
  "branch_cond f3 a b =
     (if f3 = 0 then a = b else if f3 = 1 then a \<noteq> b
      else if f3 = 4 then a <s b else b \<le>s a)"

abbreviation ireg :: "cpu \<Rightarrow> int \<Rightarrow> u32w" where
  "ireg c r \<equiv> registers c (nat r)"

definition set_reg :: "int \<Rightarrow> u32w \<Rightarrow> cpu \<Rightarrow> cpu" where
  "set_reg r v c = (if r = 0 then c else c\<lparr>registers := (registers c)(nat r := v)\<rparr>)"

definition load_word :: "cpu \<Rightarrow> u32w \<Rightarrow> u32w option" where
  "load_word c a = fetch_instruction c a"

fun exec_op :: "op \<Rightarrow> cpu \<Rightarrow> cpu option" where
  "exec_op (OpR f3 f7 rd rs1 rs2) c = Some (set_reg rd (alu_r f3 f7 (ireg c rs1) (ireg c rs2)) c)"
| "exec_op (OpI f3 rd rs1 imm) c = Some (set_reg rd (alu_r f3 0 (ireg c rs1) (word_of_int imm)) c)"
| "exec_op (OpShift f3 f7 rd rs1 sh) c =
     Some (set_reg rd (alu_r f3 f7 (ireg c rs1) (word_of_int sh)) c)"
| "exec_op (OpLoad rd rs1 imm) c =
     (let a = ireg c rs1 + word_of_int imm
      in if a + 3 \<ge> 4096 then Some (say (OutOfBounds a) c)
         else map_option (\<lambda>v. set_reg rd v c) (load_word c a))"
| "exec_op (OpStore rs1 rs2 imm) c = put_word (ireg c rs1 + word_of_int imm) (ireg c rs2) c"
| "exec_op (OpBranch f3 rs1 rs2 imm) c =
     Some (if branch_cond f3 (ireg c rs1) (ireg c rs2) then c\<lparr>pc := pc c + word_of_int imm - 4\<rparr> else c)"
| "exec_op (OpJal rd imm) c =
     Some (set_reg rd (pc c + 4) c\<lparr>pc := pc c + word_of_int imm - 4\<rparr>)"
| "exec_op (OpAuipc rd imm) c = Some (set_reg rd (pc c + word_of_int (push_bit 12 imm)) c)"

section \<open>Words and integers\<close>

lemma woi_push: "push_bit n (word_of_int x :: u32w) = word_of_int (push_bit n x)"
  by (rule bit_word_eqI) (auto simp: bit_simps)

lemma woi_or: "word_of_int x OR word_of_int y = (word_of_int (x OR y) :: u32w)"
  by (rule bit_word_eqI) (auto simp: bit_simps)

lemma woi_and: "word_of_int x AND word_of_int y = (word_of_int (x AND y) :: u32w)"
  by (rule bit_word_eqI) (auto simp: bit_simps)

lemma woi_drop: "fits 32 x \<Longrightarrow> drop_bit n (word_of_int x :: u32w) = word_of_int (drop_bit n x)"
  by (rule bit_word_eqI) (auto simp: bit_simps dest: fits_bit)

lemma num_woi: "(numeral n :: u32w) = word_of_int (numeral n)" "(1 :: u32w) = word_of_int 1"
  by simp_all

lemma field_woi:
  assumes "fits 32 e"
  shows "f_opcode (word_of_int e) = word_of_int (slice_at 0 7 e)"
    "f_rd (word_of_int e) = word_of_int (slice_at 7 5 e)"
    "f_funct3 (word_of_int e) = word_of_int (slice_at 12 3 e)"
    "f_rs1 (word_of_int e) = word_of_int (slice_at 15 5 e)"
    "f_rs2 (word_of_int e) = word_of_int (slice_at 20 5 e)"
    "f_funct7 (word_of_int e) = word_of_int (slice_at 25 7 e)"
  unfolding f_opcode_def f_rd_def f_funct3_def f_rs1_def f_rs2_def f_funct7_def slice_at_def num_woi
  using assms by (simp_all only: woi_drop woi_and and_mask_take drop_bit_0 id_apply)

lemma slice_top: "fits (lo + k) x \<Longrightarrow> drop_bit lo x = slice_at lo k x"
  unfolding slice_at_def by (intro bit_eqI) (auto simp: bit_simps dest!: fits_bit)

lemma sext_word:
  assumes "fits (Suc k) x" "k < 31"
  shows "(if word_of_int x AND (2 ^ k :: u32w) \<noteq> 0 then word_of_int x OR NOT (mask (Suc k))
          else word_of_int x) = (word_of_int (signed_take_bit k x) :: u32w)"
proof (rule bit_word_eqI)
  fix n
  assume n: "n < LENGTH(32)"
  have top: "k < n \<Longrightarrow> \<not> bit x n" using fits_bit [OF assms(1), of n] by auto
  consider "n < k" | "n = k" | "k < n" by linarith
  then show "bit (if word_of_int x AND (2 ^ k :: u32w) \<noteq> 0 then word_of_int x OR NOT (mask (Suc k))
          else (word_of_int x :: u32w)) n = bit (word_of_int (signed_take_bit k x) :: u32w) n"
    using assms(2) n top
    by cases (simp_all add: and_exp_eq_0_iff_not_bit bit_simps)
qed

lemma sext_field:
  assumes "sfits k i" "k < 31" "m = Suc k"
  shows "(if word_of_int (take_bit m i) AND (2 ^ k :: u32w) \<noteq> 0
          then word_of_int (take_bit m i) OR NOT (mask m)
          else word_of_int (take_bit m i)) = (word_of_int i :: u32w)"
  using sext_word [of k "take_bit (Suc k) i"] sfits_sign_extend [OF assms(1)] assms(2)
  unfolding assms(3) by (simp split del: if_split)

lemma sext_masks:
  "(0x800 :: u32w) = 2 ^ 11" "(0x1000 :: u32w) = 2 ^ 12" "(0x100000 :: u32w) = 2 ^ 20"
  "(0xFFFFF000 :: u32w) = NOT (mask 12)" "(0xFFFFE000 :: u32w) = NOT (mask 13)"
  "(0xFFE00000 :: u32w) = NOT (mask 21)"
  by (simp_all add: mask_eq_exp_minus_1)

text \<open>The three sign extensions of the simulator, on an immediate cut to its field.\<close>

lemma sext_imm:
  "sfits 11 i \<Longrightarrow> (let v = word_of_int (take_bit 12 i) in if v AND 0x800 \<noteq> 0 then v OR 0xFFFFF000 else v)
     = (word_of_int i :: u32w)"
  "sfits 12 i \<Longrightarrow> (let v = word_of_int (take_bit 13 i) in if v AND 0x1000 \<noteq> 0 then v OR 0xFFFFE000 else v)
     = (word_of_int i :: u32w)"
  "sfits 20 i \<Longrightarrow> (let v = word_of_int (take_bit 21 i) in if v AND 0x100000 \<noteq> 0 then v OR 0xFFE00000 else v)
     = (word_of_int i :: u32w)"
  unfolding sext_masks Let_def by (rule sext_field; simp)+

section \<open>Immediates survive the encoders\<close>

lemma join_S:
  "push_bit 5 (slice_at 5 7 imm) OR push_bit 0 (slice_at 0 5 imm) = take_bit 12 imm"
  unfolding slice_at_def by (intro bit_eqI) (auto simp: bit_simps)

lemma join_B:
  assumes "even (imm :: int)"
  shows "push_bit 12 (slice_at 12 1 imm) OR push_bit 11 (slice_at 11 1 imm)
           OR push_bit 5 (slice_at 5 6 imm) OR push_bit 1 (slice_at 1 4 imm) = take_bit 13 imm"
    (is "?l = _")
proof (rule bit_eqI)
  fix n :: nat
  have n0: "\<not> bit imm 0" using assms by (simp add: bit_0)
  consider "n = 0" | "1 \<le> n" "n \<le> 4" | "5 \<le> n" "n \<le> 10" | "n = 11" | "n = 12" | "13 \<le> n"
    by linarith
  then show "bit ?l n = bit (take_bit 13 imm) n"
    using n0 unfolding slice_at_def by cases (auto simp: bit_simps simp del: take_bit_Suc_0 push_bit_Suc)
qed

lemma join_J:
  assumes "even (imm :: int)"
  shows "push_bit 20 (slice_at 20 1 imm) OR push_bit 1 (slice_at 1 10 imm)
           OR push_bit 11 (slice_at 11 1 imm) OR push_bit 12 (slice_at 12 8 imm) = take_bit 21 imm"
    (is "?l = _")
proof (rule bit_eqI)
  fix n :: nat
  have n0: "\<not> bit imm 0" using assms by (simp add: bit_0)
  consider "n = 0" | "1 \<le> n" "n \<le> 10" | "n = 11" | "12 \<le> n" "n \<le> 19" | "n = 20" | "21 \<le> n"
    by linarith
  then show "bit ?l n = bit (take_bit 21 imm) n"
    using n0 unfolding slice_at_def by cases (auto simp: bit_simps simp del: take_bit_Suc_0 push_bit_Suc)
qed

lemma imm_I:
  assumes "fits 7 opc" "fits 3 f3" "fits 5 rd" "fits 5 rs1" "sfits 11 imm"
  shows "sign_extend_12 (drop_bit 20 (word_of_int (enc_i opc f3 rd rs1 imm))) = word_of_int imm"
proof -
  have "drop_bit 20 (enc_i opc f3 rd rs1 imm) = slice_at 20 12 (enc_i opc f3 rd rs1 imm)"
    by (rule slice_top) (use enc_fits in simp)
  also have "\<dots> = take_bit 12 imm"
    using assms by (simp add: enc_i_cat slice_simps del: cat.simps)
  finally show ?thesis
    using sext_imm(1) [OF assms(5)] by (simp only: woi_drop enc_fits sign_extend_12_def Let_def)
qed

lemma imm_S:
  assumes "fits 7 opc" "fits 3 f3" "fits 5 rs1" "fits 5 rs2" "sfits 11 imm"
  shows "decode_S_imm (word_of_int (enc_s opc f3 rs1 rs2 imm)) = word_of_int imm"
proof -
  let ?e = "enc_s opc f3 rs1 rs2 imm"
  have s: "slice_at 25 7 ?e = slice_at 5 7 imm" "slice_at 7 5 ?e = slice_at 0 5 imm"
    using assms by (simp_all add: enc_s_cat slice_simps del: cat.simps)
  have "push_bit 5 (drop_bit 25 (word_of_int ?e) AND 0x7F) OR push_bit 0 (drop_bit 7 (word_of_int ?e) AND 0x1F)
    = (word_of_int (take_bit 12 imm) :: u32w)"
    using s join_S [of imm]
    by (simp only: num_woi woi_drop enc_fits woi_and woi_push woi_or and_mask_take slice_at_def)
  then show ?thesis
    using sext_imm(1) [OF assms(5)] by (simp only: decode_S_imm_def Let_def)
qed

lemma imm_B:
  assumes "fits 7 opc" "fits 3 f3" "fits 5 rs1" "fits 5 rs2" "sfits 12 imm" "even imm"
  shows "decode_B_imm (word_of_int (enc_b opc f3 rs1 rs2 imm)) = word_of_int imm"
proof -
  let ?e = "enc_b opc f3 rs1 rs2 imm"
  have s: "slice_at 31 1 ?e = slice_at 12 1 imm" "slice_at 7 1 ?e = slice_at 11 1 imm"
    "slice_at 25 6 ?e = slice_at 5 6 imm" "slice_at 8 4 ?e = slice_at 1 4 imm"
    using assms by (simp_all add: enc_b_cat slice_simps del: cat.simps)
  have "drop_bit 31 ?e = slice_at 31 1 ?e"
    by (rule slice_top) (use enc_fits in simp)
  with s join_B [OF assms(6)]
  have "push_bit 12 (drop_bit 31 (word_of_int ?e)) OR push_bit 11 (drop_bit 7 (word_of_int ?e) AND 0x1)
      OR push_bit 5 (drop_bit 25 (word_of_int ?e) AND 0x3F)
      OR push_bit 1 (drop_bit 8 (word_of_int ?e) AND 0xF) = (word_of_int (take_bit 13 imm) :: u32w)"
    by (simp only: num_woi woi_drop enc_fits woi_and woi_push woi_or and_mask_take
        slice_at_def [symmetric])
  then show ?thesis
    using sext_imm(2) [OF assms(5)] by (simp only: decode_B_imm_def Let_def)
qed

lemma imm_J:
  assumes "fits 7 opc" "fits 5 rd" "sfits 20 imm" "even imm"
  shows "decode_J_imm (word_of_int (enc_j opc rd imm)) = word_of_int imm"
proof -
  let ?e = "enc_j opc rd imm"
  have s: "slice_at 31 1 ?e = slice_at 20 1 imm" "slice_at 21 10 ?e = slice_at 1 10 imm"
    "slice_at 20 1 ?e = slice_at 11 1 imm" "slice_at 12 8 ?e = slice_at 12 8 imm"
    using assms by (simp_all add: enc_j_cat slice_simps del: cat.simps)
  have "drop_bit 31 ?e = slice_at 31 1 ?e"
    by (rule slice_top) (use enc_fits in simp)
  with s join_J [OF assms(4)]
  have "push_bit 20 (drop_bit 31 (word_of_int ?e)) OR push_bit 1 (drop_bit 21 (word_of_int ?e) AND 0x3FF)
      OR push_bit 11 (drop_bit 20 (word_of_int ?e) AND 0x1)
      OR push_bit 12 (drop_bit 12 (word_of_int ?e) AND 0xFF) = (word_of_int (take_bit 21 imm) :: u32w)"
    by (simp only: num_woi woi_drop enc_fits woi_and woi_push woi_or and_mask_take
        slice_at_def [symmetric])
  then show ?thesis
    using sext_imm(3) [OF assms(3)] by (simp only: decode_J_imm_def Let_def)
qed

lemma upper_bits:
  assumes "fits 12 c"
  shows "(word_of_int (c OR push_bit 12 i) :: u32w) AND NOT (mask 12) = word_of_int (push_bit 12 i)"
  by (rule bit_word_eqI) (auto simp: bit_simps dest: fits_bit [OF assms])

lemma imm_U:
  assumes "fits 7 opc" "fits 5 rd" "fits 20 imm"
  shows "word_of_int (enc_u opc rd imm) AND 0xFFFFF000 = (word_of_int (push_bit 12 imm) :: u32w)"
proof -
  have "enc_u opc rd imm = cat [(7, opc), (5, rd)] OR push_bit 12 imm"
    using assms by (simp add: enc_u_cat fits_take push_bit_push_bit ac_simps)
  moreover have "fits 12 (cat [(7, opc), (5, rd)])"
    using fits_cat [of "[(7, opc), (5, rd)]"] assms by simp
  ultimately show ?thesis
    unfolding sext_masks by (simp only: upper_bits)
qed

section \<open>The simulator executes what was encoded\<close>

lemma unat_woi: "fits 32 r \<Longrightarrow> unat (word_of_int r :: u32w) = nat r"
  by (simp add: fits_def unat_eq_nat_uint uint_word_of_int)

lemma reg_woi [simp]: "fits 5 r \<Longrightarrow> reg c (word_of_int r) = ireg c r"
  by (simp add: reg_def unat_woi fits_mono [of 5 r 32])

lemma write_reg_woi [simp]:
  assumes "fits 5 r"
  shows "write_reg (word_of_int r) v c = set_reg r v c"
proof -
  have u: "uint (word_of_int r :: u32w) = r"
    using assms by (simp add: fits_def uint_word_of_int)
  then have "(word_of_int r :: u32w) = 0 \<longleftrightarrow> r = 0" "(word_of_int r :: u32w) < 32"
    using assms by (auto simp: word_uint_eq_iff word_less_def fits_def)
  then show ?thesis
    using assms by (simp add: write_reg_def set_reg_def unat_woi fits_mono [of 5 r 32])
qed

lemma shamt_woi:
  assumes "fits 5 sh"
  shows "word_of_int sh AND (0x1F :: u32w) = word_of_int sh"
  unfolding num_woi woi_and using assms by (simp add: slice_simps fits_take)

lemma srai_bit:
  assumes "fits 32 e"
  shows "drop_bit 30 (word_of_int e :: u32w) AND 1 = word_of_int (slice_at 30 1 e)"
  unfolding slice_at_def num_woi(2) by (simp only: woi_drop assms woi_and and_mask_take)

lemma fits_small [simp]:
  "fits 7 0x33" "fits 7 0x13" "fits 7 0x03" "fits 7 0x23" "fits 7 0x63" "fits 7 0x6F" "fits 7 0x17"
  "fits 3 0" "fits 3 1" "fits 3 2" "fits 3 3" "fits 3 4" "fits 3 5" "fits 3 6" "fits 3 7"
  "fits 7 0" "fits 7 0x20"
  by (simp_all add: fits_def)

lemma table_cases:
  "(0x33, f3, f7) \<in> set R_TYPE \<longleftrightarrow>
     f3 = 0 \<and> (f7 = 0 \<or> f7 = 0x20) \<or> f3 = 1 \<and> f7 = 0 \<or> f3 = 2 \<and> f7 = 0 \<or> f3 = 3 \<and> f7 = 0
     \<or> f3 = 4 \<and> f7 = 0 \<or> f3 = 5 \<and> (f7 = 0 \<or> f7 = 0x20) \<or> f3 = 6 \<and> f7 = 0 \<or> f3 = 7 \<and> f7 = 0"
  "(0x13, f3) \<in> set I_ARITH \<longleftrightarrow> f3 = 0 \<or> f3 = 2 \<or> f3 = 3 \<or> f3 = 4 \<or> f3 = 6 \<or> f3 = 7"
  "(0x13, f3, f7) \<in> set I_SHIFT \<longleftrightarrow> f3 = 1 \<and> f7 = 0 \<or> f3 = 5 \<and> (f7 = 0 \<or> f7 = 0x20)"
  "(0x63, f3) \<in> set BRANCHES \<longleftrightarrow> f3 = 0 \<or> f3 = 1 \<or> f3 = 4 \<or> f3 = 5"
  by (auto simp: R_TYPE_def I_ARITH_def I_SHIFT_def BRANCHES_def)

text \<open>The fields of each format, as the simulator reads them.\<close>

lemma fields_r:
  assumes "fits 7 opc" "fits 3 f3" "fits 7 f7" "fits 5 rd" "fits 5 rs1" "fits 5 rs2"
  shows
    "f_opcode (word_of_int (enc_r opc f3 f7 rd rs1 rs2)) = word_of_int opc"
    "f_funct3 (word_of_int (enc_r opc f3 f7 rd rs1 rs2)) = word_of_int f3"
    "f_funct7 (word_of_int (enc_r opc f3 f7 rd rs1 rs2)) = word_of_int f7"
    "f_rd (word_of_int (enc_r opc f3 f7 rd rs1 rs2)) = word_of_int rd"
    "f_rs1 (word_of_int (enc_r opc f3 f7 rd rs1 rs2)) = word_of_int rs1"
    "f_rs2 (word_of_int (enc_r opc f3 f7 rd rs1 rs2)) = word_of_int rs2"
  unfolding field_woi [OF enc_fits(1)]
  using assms by (simp_all add: enc_r_cat slice_simps del: cat.simps)

lemma fields_i:
  assumes "fits 7 opc" "fits 3 f3" "fits 5 rd" "fits 5 rs1"
  shows
    "f_opcode (word_of_int (enc_i opc f3 rd rs1 imm)) = word_of_int opc"
    "f_funct3 (word_of_int (enc_i opc f3 rd rs1 imm)) = word_of_int f3"
    "f_rd (word_of_int (enc_i opc f3 rd rs1 imm)) = word_of_int rd"
    "f_rs1 (word_of_int (enc_i opc f3 rd rs1 imm)) = word_of_int rs1"
  unfolding field_woi [OF enc_fits(2)]
  using assms by (simp_all add: enc_i_cat slice_simps del: cat.simps)

lemma fields_shift:
  assumes "fits 7 opc" "fits 3 f3" "fits 7 f7" "fits 5 rd" "fits 5 rs1" "fits 5 sh"
  shows
    "f_opcode (word_of_int (enc_shift opc f3 f7 rd rs1 sh)) = word_of_int opc"
    "f_funct3 (word_of_int (enc_shift opc f3 f7 rd rs1 sh)) = word_of_int f3"
    "f_rd (word_of_int (enc_shift opc f3 f7 rd rs1 sh)) = word_of_int rd"
    "f_rs1 (word_of_int (enc_shift opc f3 f7 rd rs1 sh)) = word_of_int rs1"
    "f_rs2 (word_of_int (enc_shift opc f3 f7 rd rs1 sh)) = word_of_int sh"
  unfolding field_woi [OF enc_fits(3)]
  using assms by (simp_all add: enc_shift_cat fits_take slice_simps del: cat.simps)

lemma fields_s:
  assumes "fits 7 opc" "fits 3 f3" "fits 5 rs1" "fits 5 rs2"
  shows
    "f_opcode (word_of_int (enc_s opc f3 rs1 rs2 imm)) = word_of_int opc"
    "f_funct3 (word_of_int (enc_s opc f3 rs1 rs2 imm)) = word_of_int f3"
    "f_rs1 (word_of_int (enc_s opc f3 rs1 rs2 imm)) = word_of_int rs1"
    "f_rs2 (word_of_int (enc_s opc f3 rs1 rs2 imm)) = word_of_int rs2"
  unfolding field_woi [OF enc_fits(4)]
  using assms by (simp_all add: enc_s_cat slice_simps del: cat.simps)

lemma fields_b:
  assumes "fits 7 opc" "fits 3 f3" "fits 5 rs1" "fits 5 rs2"
  shows
    "f_opcode (word_of_int (enc_b opc f3 rs1 rs2 imm)) = word_of_int opc"
    "f_funct3 (word_of_int (enc_b opc f3 rs1 rs2 imm)) = word_of_int f3"
    "f_rs1 (word_of_int (enc_b opc f3 rs1 rs2 imm)) = word_of_int rs1"
    "f_rs2 (word_of_int (enc_b opc f3 rs1 rs2 imm)) = word_of_int rs2"
  unfolding field_woi [OF enc_fits(5)]
  using assms by (simp_all add: enc_b_cat slice_simps del: cat.simps)

lemma fields_u:
  assumes "fits 7 opc" "fits 5 rd"
  shows
    "f_opcode (word_of_int (enc_u opc rd imm)) = word_of_int opc"
    "f_rd (word_of_int (enc_u opc rd imm)) = word_of_int rd"
  unfolding field_woi [OF enc_fits(6)]
  using assms by (simp_all add: enc_u_cat slice_simps del: cat.simps)

lemma fields_j:
  assumes "fits 7 opc" "fits 5 rd"
  shows
    "f_opcode (word_of_int (enc_j opc rd imm)) = word_of_int opc"
    "f_rd (word_of_int (enc_j opc rd imm)) = word_of_int rd"
  unfolding field_woi [OF enc_fits(7)]
  using assms by (simp_all add: enc_j_cat slice_simps del: cat.simps)

lemma shift_srai:
  assumes "fits 7 opc" "fits 3 f3" "fits 7 f7" "fits 5 rd" "fits 5 rs1"
  shows "drop_bit 30 (word_of_int (enc_shift opc f3 f7 rd rs1 sh) :: u32w) AND 1
    = word_of_int (slice_at 5 1 f7)"
  unfolding srai_bit [OF enc_fits(3)]
  using assms by (simp add: enc_shift_cat slice_simps del: cat.simps)

lemma exec_R:
  assumes "wf_op (OpR f3 f7 rd rs1 rs2)"
  shows "decode_and_execute (word_of_int (enc_r 0x33 f3 f7 rd rs1 rs2)) c
    = exec_op (OpR f3 f7 rd rs1 rs2) c"
  using assms unfolding wf_op.simps table_cases
  by (elim conjE disjE; simp add: decode_and_execute_def exec_reg_def fields_r Let_def
      execute_alu_def alu_r_def)

lemma exec_I:
  assumes "wf_op (OpI f3 rd rs1 imm)"
  shows "decode_and_execute (word_of_int (enc_i 0x13 f3 rd rs1 imm)) c = exec_op (OpI f3 rd rs1 imm) c"
  using assms unfolding wf_op.simps table_cases
  by (elim conjE disjE; simp add: decode_and_execute_def exec_imm_def fields_i Let_def
      execute_alu_def alu_r_def imm_I)

lemma exec_Shift:
  assumes "wf_op (OpShift f3 f7 rd rs1 sh)"
  shows "decode_and_execute (word_of_int (enc_shift 0x13 f3 f7 rd rs1 sh)) c
    = exec_op (OpShift f3 f7 rd rs1 sh) c"
  using assms unfolding wf_op.simps table_cases
  by (elim conjE disjE; simp add: decode_and_execute_def exec_imm_def fields_shift shift_srai
      Let_def execute_alu_def alu_r_def shamt_woi slice_at_def)

lemma exec_Store:
  assumes "wf_op (OpStore rs1 rs2 imm)"
  shows "decode_and_execute (word_of_int (enc_s 0x23 0x2 rs1 rs2 imm)) c
    = exec_op (OpStore rs1 rs2 imm) c"
  using assms
  by (simp add: decode_and_execute_def exec_store_def imm_S fields_s Let_def)

lemma exec_Branch:
  assumes "wf_op (OpBranch f3 rs1 rs2 imm)"
  shows "decode_and_execute (word_of_int (enc_b 0x63 f3 rs1 rs2 imm)) c
    = exec_op (OpBranch f3 rs1 rs2 imm) c"
  using assms unfolding wf_op.simps table_cases
  by (elim conjE disjE; simp add: decode_and_execute_def exec_branch_def fields_b Let_def imm_B
      branch_cond_def)

lemma exec_Jal:
  assumes "wf_op (OpJal rd imm)"
  shows "decode_and_execute (word_of_int (enc_j 0x6F rd imm)) c = exec_op (OpJal rd imm) c"
  using assms
  by (simp add: decode_and_execute_def exec_jal_def imm_J fields_j Let_def set_reg_def)

lemma exec_Auipc:
  assumes "wf_op (OpAuipc rd imm)"
  shows "decode_and_execute (word_of_int (enc_u 0x17 rd imm)) c = exec_op (OpAuipc rd imm) c"
  using assms by (simp add: decode_and_execute_def fields_u imm_U Let_def)

lemma exec_Load:
  assumes "wf_op (OpLoad rd rs1 imm)"
  shows "decode_and_execute (word_of_int (enc_i 0x03 0x2 rd rs1 imm)) c = exec_op (OpLoad rd rs1 imm) c"
  using assms
  by (simp add: decode_and_execute_def exec_load_def imm_I fields_i Let_def load_word_def
      fetch_instruction_def map_option_bind o_def)

lemma decode_encode_op:
  "wf_op i \<Longrightarrow> decode_and_execute (word_of_int (encode i)) c = exec_op i c"
  by (cases i) (simp_all only: encode.simps exec_R exec_I exec_Shift exec_Store exec_Branch exec_Jal
      exec_Auipc exec_Load)

lemma fits_encode: "fits 32 (encode i)"
  by (cases i) (simp_all add: enc_fits)

end
