(* ===== verification/Gen_Spec.thy ===== *)
theory Gen_Spec
  imports Generator Instructions
begin

text \<open>
  What the generator may emit, as abstract instructions: \<open>plain_op\<close> is a straight-line instruction
  on registers x0 to x29 whose loads and stores stay within the window around x31, \<open>control_op\<close> a
  forward branch or jump. Every draw of \<open>gen_one_instr\<close> is the encoding of one of them; a program is
  the concatenation of blocks (single instructions and bounded loops).
\<close>

section \<open>Straight-line and control-flow instructions\<close>

definition gen_reg_ok :: "int \<Rightarrow> bool" where
  "gen_reg_ok r \<longleftrightarrow> 0 \<le> r \<and> r \<le> 29"

definition window_offset :: "int \<Rightarrow> bool" where
  "window_offset d \<longleftrightarrow> - LOAD_STORE_WINDOW \<le> d \<and> d \<le> LOAD_STORE_WINDOW \<and> 4 dvd d"

fun plain_op :: "op \<Rightarrow> bool" where
  "plain_op (OpR f3 f7 rd rs1 rs2) =
     ((0x33, f3, f7) \<in> set R_TYPE \<and> gen_reg_ok rd \<and> gen_reg_ok rs1 \<and> gen_reg_ok rs2)"
| "plain_op (OpI f3 rd rs1 imm) =
     ((0x13, f3) \<in> set I_ARITH \<and> gen_reg_ok rd \<and> gen_reg_ok rs1 \<and> sfits 11 imm)"
| "plain_op (OpShift f3 f7 rd rs1 sh) =
     ((0x13, f3, f7) \<in> set I_SHIFT \<and> gen_reg_ok rd \<and> gen_reg_ok rs1 \<and> fits 5 sh)"
| "plain_op (OpLoad rd rs1 imm) = (gen_reg_ok rd \<and> rs1 = 31 \<and> window_offset imm)"
| "plain_op (OpStore rs1 rs2 imm) = (rs1 = 31 \<and> gen_reg_ok rs2 \<and> window_offset imm)"
| "plain_op _ = False"

text \<open>The word distance a forward branch or jump of the generator skips.\<close>

fun control_op :: "int \<Rightarrow> op \<Rightarrow> bool" where
  "control_op d (OpBranch f3 rs1 rs2 imm) =
     ((0x63, f3) \<in> set BRANCHES \<and> gen_reg_ok rs1 \<and> gen_reg_ok rs2 \<and> imm = d * 4)"
| "control_op d (OpJal rd imm) = (rd = 0 \<and> imm = d * 4)"
| "control_op d _ = False"

definition window_set :: "int set \<Rightarrow> bool" where
  "window_set W \<longleftrightarrow> finite W \<and> (\<forall>d \<in> W. window_offset d)"

lemma window_set_empty [simp]: "window_set {}"
  by (simp add: window_set_def)

lemma window_set_insert: "window_set W \<Longrightarrow> window_offset d \<Longrightarrow> window_set (insert d W)"
  by (simp add: window_set_def)

lemma gen_reg_fits: "gen_reg_ok r \<Longrightarrow> fits 5 r"
  by (simp add: gen_reg_ok_def fits_def)

lemma reg_names_fit: "fits 5 0" "fits 5 30" "fits 5 31"
  by (simp_all add: fits_def)

lemma window_sfits: "window_offset d \<Longrightarrow> sfits 11 d"
  by (simp add: window_offset_def sfits_def LOAD_STORE_WINDOW_def)

lemma plain_wf: "plain_op i \<Longrightarrow> wf_op i"
  by (cases i) (auto simp: gen_reg_fits window_sfits reg_names_fit)

lemma control_wf: "control_op d i \<Longrightarrow> 0 < d \<Longrightarrow> d \<le> 8 \<Longrightarrow> wf_op i"
  by (cases i) (auto simp: gen_reg_fits sfits_def reg_names_fit)

section \<open>The draws\<close>

lemma gen_reg_range: "gen_reg t = (r, t') \<Longrightarrow> gen_reg_ok r"
  by (auto simp: gen_reg_def gen_reg_ok_def dest: randint_bounds [rotated])

lemma choice_R: "choice R_TYPE t = ((op, f3, f7), t') \<Longrightarrow> op = 0x33 \<and> (0x33, f3, f7) \<in> set R_TYPE"
  using choice_in [of R_TYPE t "(op, f3, f7)" t'] by (auto simp: R_TYPE_def)

lemma choice_I: "choice I_ARITH t = ((op, f3), t') \<Longrightarrow> op = 0x13 \<and> (0x13, f3) \<in> set I_ARITH"
  using choice_in [of I_ARITH t "(op, f3)" t'] by (auto simp: I_ARITH_def)

lemma choice_Sh: "choice I_SHIFT t = ((op, f3, f7), t') \<Longrightarrow> op = 0x13 \<and> (0x13, f3, f7) \<in> set I_SHIFT"
  using choice_in [of I_SHIFT t "(op, f3, f7)" t'] by (auto simp: I_SHIFT_def)

lemma choice_B: "choice BRANCHES t = ((op, f3), t') \<Longrightarrow> op = 0x63 \<and> (0x63, f3) \<in> set BRANCHES"
  using choice_in [of BRANCHES t "(op, f3)" t'] by (auto simp: BRANCHES_def)

lemma gen_r_op:
  assumes "gen_r t = (w, t')"
  obtains i where "w = encode i" "plain_op i"
proof -
  obtain op f3 f7 t1 rd t2 rs1 t3 rs2 where
    d: "choice R_TYPE t = ((op, f3, f7), t1)" "gen_reg t1 = (rd, t2)" "gen_reg t2 = (rs1, t3)"
      "gen_reg t3 = (rs2, t')" and w: "w = enc_r op f3 f7 rd rs1 rs2"
    using assms by (auto simp: gen_r_def split: prod.splits)
  have "w = encode (OpR f3 f7 rd rs1 rs2)" "plain_op (OpR f3 f7 rd rs1 rs2)"
    using choice_R [OF d(1)] d(2-4) w by (auto simp: gen_reg_range)
  then show thesis by (rule that)
qed

lemma gen_i_arith_op:
  assumes "gen_i_arith t = (w, t')"
  obtains i where "w = encode i" "plain_op i"
proof -
  obtain op f3 t1 rd t2 rs1 t3 imm where
    d: "choice I_ARITH t = ((op, f3), t1)" "gen_reg t1 = (rd, t2)" "gen_reg t2 = (rs1, t3)"
      "randint (-2048) 2047 t3 = (imm, t')" and w: "w = enc_i op f3 rd rs1 imm"
    using assms by (auto simp: gen_i_arith_def split: prod.splits)
  have "w = encode (OpI f3 rd rs1 imm)" "plain_op (OpI f3 rd rs1 imm)"
    using choice_I [OF d(1)] d(2,3) w randint_bounds [OF _ d(4)]
    by (auto simp: gen_reg_range sfits_def)
  then show thesis by (rule that)
qed

lemma gen_i_shift_op:
  assumes "gen_i_shift t = (w, t')"
  obtains i where "w = encode i" "plain_op i"
proof -
  obtain op f3 f7 t1 rd t2 rs1 t3 sh where
    d: "choice I_SHIFT t = ((op, f3, f7), t1)" "gen_reg t1 = (rd, t2)" "gen_reg t2 = (rs1, t3)"
      "randint 0 31 t3 = (sh, t')" and w: "w = enc_shift op f3 f7 rd rs1 sh"
    using assms by (auto simp: gen_i_shift_def split: prod.splits)
  have "w = encode (OpShift f3 f7 rd rs1 sh)" "plain_op (OpShift f3 f7 rd rs1 sh)"
    using choice_Sh [OF d(1)] d(2,3) w randint_bounds [OF _ d(4)]
    by (auto simp: gen_reg_range fits_def)
  then show thesis by (rule that)
qed

lemma gen_load_op:
  assumes "gen_load W t = (w, t')" "window_set W" "W \<noteq> {}"
  obtains rd d where "w = encode (OpLoad rd 31 d)" "plain_op (OpLoad rd 31 d)" "d \<in> W"
proof -
  obtain d t1 rd where
    d: "choice (sorted_list_of_set W) t = (d, t1)" "gen_reg t1 = (rd, t')"
    and w: "w = enc_i 0x03 0x2 rd 31 d"
    using assms(1) by (auto simp: gen_load_def split: prod.splits)
  have fin: "finite W" and ne: "sorted_list_of_set W \<noteq> []"
    using assms(2,3) by (auto simp: window_set_def)
  have "d \<in> W" using choice_in [OF ne d(1)] fin by simp
  with assms(2) have "window_offset d" by (simp add: window_set_def)
  with d(2) w \<open>d \<in> W\<close> that [of rd d] show thesis by (auto simp: gen_reg_range)
qed

lemma gen_store_op:
  assumes "gen_store W t = (w, W', t')" "window_set W"
  obtains rs2 d where "w = encode (OpStore 31 rs2 d)" "plain_op (OpStore 31 rs2 d)"
    "W' = insert d W" "window_set W'"
proof -
  obtain d t1 rs2 where
    d: "randrange (- LOAD_STORE_WINDOW) (LOAD_STORE_WINDOW + 1) 4 t = (d, t1)"
      "gen_reg t1 = (rs2, t')"
    and w: "w = enc_s 0x23 0x2 31 rs2 d" "W' = insert d W"
    using assms(1) by (auto simp: gen_store_def split: prod.splits)
  obtain k where k: "d = - LOAD_STORE_WINDOW + 4 * k" "0 \<le> k" "d < LOAD_STORE_WINDOW + 1"
    by (rule randrange_bounds [OF _ _ d(1)]) (simp_all add: LOAD_STORE_WINDOW_def)
  then have "window_offset d"
    by (auto simp: window_offset_def LOAD_STORE_WINDOW_def intro: dvd_add)
  with d(2) w assms(2) that [of rs2 d] show thesis
    by (auto simp: gen_reg_range window_set_insert)
qed

lemma candidates_sound:
  assumes "d \<in> set (candidates p n rs)" "p < n"
  shows "0 < d" "d \<le> 8" "p + d \<le> n" "\<not> in_any_range (p + d) rs"
  using assms by (auto simp: candidates_def max_span_def Let_def split: if_splits)

lemma gen_branch_op:
  assumes "gen_branch p n rs t = (w, t')" "p < n"
  obtains i where "w = encode i" "plain_op i"
  | i d where "w = encode i" "control_op d i" "d \<in> set (candidates p n rs)"
proof -
  obtain op f3 t1 where b: "choice BRANCHES t = ((op, f3), t1)"
    by (metis prod.exhaust)
  show thesis
  proof (cases "candidates p n rs = []")
    case True
    with assms(1) b have "gen_r t1 = (w, t')" by (simp add: gen_branch_def)
    then show thesis by (rule gen_r_op) (rule that(1))
  next
    case False
    with assms(1) b obtain d t2 rs1 t3 rs2 where
      c: "choice (candidates p n rs) t1 = (d, t2)" "gen_reg t2 = (rs1, t3)" "gen_reg t3 = (rs2, t')"
      and w: "w = enc_b op f3 rs1 rs2 (d * 4)"
      by (auto simp: gen_branch_def Let_def split: prod.splits)
    show thesis
      using choice_B [OF b] choice_in [OF False c(1)] c(2,3) w that(2) [of "OpBranch f3 rs1 rs2 (d * 4)" d]
      by (auto simp: gen_reg_range)
  qed
qed

lemma gen_jal_op:
  assumes "gen_jal p n rs t = (w, t')" "p < n"
  obtains i where "w = encode i" "plain_op i"
  | i d where "w = encode i" "control_op d i" "d \<in> set (candidates p n rs)"
proof (cases "candidates p n rs = []")
  case True
  with assms(1) have "gen_r t = (w, t')" by (simp add: gen_jal_def)
  then show thesis by (rule gen_r_op) (rule that(1))
next
  case False
  with assms(1) obtain d where
    c: "choice (candidates p n rs) t = (d, t')" and w: "w = enc_j 0x6F 0 (d * 4)"
    by (auto simp: gen_jal_def Let_def split: prod.splits)
  show thesis
    using choice_in [OF False c] w that(2) [of "OpJal 0 (d * 4)" d] by auto
qed

section \<open>One instruction\<close>

lemma choices_category:
  assumes "choices (categories a W) (category_weights a W) t = (ctg, t')"
  shows "ctg \<in> set (categories a W)"
  by (rule choices_in [OF _ _ assms]) (auto simp: categories_def category_weights_def)

lemma category_cases:
  assumes "choices (categories a W) (category_weights a W) t = (ctg, t')"
  shows "ctg = ''r'' \<or> ctg = ''i_arith'' \<or> ctg = ''i_shift'' \<or> ctg = ''store''
    \<or> ctg = ''load'' \<and> W \<noteq> {} \<or> ctg = ''branch'' \<and> a \<or> ctg = ''jal'' \<and> a"
  using choices_category [OF assms] unfolding categories_def
  by (cases a; cases "W = {}"; simp; elim disjE; simp)

text \<open>The shape of one generated instruction at word \<open>p\<close> of \<open>n\<close>.\<close>

definition slot_op :: "int \<Rightarrow> int \<Rightarrow> ranges \<Rightarrow> op \<Rightarrow> bool" where
  "slot_op p n rs i \<longleftrightarrow> plain_op i \<or> (\<exists>d \<in> set (candidates p n rs). control_op d i)"

lemma gen_one_instr_op:
  assumes "gen_one_instr a p n rs W t = (w, W', t')" "window_set W" "a \<Longrightarrow> p < n"
  shows "\<exists>i. w = encode i \<and> slot_op p n rs i \<and> (\<not> a \<longrightarrow> plain_op i) \<and> window_set W' \<and> W \<subseteq> W'"
    (is "\<exists>i. ?P i")
proof -
  obtain ctg t1 where c: "choices (categories a W) (category_weights a W) t = (ctg, t1)"
    by (metis prod.exhaust)
  have plain: "\<exists>i. ?P i" if "w = encode i" "plain_op i" "window_set W'" "W \<subseteq> W'" for i
    using that by (auto simp: slot_op_def)
  have control: "\<exists>i. ?P i" if "w = encode i" "control_op d i" "d \<in> set (candidates p n rs)" "W' = W" a
    for i d
    using that assms(2) by (auto simp: slot_op_def)
  note unfolded = assms(1) [unfolded gen_one_instr_def c]
  from category_cases [OF c] show ?thesis
  proof (elim disjE conjE)
    assume c1: "ctg = ''r''"
    with unfolded have "gen_r t1 = (w, t')" "W' = W" by (auto split: prod.splits)
    then show ?thesis using assms(2) plain by (metis gen_r_op order_refl)
  next
    assume c2: "ctg = ''i_arith''"
    with unfolded have "gen_i_arith t1 = (w, t')" "W' = W" by (auto split: prod.splits)
    then show ?thesis using assms(2) plain by (metis gen_i_arith_op order_refl)
  next
    assume c3: "ctg = ''i_shift''"
    with unfolded have "gen_i_shift t1 = (w, t')" "W' = W" by (auto split: prod.splits)
    then show ?thesis using assms(2) plain by (metis gen_i_shift_op order_refl)
  next
    assume c4: "ctg = ''store''"
    with unfolded have "gen_store W t1 = (w, W', t')" by auto
    then show ?thesis using assms(2) plain by (metis gen_store_op subset_insertI)
  next
    assume c5: "ctg = ''load''" "W \<noteq> {}"
    with unfolded have "gen_load W t1 = (w, t')" "W' = W" by (auto split: prod.splits)
    then show ?thesis using assms(2) c5(2) plain by (metis gen_load_op order_refl)
  next
    assume c6: "ctg = ''branch''" a
    with unfolded have g: "gen_branch p n rs t1 = (w, t')" "W' = W" by (auto split: prod.splits)
    from g(1) assms(3) [OF c6(2)] show ?thesis
      by (rule gen_branch_op) (use g(2) assms(2) c6(2) plain control in blast)+
  next
    assume c7: "ctg = ''jal''" a
    with unfolded have g: "gen_jal p n rs t1 = (w, t')" "W' = W" by (auto split: prod.splits)
    from g(1) assms(3) [OF c7(2)] show ?thesis
      by (rule gen_jal_op) (use g(2) assms(2) c7(2) plain control in blast)+
  qed
qed

section \<open>Blocks\<close>

text \<open>
  A program is a sequence of blocks: a single instruction, or a loop with its trip count and body.
  \<open>Hole\<close> is a single slot not yet filled (between the two passes).
\<close>

datatype block = Hole | Single op | Loop int "op list"

definition loop_ops :: "int \<Rightarrow> op list \<Rightarrow> op list" where
  "loop_ops trip body =
     [OpI 0 30 0 trip] @ body
     @ [OpI 0 30 30 (-1), OpBranch 1 30 0 (- (int (length body) + 1) * 4)]"

fun block_words :: "block \<Rightarrow> int option list" where
  "block_words Hole = [None]"
| "block_words (Single i) = [Some (encode i)]"
| "block_words (Loop trip body) = map (\<lambda>i. Some (encode i)) (loop_ops trip body)"

fun block_len :: "block \<Rightarrow> nat" where
  "block_len (Loop trip body) = length body + 3"
| "block_len _ = 1"

fun block_cost :: "block \<Rightarrow> int" where
  "block_cost (Loop trip body) = 1 + trip * (int (length body) + 2)"
| "block_cost _ = 1"

definition words :: "block list \<Rightarrow> int option list" where
  "words bs = concat (map block_words bs)"

definition len :: "block list \<Rightarrow> nat" where
  "len bs = sum_list (map block_len bs)"

definition cost :: "block list \<Rightarrow> int" where
  "cost bs = sum_list (map block_cost bs)"

fun wf_block :: "block \<Rightarrow> bool" where
  "wf_block (Loop trip body) = (2 \<le> trip \<and> trip \<le> 8 \<and> 1 \<le> length body \<and> length body \<le> 5
     \<and> (\<forall>i \<in> set body. plain_op i))"
| "wf_block _ = True"

lemma block_lists [simp]:
  "words [] = []" "words (b # bs) = block_words b @ words bs" "words (bs @ cs) = words bs @ words cs"
  "len [] = 0" "len (b # bs) = block_len b + len bs" "len (bs @ cs) = len bs + len cs"
  "cost [] = 0" "cost (b # bs) = block_cost b + cost bs" "cost (bs @ cs) = cost bs + cost cs"
  by (simp_all add: words_def len_def cost_def)

lemma length_block_words [simp]: "length (block_words b) = block_len b"
  by (cases b) (simp_all add: loop_ops_def)

lemma length_words [simp]: "length (words bs) = len bs"
  by (induction bs) auto

text \<open>The loop ranges and the open slots of a block list that starts at word \<open>p\<close>.\<close>

fun ranges_of :: "int \<Rightarrow> block list \<Rightarrow> ranges" where
  "ranges_of p [] = []"
| "ranges_of p (Loop trip body # bs) =
     (p, p + int (length body + 3)) # ranges_of (p + int (length body + 3)) bs"
| "ranges_of p (b # bs) = ranges_of (p + 1) bs"

fun holes_of :: "int \<Rightarrow> block list \<Rightarrow> int list" where
  "holes_of p [] = []"
| "holes_of p (Hole # bs) = p # holes_of (p + 1) bs"
| "holes_of p (b # bs) = holes_of (p + int (block_len b)) bs"

text \<open>The words at which a block starts, and the word behind the last block.\<close>

fun starts_of :: "int \<Rightarrow> block list \<Rightarrow> int list" where
  "starts_of p [] = [p]"
| "starts_of p (b # bs) = p # starts_of (p + int (block_len b)) bs"

lemma ranges_append: "ranges_of p (bs @ cs) = ranges_of p bs @ ranges_of (p + int (len bs)) cs"
  by (induction p bs rule: ranges_of.induct) (auto simp: algebra_simps)

lemma holes_append: "holes_of p (bs @ cs) = holes_of p bs @ holes_of (p + int (len bs)) cs"
  by (induction p bs rule: holes_of.induct) (auto simp: algebra_simps)

lemma outside_ranges_start:
  "p \<le> q \<Longrightarrow> q \<le> p + int (len bs) \<Longrightarrow> \<not> in_any_range q (ranges_of p bs) \<Longrightarrow> q \<in> set (starts_of p bs)"
proof (induction bs arbitrary: p)
  case (Cons b bs)
  then show ?case by (cases b; cases "q = p") (auto simp: in_any_range_def)
qed auto

end
