(* ===== verification/Gen_Structure.thy ===== *)
theory Gen_Structure
  imports Gen_Spec
begin

text \<open>
  The structure of every generated program: pass 1 of \<open>random_program\<close> lays out loop blocks and
  holes, pass 2 fills the holes, and the result is the two base-register instructions followed by
  the words of a block list whose single instructions are straight-line or branch forward to a
  block start. Shown by invariants of \<open>place_blocks\<close> and \<open>fill_slots\<close>.
\<close>

section \<open>A loop block\<close>

lemma gen_body_ops:
  "gen_body k W t = (ws, W', t') \<Longrightarrow> window_set W \<Longrightarrow>
   \<exists>body. ws = map encode body \<and> length body = k \<and> (\<forall>i \<in> set body. plain_op i)
     \<and> window_set W' \<and> W \<subseteq> W'"
proof (induction k arbitrary: W t ws W' t')
  case 0
  then show ?case by simp
next
  case (Suc k)
  obtain w W1 t1 ws2 W2 t2 where
    g: "gen_one_instr False 0 0 [] W t = (w, W1, t1)" "gen_body k W1 t1 = (ws2, W2, t2)"
    and r: "ws = w # ws2" "W' = W2"
    using Suc.prems(1) by (auto split: prod.splits)
  obtain i where i: "w = encode i" "plain_op i" "window_set W1" "W \<subseteq> W1"
    using gen_one_instr_op [OF g(1) Suc.prems(2)] by auto
  from Suc.IH [OF g(2) i(3)] obtain body where
    "ws2 = map encode body" "length body = k" "\<forall>i \<in> set body. plain_op i"
    "window_set W2" "W1 \<subseteq> W2"
    by blast
  with i r show ?case by (intro exI [of _ "i # body"]) auto
qed

lemma random_loop_block_block:
  assumes "random_loop_block W k t = (Some (ws, rc), W', t')" "window_set W"
  shows "\<exists>trip body. map Some ws = block_words (Loop trip body) \<and> wf_block (Loop trip body)
    \<and> rc = block_cost (Loop trip body) \<and> int (length ws) \<le> k \<and> window_set W' \<and> W \<subseteq> W'"
proof -
  let ?m = "min 5 (k - 3)"
  obtain bl t1 trip t2 body t3 where
    m: "1 \<le> ?m" and d: "randint 1 ?m t = (bl, t1)" "randint 2 8 t1 = (trip, t2)"
      "gen_body (nat bl) W t2 = (body, W', t3)"
    and ws: "ws = [enc_i 0x13 0 30 0 trip] @ body
        @ [enc_i 0x13 0 30 30 (-1), enc_b 0x63 1 30 0 (- (bl + 1) * 4)]"
    and rc: "rc = 1 + trip * (bl + 2)"
    using assms(1)
    by (auto simp: random_loop_block_def LOOP_BODY_WORDS_def LOOP_TRIP_COUNTS_def Let_def
        split: if_splits prod.splits)
  have bl: "1 \<le> bl" "bl \<le> ?m" using randint_bounds [OF m d(1)] by simp_all
  have trip: "2 \<le> trip" "trip \<le> 8" using randint_bounds [OF _ d(2)] by simp_all
  obtain ops where ops: "body = map encode ops" "length ops = nat bl" "\<forall>i \<in> set ops. plain_op i"
    "window_set W'" "W \<subseteq> W'"
    using gen_body_ops [OF d(3) assms(2)] by blast
  have len: "int (length ops) = bl" using ops(2) bl by simp
  have "map Some ws = block_words (Loop trip ops)"
    using ws ops(1) len by (simp add: loop_ops_def)
  moreover have "wf_block (Loop trip ops)"
    using trip bl len ops(3) by auto
  moreover have "int (length ws) \<le> k"
    using ws ops(1) len bl by simp
  ultimately show ?thesis
    using rc len ops(4,5) by auto
qed

section \<open>Pass 1\<close>

definition layout_only :: "block list \<Rightarrow> bool" where
  "layout_only bs \<longleftrightarrow> (\<forall>b \<in> set bs. wf_block b \<and> (\<forall>i. b \<noteq> Single i))"

text \<open>What pass 1 has recorded when it stands at word \<open>start + len bs\<close>.\<close>

definition placed :: "int \<Rightarrow> int option list \<Rightarrow> int \<Rightarrow> block list \<Rightarrow> pass1 \<Rightarrow> bool" where
  "placed start pre n bs s \<longleftrightarrow>
     layout_only bs \<and> start + int (len bs) \<le> n
     \<and> instrs s = pre @ words bs @ replicate (nat (n - (start + int (len bs)))) None
     \<and> loop_ranges s = ranges_of start bs
     \<and> single_slots s = holes_of start bs
     \<and> expected_retire s = cost bs"

lemma splice_in_at:
  assumes "i = length xs" "length ws \<le> m"
  shows "splice_in i ws (xs @ replicate m None) = xs @ ws @ replicate (m - length ws) None"
  using assms by (simp add: splice_in_def)

lemma placed_loop:
  assumes "placed start pre n bs s" "int (length pre) = start"
    and "map Some ws = block_words (Loop trip body)" "wf_block (Loop trip body)"
    and "rc = block_cost (Loop trip body)" "int (length ws) \<le> n - (start + int (len bs))"
  shows "placed start pre n (bs @ [Loop trip body])
    (s\<lparr>instrs := splice_in (nat (start + int (len bs))) (map Some ws) (instrs s),
       loop_ranges := loop_ranges s @ [(start + int (len bs), start + int (len bs) + int (length ws))],
       expected_retire := expected_retire s + rc\<rparr>)"
proof -
  let ?m = "nat (n - (start + int (len bs)))"
  have lw: "length ws = length body + 3"
    using arg_cong [OF assms(3), of length] by (simp add: loop_ops_def)
  have "splice_in (nat (start + int (len bs))) (map Some ws) ((pre @ words bs) @ replicate ?m None)
      = (pre @ words bs) @ map Some ws @ replicate (?m - length ws) None"
    using assms(2,6) by (subst splice_in_at) (simp_all, linarith?)
  moreover have "?m - length ws = nat (n - (start + int (len (bs @ [Loop trip body]))))"
    using lw by simp
  ultimately have "splice_in (nat (start + int (len bs))) (map Some ws) (instrs s)
      = pre @ words (bs @ [Loop trip body])
        @ replicate (nat (n - (start + int (len (bs @ [Loop trip body]))))) None"
    using assms(1,3) by (simp only: placed_def append_assoc block_lists append_Nil2)
  then show ?thesis
    using assms(1,4-6) lw
    unfolding placed_def layout_only_def
    by (simp add: ranges_append holes_append del: wf_block.simps)
qed

lemma placed_hole:
  assumes "placed start pre n bs s" "start + int (len bs) < n"
  shows "placed start pre n (bs @ [Hole])
    (s\<lparr>single_slots := single_slots s @ [start + int (len bs)],
       expected_retire := expected_retire s + 1\<rparr>)"
proof -
  have "nat (n - (start + int (len bs))) = Suc (nat (n - (start + int (len bs)) - 1))"
    using assms(2) by simp
  then show ?thesis
    using assms by (auto simp: placed_def layout_only_def ranges_append holes_append algebra_simps)
qed

lemma place_blocks_placed:
  "place_blocks n i s W t = (s', W', t') \<Longrightarrow> placed start pre n bs s \<Longrightarrow> i = start + int (len bs) \<Longrightarrow>
   int (length pre) = start \<Longrightarrow> window_set W \<Longrightarrow>
   \<exists>bs'. placed start pre n bs' s' \<and> start + int (len bs') = n \<and> window_set W'"
proof (induction n i s W t arbitrary: bs rule: place_blocks.induct)
  case (1 n i s W t)
  show ?case
  proof (cases "i < n")
    case False
    then have "s' = s" "W' = W"
      using 1(3) by (simp_all add: place_blocks.simps [of n i s W t])
    then show ?thesis
      using False 1(4-7) by (auto simp: placed_def intro!: exI [of _ bs])
  next
    case True
    obtain k t1 where k: "random53 t = (k, t1)" by (metis prod.exhaust)
    obtain blk W2 t2 where
      b: "(if below_LOOP_BLOCK_PROB k then random_loop_block W (n - i) t1 else (None, W, t1)) = (blk, W2, t2)"
      by (metis prod.exhaust)
    show ?thesis
    proof (cases blk)
      case None
      then have W2: "window_set W2"
        using b 1(7) by (auto simp: random_loop_block_def Let_def split: if_splits prod.splits)
      have r: "place_blocks n (i + 1) (s\<lparr>single_slots := single_slots s @ [i],
          expected_retire := expected_retire s + 1\<rparr>) W2 t2 = (s', W', t')"
        using 1(3) True k b None by (simp add: place_blocks.simps [of n i])
      have "placed start pre n (bs @ [Hole]) (s\<lparr>single_slots := single_slots s @ [i],
          expected_retire := expected_retire s + 1\<rparr>)"
        using placed_hole [OF 1(4)] True 1(5) by simp
      from 1(1) [OF True refl k [symmetric] refl b [symmetric] refl None r this] 1(5,6) W2
      show ?thesis by simp
    next
      case (Some p)
      obtain ws rc where p: "p = (ws, rc)" by (cases p)
      have rb: "random_loop_block W (n - i) t1 = (Some (ws, rc), W2, t2)"
        using b Some p by (auto split: if_splits)
      obtain trip body where lb: "map Some ws = block_words (Loop trip body)"
        "wf_block (Loop trip body)" "rc = block_cost (Loop trip body)"
        "int (length ws) \<le> n - i" "window_set W2"
        using random_loop_block_block [OF rb 1(7)] by blast
      let ?s = "s\<lparr>instrs := splice_in (nat i) (map Some ws) (instrs s),
        loop_ranges := loop_ranges s @ [(i, i + int (length ws))],
        expected_retire := expected_retire s + rc\<rparr>"
      have r: "place_blocks n (i + int (length ws)) ?s W2 t2 = (s', W', t')"
        using 1(3) True k b Some p by (simp add: place_blocks.simps [of n i])
      have pl: "placed start pre n (bs @ [Loop trip body]) ?s"
        using placed_loop [OF 1(4,6) lb(1-3)] lb(4) 1(5) by simp
      have "length ws = length body + 3"
        using arg_cong [OF lb(1), of length] by (simp add: loop_ops_def)
      with 1(2) [OF True refl k [symmetric] refl b [symmetric] refl Some p [symmetric] r pl] 1(5,6) lb(5)
      show ?thesis by simp
    qed
  qed
qed

section \<open>Pass 2\<close>

fun filled :: "int \<Rightarrow> int \<Rightarrow> ranges \<Rightarrow> block list \<Rightarrow> bool" where
  "filled p n rs [] = True"
| "filled p n rs (Hole # bs) = False"
| "filled p n rs (Single i # bs) = (slot_op p n rs i \<and> filled (p + 1) n rs bs)"
| "filled p n rs (Loop trip body # bs) =
     (wf_block (Loop trip body) \<and> filled (p + int (block_len (Loop trip body))) n rs bs)"

lemma fill_slots_filled:
  "fill_slots n rs (holes_of p bs) (pre @ words bs) W t = (ins, W', t') \<Longrightarrow> layout_only bs \<Longrightarrow>
   int (length pre) = p \<Longrightarrow> p + int (len bs) \<le> n \<Longrightarrow> window_set W \<Longrightarrow>
   \<exists>bs'. ins = pre @ words bs' \<and> filled p n rs bs' \<and> ranges_of p bs' = ranges_of p bs
     \<and> len bs' = len bs \<and> cost bs' = cost bs \<and> window_set W'"
proof (induction bs arbitrary: p pre W t)
  case Nil
  then show ?case by (auto intro!: exI [of _ "[]"])
next
  case (Cons b bs)
  have lo: "layout_only bs" and wb: "wf_block b" and ns: "\<And>i. b \<noteq> Single i"
    using Cons.prems(2) by (auto simp: layout_only_def)
  show ?case
  proof (cases b)
    case (Single i)
    with ns [of i] show ?thesis by simp
  next
    case (Loop trip body)
    have "fill_slots n rs (holes_of (p + int (block_len b)) bs) ((pre @ block_words b) @ words bs) W t
        = (ins, W', t')"
      using Cons.prems(1) Loop by simp
    from Cons.IH [OF this lo] Cons.prems(3-5) obtain bs' where
      bs': "ins = (pre @ block_words b) @ words bs'" "filled (p + int (block_len b)) n rs bs'"
        "ranges_of (p + int (block_len b)) bs' = ranges_of (p + int (block_len b)) bs"
        "len bs' = len bs" "cost bs' = cost bs" "window_set W'"
      by auto
    then show ?thesis
      using Loop wb by (intro exI [of _ "b # bs'"]) auto
  next
    case Hole
    obtain w W1 t1 where g: "gen_one_instr True p n rs W t = (w, W1, t1)"
      by (metis prod.exhaust)
    have pn: "p < n" using Cons.prems(4) Hole by simp
    obtain i where i: "w = encode i" "slot_op p n rs i" "window_set W1"
      using gen_one_instr_op [OF g Cons.prems(5)] pn by auto
    have "nat p = length pre" using Cons.prems(3) by auto
    then have "(pre @ words (b # bs))[nat p := Some w] = (pre @ block_words (Single i)) @ words bs"
      using Hole i(1) by (simp add: list_update_append)
    then have "fill_slots n rs (holes_of (p + 1) bs) ((pre @ block_words (Single i)) @ words bs) W1 t1
        = (ins, W', t')"
      using Cons.prems(1) Hole g by simp
    from Cons.IH [OF this lo] Cons.prems(3,4) Hole i(3) obtain bs' where
      bs': "ins = (pre @ block_words (Single i)) @ words bs'" "filled (p + 1) n rs bs'"
        "ranges_of (p + 1) bs' = ranges_of (p + 1) bs"
        "len bs' = len bs" "cost bs' = cost bs" "window_set W'"
      by auto
    then show ?thesis
      using Hole i(2) by (intro exI [of _ "Single i # bs'"]) auto
  qed
qed

section \<open>The whole program\<close>

definition base_ops :: "int \<Rightarrow> op list" where
  "base_ops n =
     (let (hi20, lo12) = split_offset ((31 + n + 1) * 4 - AUIPC_PC + LOAD_STORE_WINDOW)
      in OpAuipc 31 hi20 # (if n > 1 then [OpI 0 31 31 lo12] else []))"

definition start_word :: "int \<Rightarrow> int" where
  "start_word n = (if n > 1 then 2 else 1)"

lemma random_program_blocks:
  assumes "random_program n t = (Inr (ins, r), t')"
  shows "\<exists>bs. ins = map (\<lambda>i. Some (encode i)) (base_ops n) @ words bs
    \<and> filled (start_word n) n (ranges_of (start_word n) bs) bs
    \<and> start_word n + int (len bs) = n \<and> r = cost bs \<and> 1 \<le> n
    \<and> (31 + n + 1) * 4 \<le> DATA_MEM_BYTES - 4 - 2 * LOAD_STORE_WINDOW"
proof -
  let ?p = "start_word n"
  let ?pre = "map (\<lambda>i. Some (encode i)) (base_ops n)"
  have n: "1 \<le> n" and fit: "(31 + n + 1) * 4 \<le> DATA_MEM_BYTES - 4 - 2 * LOAD_STORE_WINDOW"
    using assms by (auto simp: random_program_def Let_def split: if_splits prod.splits)
  obtain hi20 lo12 where so: "split_offset ((31 + n + 1) * 4 - AUIPC_PC + LOAD_STORE_WINDOW) = (hi20, lo12)"
    by (metis prod.exhaust)
  let ?ins0 = "(replicate (nat n) None)[0 := Some (enc_u 0x17 31 hi20)]"
  let ?ins1 = "if n > 1 then ?ins0[1 := Some (enc_i 0x13 0x0 31 31 lo12)] else ?ins0"
  let ?s0 = "\<lparr>instrs = ?ins1, expected_retire = 0, loop_ranges = [], single_slots = []\<rparr>"
  obtain s W1 t1 where pb: "place_blocks n ?p ?s0 {} t = (s, W1, t1)" by (metis prod.exhaust)
  obtain ins' W2 t2 where
    fs: "fill_slots n (loop_ranges s) (single_slots s) (instrs s) W1 t1 = (ins', W2, t2)"
    by (metis prod.exhaust)
  have res: "ins = ins'" "r = expected_retire s"
    using assms n fit so pb fs by (simp_all add: random_program_def Let_def start_word_def)
  have n1: "nat n = Suc (nat (n - 1))" and n2: "n > 1 \<Longrightarrow> nat (n - 1) = Suc (nat (n - 2))"
    using n by simp_all
  have pre: "?ins1 = ?pre @ replicate (nat (n - ?p)) None" "int (length ?pre) = ?p"
    using n so n1 n2 by (auto simp: base_ops_def start_word_def)
  have "placed ?p ?pre n [] ?s0"
    using pre n by (simp add: placed_def layout_only_def start_word_def)
  from place_blocks_placed [OF pb this _ pre(2)] obtain bs where
    bs: "placed ?p ?pre n bs s" "?p + int (len bs) = n" "window_set W1" by auto
  have "fill_slots n (ranges_of ?p bs) (holes_of ?p bs) (?pre @ words bs) W1 t1 = (ins', W2, t2)"
    using fs bs(1,2) by (simp add: placed_def)
  from fill_slots_filled [OF this _ pre(2)] bs obtain bs' where
    "ins' = ?pre @ words bs'" "filled ?p n (ranges_of ?p bs) bs'" "ranges_of ?p bs' = ranges_of ?p bs"
    "len bs' = len bs" "cost bs' = cost bs"
    by (auto simp: placed_def)
  with res bs n fit show ?thesis
    by (intro exI [of _ bs']) (auto simp: placed_def)
qed

end
