(* ===== verification/Gen_Exec.thy ===== *)
theory Gen_Exec
  imports Gen_Structure
begin

text \<open>
  Generated programs on the machine of \<open>src/main.cpp\<close>, which keeps code and data in one memory:
  one step of an encoded instruction, runs that keep the program text and the base register
  intact, bounded loops, and forward branches. \<open>safe_run P m c d\<close> is a run of \<open>m\<close> turns from \<open>c\<close> to
  \<open>d\<close> through states that all hold the program \<open>P\<close> unchanged.
\<close>

section \<open>Addresses and the program text\<close>

abbreviation addr :: "int \<Rightarrow> u32w" where
  "addr i \<equiv> word_of_int (4 * i)"

definition program_size :: "int list \<Rightarrow> int" where
  "program_size P = 4 * int (length P)"

text \<open>The bound \<open>max_valid_end\<close> of the generator.\<close>

definition roomy :: "int list \<Rightarrow> bool" where
  "roomy P \<longleftrightarrow> program_size P \<le> 4028"

definition code :: "int list \<Rightarrow> cpu \<Rightarrow> bool" where
  "code P c \<longleftrightarrow> roomy P \<and> registers c 0 = 0
     \<and> (\<forall>i. 0 \<le> i \<and> i < int (length P) \<longrightarrow>
          fetch_instruction c (addr i) = Some (word_of_int (P ! nat i)))"

definition base_set :: "int list \<Rightarrow> cpu \<Rightarrow> bool" where
  "base_set P c \<longleftrightarrow> registers c 31 = word_of_int (program_size P + LOAD_STORE_WINDOW)"

lemma uint_woi: "0 \<le> x \<Longrightarrow> x < 2 ^ 32 \<Longrightarrow> uint (word_of_int x :: u32w) = x"
  by (simp add: uint_word_of_int)

lemma unat_woi_nonneg: "0 \<le> x \<Longrightarrow> x < 2 ^ 32 \<Longrightarrow> unat (word_of_int x :: u32w) = nat x"
  by (simp add: unat_eq_nat_uint uint_word_of_int)

lemma woi_less_4096: "0 \<le> x \<Longrightarrow> x < 2 ^ 32 \<Longrightarrow> (word_of_int x :: u32w) < 4096 \<longleftrightarrow> x < 4096"
  by (simp add: word_less_def uint_word_of_int)

lemma woi_add: "word_of_int x + numeral k = (word_of_int (x + numeral k) :: u32w)"
  "word_of_int x + 1 = (word_of_int (x + 1) :: u32w)"
  by simp_all

lemma mem_get_woi:
  "0 \<le> x \<Longrightarrow> x < 4096 \<Longrightarrow> mem_get c (word_of_int x) = Some (memory c (nat x))"
  by (simp add: mem_get_def woi_less_4096 unat_woi_nonneg)

lemma mem_set_woi:
  "0 \<le> x \<Longrightarrow> x < 4096 \<Longrightarrow>
   mem_set (word_of_int x) v c = Some (c\<lparr>memory := (memory c)(nat x := v)\<rparr>)"
  by (simp add: mem_set_def woi_less_4096 unat_woi_nonneg)

text \<open>The word at byte address \<open>x\<close>.\<close>

definition word_at :: "(nat \<Rightarrow> 8 word) \<Rightarrow> nat \<Rightarrow> u32w" where
  "word_at m x = ucast (m x) OR push_bit 8 (ucast (m (x + 1))) OR push_bit 16 (ucast (m (x + 2)))
     OR push_bit 24 (ucast (m (x + 3)))"

lemma fetch_woi:
  assumes "0 \<le> x" "x + 3 < 4096"
  shows "fetch_instruction c (word_of_int x) = Some (word_at (memory c) (nat x))"
proof -
  have "nat (x + 1) = nat x + 1" "nat (x + 2) = nat x + 2" "nat (x + 3) = nat x + 3"
    using assms(1) by simp_all
  then show ?thesis
    using assms by (simp add: fetch_instruction_def woi_add mem_get_woi word_at_def del: of_int_add)
qed

definition put_at :: "nat \<Rightarrow> u32w \<Rightarrow> (nat \<Rightarrow> 8 word) \<Rightarrow> nat \<Rightarrow> 8 word" where
  "put_at x v m = m(x := byte_of 0 v, x + 1 := byte_of 1 v, x + 2 := byte_of 2 v, x + 3 := byte_of 3 v)"

lemma put_word_woi:
  assumes "0 \<le> x" "x + 3 < 4096"
  shows "put_word (word_of_int x) v c = Some (c\<lparr>memory := put_at (nat x) v (memory c)\<rparr>)"
proof -
  have "nat (x + 1) = nat x + 1" "nat (x + 2) = nat x + 2" "nat (x + 3) = nat x + 3"
    using assms(1) by simp_all
  then show ?thesis
    using assms by (simp add: put_word_def woi_add mem_set_woi put_at_def del: of_int_add)
qed

lemma put_at_below: "y < x \<Longrightarrow> put_at x v m y = m y"
  by (simp add: put_at_def)

lemma word_at_cong:
  "m x = m' x \<Longrightarrow> m (x + 1) = m' (x + 1) \<Longrightarrow> m (x + 2) = m' (x + 2) \<Longrightarrow> m (x + 3) = m' (x + 3) \<Longrightarrow>
   word_at m x = word_at m' x"
  by (simp add: word_at_def)

text \<open>A change that keeps x0 and the bytes of the program keeps the program.\<close>

lemma code_keep:
  assumes "code P c" "registers c' 0 = 0"
    and "\<And>y. int y < program_size P \<Longrightarrow> memory c' y = memory c y"
  shows "code P c'"
  unfolding code_def
proof (intro conjI allI impI)
  show "roomy P" "registers c' 0 = 0" using assms(1,2) by (simp_all add: code_def)
  fix i assume i: "0 \<le> i \<and> i < int (length P)"
  then have b: "0 \<le> 4 * i" "4 * i + 3 < program_size P" by (simp_all add: program_size_def)
  moreover have lim: "4 * i + 3 < 4096" using b \<open>roomy P\<close> by (simp add: roomy_def)
  ultimately have "word_at (memory c') (nat (4 * i)) = word_at (memory c) (nat (4 * i))"
    by (intro word_at_cong assms(3)) simp_all
  moreover have "fetch_instruction c (addr i) = Some (word_of_int (P ! nat i))"
    using assms(1) i by (simp add: code_def)
  ultimately show "fetch_instruction c' (addr i) = Some (word_of_int (P ! nat i))"
    using b(1) lim by (simp only: fetch_woi)
qed

section \<open>One turn\<close>

lemma encode_nonzero:
  assumes "wf_op i"
  shows "(word_of_int (encode i) :: u32w) \<noteq> 0"
proof
  assume "(word_of_int (encode i) :: u32w) = 0"
  then have "f_opcode (word_of_int (encode i)) = 0" by (simp add: f_opcode_def)
  moreover have "f_opcode (word_of_int (encode i)) \<noteq> 0"
    using assms
    by (cases i)
      (auto simp: table_cases fields_r fields_i fields_shift fields_s fields_b fields_u fields_j)
  ultimately show False by simp
qed

lemma turn_encoded:
  assumes "code P c" "pc c = addr j" "0 \<le> j" "j < int (length P)" "P ! nat j = encode i" "wf_op i"
    and "exec_op i c = Some c'"
  shows "sim_step c = Go (c'\<lparr>pc := pc c' + 4\<rparr>)"
proof -
  have "4 * j < 4096" using assms(1,4) by (auto simp: code_def roomy_def program_size_def)
  then have "pc c < 4096" using assms(2,3) woi_less_4096 [of "4 * j"] by simp
  moreover have "fetch_instruction c (pc c) = Some (word_of_int (encode i))"
    using assms(1-5) by (simp add: code_def)
  ultimately show ?thesis
    using encode_nonzero [OF assms(6)] decode_encode_op [OF assms(6)] assms(7)
    by (simp add: sim_step_def)
qed

section \<open>Runs\<close>

text \<open>The machine stands at an instruction that accesses memory through the base register only.\<close>

fun accesses :: "op \<Rightarrow> bool" where
  "accesses (OpLoad rd rs1 d) = True"
| "accesses (OpStore rs1 rs2 d) = True"
| "accesses _ = False"

fun window_op :: "op \<Rightarrow> bool" where
  "window_op (OpLoad rd rs1 d) = (rs1 = 31 \<and> window_offset d)"
| "window_op (OpStore rs1 rs2 d) = (rs1 = 31 \<and> window_offset d)"
| "window_op _ = True"

definition tame :: "int list \<Rightarrow> cpu \<Rightarrow> bool" where
  "tame P c \<longleftrightarrow>
     (\<exists>j i. 0 \<le> j \<and> j < int (length P) \<and> pc c = addr j \<and> P ! nat j = encode i \<and> wf_op i
        \<and> window_op i \<and> (accesses i \<longrightarrow> base_set P c))"

lemma plain_window_op: "plain_op i \<Longrightarrow> window_op i"
  by (cases i) auto

lemma quiet_window_op: "\<not> accesses i \<Longrightarrow> window_op i"
  by (cases i) auto

inductive safe_run :: "int list \<Rightarrow> nat \<Rightarrow> cpu \<Rightarrow> cpu \<Rightarrow> bool" where
  here: "code P c \<Longrightarrow> safe_run P 0 c c"
| turn: "code P c \<Longrightarrow> tame P c \<Longrightarrow> sim_step c = Go c1 \<Longrightarrow> safe_run P m c1 d \<Longrightarrow> safe_run P (Suc m) c d"

inductive_cases safe_run_0: "safe_run P 0 c d"
inductive_cases safe_run_Suc: "safe_run P (Suc m) c d"

lemma safe_run_trans: "safe_run P m c d \<Longrightarrow> safe_run P k d e \<Longrightarrow> safe_run P (m + k) c e"
  by (induction rule: safe_run.induct) (auto intro: safe_run.turn)

lemma safe_run_one: "code P c \<Longrightarrow> tame P c \<Longrightarrow> sim_step c = Go d \<Longrightarrow> code P d \<Longrightarrow> safe_run P 1 c d"
  by (auto intro: safe_run.intros)

lemma safe_run_code: "safe_run P m c d \<Longrightarrow> code P c \<and> code P d"
  by (induction rule: safe_run.induct) auto

lemma safe_run_fuel: "safe_run P m c d \<Longrightarrow> run_sim (m + k) c = run_sim k d"
  by (induction rule: safe_run.induct) auto

lemma safe_run_prefix:
  "safe_run P m c d \<Longrightarrow> k \<le> m \<Longrightarrow> \<exists>e. run_sim k c = Running e \<and> code P e"
proof (induction arbitrary: k rule: safe_run.induct)
  case (here P c)
  then show ?case by simp
next
  case (turn P c c1 m d)
  show ?case
  proof (cases k)
    case 0
    with turn show ?thesis by simp
  next
    case (Suc k')
    with turn show ?thesis by auto
  qed
qed

section \<open>Straight-line instructions\<close>

lemma set_reg_keeps [simp]:
  "pc (set_reg r v c) = pc c" "memory (set_reg r v c) = memory c" "out (set_reg r v c) = out c"
  by (simp_all add: set_reg_def)

lemma set_reg_zero [simp]: "fits 5 r \<Longrightarrow> registers c 0 = 0 \<Longrightarrow> registers (set_reg r v c) 0 = 0"
  by (simp add: set_reg_def fits_def)

lemma set_reg_other: "0 \<le> r \<Longrightarrow> nat r \<noteq> k \<Longrightarrow> registers (set_reg r v c) k = registers c k"
  by (simp add: set_reg_def)

text \<open>What a straight-line instruction leaves alone.\<close>

definition frame :: "int list \<Rightarrow> cpu \<Rightarrow> cpu \<Rightarrow> bool" where
  "frame P c c' \<longleftrightarrow> code P c' \<and> pc c' = pc c \<and> out c' = out c
     \<and> registers c' 30 = registers c 30 \<and> registers c' 31 = registers c 31"

lemma frame_set_reg:
  assumes "code P c" "gen_reg_ok r"
  shows "frame P c (set_reg r v c)"
proof -
  have "0 \<le> r" "nat r \<noteq> 30" "nat r \<noteq> 31" using assms(2) by (auto simp: gen_reg_ok_def)
  then have "registers (set_reg r v c) 30 = registers c 30" "registers (set_reg r v c) 31 = registers c 31"
    by (simp_all add: set_reg_other)
  moreover have "code P (set_reg r v c)"
    by (rule code_keep [OF assms(1)])
      (use assms in \<open>simp_all add: gen_reg_fits code_def\<close>)
  ultimately show ?thesis by (simp add: frame_def)
qed

text \<open>Loads and stores through x31 land behind the program text and inside the memory.\<close>

lemma window_address:
  assumes "code P c" "base_set P c" "window_offset d"
  obtains x where "registers c 31 + word_of_int d = word_of_int x" "program_size P \<le> x" "x + 3 < 4096"
    "0 \<le> x"
proof
  let ?x = "program_size P + LOAD_STORE_WINDOW + d"
  show "registers c 31 + word_of_int d = word_of_int ?x"
    using assms(2) by (simp add: base_set_def)
  show "program_size P \<le> ?x" "?x + 3 < 4096" "0 \<le> ?x"
    using assms(1,3)
    by (auto simp: window_offset_def LOAD_STORE_WINDOW_def code_def roomy_def program_size_def)
qed

lemma plain_exec:
  assumes "plain_op i" "code P c" "base_set P c"
  shows "\<exists>c'. exec_op i c = Some c' \<and> frame P c c'"
proof (cases i)
  case (OpLoad rd rs1 d)
  with assms(1) have r: "gen_reg_ok rd" "rs1 = 31" "window_offset d" by simp_all
  obtain x where x: "registers c 31 + word_of_int d = word_of_int x" "0 \<le> x" "x + 3 < 4096"
    using window_address [OF assms(2,3) r(3)] by blast
  have "\<not> 4096 \<le> (word_of_int (x + 3) :: u32w)"
    using x(2,3) by (simp add: woi_less_4096 not_le del: of_int_add)
  then have "exec_op i c = Some (set_reg rd (word_at (memory c) (nat x)) c)"
    using OpLoad r x fetch_woi [OF x(2,3)] by (simp add: Let_def load_word_def)
  then show ?thesis using frame_set_reg [OF assms(2) r(1)] by blast
next
  case (OpStore rs1 rs2 d)
  with assms(1) have r: "rs1 = 31" "window_offset d" by simp_all
  obtain x where x: "registers c 31 + word_of_int d = word_of_int x" "0 \<le> x" "x + 3 < 4096"
    "program_size P \<le> x"
    using window_address [OF assms(2,3) r(2)] by blast
  let ?c = "c\<lparr>memory := put_at (nat x) (ireg c rs2) (memory c)\<rparr>"
  have "exec_op i c = Some ?c" using OpStore r x by (simp add: put_word_woi)
  moreover have "code P ?c"
    by (rule code_keep [OF assms(2)])
      (use assms(2) x(2,4) in \<open>auto simp: code_def put_at_below\<close>)
  ultimately show ?thesis by (simp add: frame_def)
qed (use assms in \<open>auto simp: frame_set_reg\<close>)

lemma plain_turn:
  assumes "plain_op i" "code P c" "base_set P c"
    and "pc c = addr j" "0 \<le> j" "j < int (length P)" "P ! nat j = encode i"
  obtains d where "safe_run P 1 c d" "pc d = addr (j + 1)" "base_set P d"
    "registers d 30 = registers c 30" "out d = out c"
proof -
  obtain c' where c': "exec_op i c = Some c'" "frame P c c'"
    using plain_exec [OF assms(1-3)] by blast
  let ?d = "c'\<lparr>pc := pc c' + 4\<rparr>"
  have "sim_step c = Go ?d"
    by (rule turn_encoded [OF assms(2,4-7) plain_wf [OF assms(1)] c'(1)])
  moreover have "code P ?d"
    by (rule code_keep [of P c']) (use c'(2) in \<open>auto simp: frame_def code_def\<close>)
  moreover have "tame P c"
    using assms(3-7) plain_wf [OF assms(1)] plain_window_op [OF assms(1)] by (auto simp: tame_def)
  ultimately have "safe_run P 1 c ?d" using assms(2) by (intro safe_run_one)
  then show thesis
    by (rule that) (use c'(2) assms(3,4) in \<open>simp_all add: frame_def base_set_def algebra_simps\<close>)
qed

end
