(* ===== verification/Gen_Run.thy ===== *)
theory Gen_Run
  imports Gen_Exec
begin

text \<open>
  Complete runs of generated programs on the machine of \<open>src/main.cpp\<close>: the loader, the register
  clearing preamble, the base register setup, blocks (bounded loops, forward branches) and the
  endless branch at the end. \<open>ready P j c\<close>: the machine stands at word \<open>j\<close> of the intact program
  \<open>P\<close> with the base register set and nothing reported.
\<close>

section \<open>Program text at a word index\<close>

fun holds :: "int list \<Rightarrow> int \<Rightarrow> int list \<Rightarrow> bool" where
  "holds P j [] = (0 \<le> j)"
| "holds P j (w # ws) = (0 \<le> j \<and> j < int (length P) \<and> P ! nat j = w \<and> holds P (j + 1) ws)"

lemma holds_append [simp]:
  "holds P j (xs @ ys) \<longleftrightarrow> holds P j xs \<and> holds P (j + int (length xs)) ys"
proof (induction xs arbitrary: j)
  case Nil
  show ?case by (cases ys) auto
next
  case (Cons x xs)
  then show ?case by (simp add: algebra_simps)
qed

lemma holds_middle: "holds (xs @ ys @ zs) (int (length xs)) ys"
proof (induction ys arbitrary: xs)
  case (Cons y ys)
  have "holds ((xs @ [y]) @ ys @ zs) (int (length (xs @ [y]))) ys" by (rule Cons.IH)
  then show ?case by (simp add: algebra_simps)
qed simp

section \<open>Single turns\<close>

lemma reg_turn:
  assumes "code P c" "pc c = addr j" "holds P j [encode i]" "wf_op i" "fits 5 r"
    and "exec_op i c = Some (set_reg r v c)" "\<not> accesses i"
  shows "safe_run P 1 c (set_reg r v c\<lparr>pc := addr (j + 1)\<rparr>)"
proof (rule safe_run_one [OF assms(1)])
  show "tame P c" using assms(2-4,7) quiet_window_op [OF assms(7)] by (auto simp: tame_def)
  have "sim_step c = Go (set_reg r v c\<lparr>pc := pc (set_reg r v c) + 4\<rparr>)"
    using assms(3) by (intro turn_encoded [OF assms(1,2) _ _ _ assms(4,6)]) auto
  then show "sim_step c = Go (set_reg r v c\<lparr>pc := addr (j + 1)\<rparr>)"
    using assms(2) by (simp add: algebra_simps)
  show "code P (set_reg r v c\<lparr>pc := addr (j + 1)\<rparr>)"
    by (rule code_keep [OF assms(1)]) (use assms(1,5) in \<open>auto simp: code_def\<close>)
qed

lemma code_pc: "code P c \<Longrightarrow> code P (c\<lparr>pc := a\<rparr>)"
  by (rule code_keep) (auto simp: code_def)

lemma pc_turn:
  assumes "code P c" "pc c = addr j" "holds P j [encode i]" "wf_op i"
    and "exec_op i c = Some (c\<lparr>pc := addr k - 4\<rparr>)" "\<not> accesses i"
  shows "safe_run P 1 c (c\<lparr>pc := addr k\<rparr>)"
proof (rule safe_run_one [OF assms(1)])
  show "tame P c" using assms(2-4,6) quiet_window_op [OF assms(6)] by (auto simp: tame_def)
  have "sim_step c = Go (c\<lparr>pc := addr k - 4\<rparr>\<lparr>pc := pc (c\<lparr>pc := addr k - 4\<rparr>) + 4\<rparr>)"
    using assms(3) by (intro turn_encoded [OF assms(1,2) _ _ _ assms(4,5)]) auto
  then show "sim_step c = Go (c\<lparr>pc := addr k\<rparr>)" by simp
  show "code P (c\<lparr>pc := addr k\<rparr>)"
    using assms(1) by (rule code_pc)
qed

definition ready :: "int list \<Rightarrow> int \<Rightarrow> cpu \<Rightarrow> bool" where
  "ready P j c \<longleftrightarrow> code P c \<and> base_set P c \<and> pc c = addr j \<and> out c = []"

lemma ready_pc: "ready P j c \<Longrightarrow> ready P k (c\<lparr>pc := addr k\<rparr>)"
  by (auto simp: ready_def base_set_def intro: code_pc)

lemma ready_plain:
  assumes "ready P j c" "holds P j [encode i]" "plain_op i"
  shows "\<exists>d. safe_run P 1 c d \<and> ready P (j + 1) d \<and> registers d 30 = registers c 30"
proof -
  have c: "code P c" "base_set P c" "pc c = addr j" "out c = []" using assms(1) by (simp_all add: ready_def)
  obtain d where "safe_run P 1 c d" "pc d = addr (j + 1)" "base_set P d"
    "registers d 30 = registers c 30" "out d = out c"
    by (rule plain_turn [OF assms(3) c(1,2,3)]) (use assms(2) in auto)
  then show ?thesis using c(4) safe_run_code by (auto simp: ready_def)
qed

lemma ready_body:
  "ready P j c \<Longrightarrow> holds P j (map encode ops) \<Longrightarrow> \<forall>i \<in> set ops. plain_op i \<Longrightarrow>
   \<exists>d. safe_run P (length ops) c d \<and> ready P (j + int (length ops)) d \<and> registers d 30 = registers c 30"
proof (induction ops arbitrary: j c)
  case Nil
  then have "code P c" by (simp add: ready_def)
  with Nil show ?case by (auto intro: safe_run.here)
next
  case (Cons i ops)
  have "holds P j [encode i]" using Cons.prems(2) by (cases ops) auto
  with Cons.prems obtain d where d: "safe_run P 1 c d" "ready P (j + 1) d" "registers d 30 = registers c 30"
    using ready_plain by (metis list.set_intros(1))
  from Cons.IH [OF d(2)] Cons.prems(2,3) obtain e where
    "safe_run P (length ops) d e" "ready P (j + 1 + int (length ops)) e" "registers e 30 = registers d 30"
    by auto
  with d safe_run_trans [OF d(1)] show ?case
    by (intro exI [of _ e]) (auto simp: algebra_simps)
qed

section \<open>Loops\<close>

lemma quiet: "\<not> accesses (OpI f3 rd rs1 imm)" "\<not> accesses (OpBranch f3 rs1 rs2 imm)" "\<not> accesses (OpAuipc rd imm)"
  by simp_all

lemma quiet_control: "control_op d i \<Longrightarrow> \<not> accesses i"
  by (cases i) auto

lemma ready_set_30:
  assumes "ready P j c" "holds P j [encode i]" "wf_op i" "exec_op i c = Some (set_reg 30 v c)" "\<not> accesses i"
  shows "\<exists>d. safe_run P 1 c d \<and> ready P (j + 1) d \<and> registers d 30 = v"
proof -
  have f: "fits 5 (30 :: int)" by (simp add: fits_def)
  have c: "code P c" "base_set P c" "pc c = addr j" "out c = []" using assms(1) by (simp_all add: ready_def)
  have "safe_run P 1 c (set_reg 30 v c\<lparr>pc := addr (j + 1)\<rparr>)"
    by (rule reg_turn [OF c(1,3) assms(2,3) f assms(4,5)])
  then show ?thesis
    using c(2,4) safe_run_code
    by (intro exI [of _ "set_reg 30 v c\<lparr>pc := addr (j + 1)\<rparr>"])
      (auto simp: ready_def base_set_def set_reg_def)
qed

lemma loop_wf:
  "wf_op (OpI 0 30 30 (-1))" "2 \<le> trip \<Longrightarrow> trip \<le> 8 \<Longrightarrow> wf_op (OpI 0 30 0 trip)"
  "k \<le> 5 \<Longrightarrow> wf_op (OpBranch 1 30 0 (- (int k + 1) * 4))"
  by (auto simp: I_ARITH_def BRANCHES_def fits_def sfits_def)

lemma loop_back:
  assumes "ready P j c" "holds P j [encode (OpBranch 1 30 0 (- (int k + 1) * 4))]" "k \<le> 5"
  shows "registers c 30 = 0 \<Longrightarrow>
      \<exists>d. safe_run P 1 c d \<and> ready P (j + 1) d \<and> registers d 30 = registers c 30"
    and "registers c 30 \<noteq> 0 \<Longrightarrow>
      \<exists>d. safe_run P 1 c d \<and> ready P (j - 1 - int k) d \<and> registers d 30 = registers c 30"
proof -
  let ?i = "OpBranch 1 30 0 (- (int k + 1) * 4)"
  have c: "code P c" "pc c = addr j" "registers c 0 = 0" using assms(1) by (simp_all add: ready_def code_def)
  note wf = loop_wf(3) [OF assms(3)]
  {
    assume "registers c 30 = 0"
    then have "exec_op ?i c = Some (c\<lparr>pc := addr (j + 1) - 4\<rparr>)"
      using c(2,3) by (simp add: branch_cond_def algebra_simps)
    from pc_turn [OF c(1,2) assms(2) wf this quiet(2)] ready_pc [OF assms(1), of "j + 1"]
    show "\<exists>d. safe_run P 1 c d \<and> ready P (j + 1) d \<and> registers d 30 = registers c 30"
      by (intro exI [of _ "c\<lparr>pc := addr (j + 1)\<rparr>"]) simp
  next
    assume "registers c 30 \<noteq> 0"
    then have "exec_op ?i c = Some (c\<lparr>pc := addr (j - 1 - int k) - 4\<rparr>)"
      using c(2,3) by (simp add: branch_cond_def algebra_simps)
    from pc_turn [OF c(1,2) assms(2) wf this quiet(2)] ready_pc [OF assms(1), of "j - 1 - int k"]
    show "\<exists>d. safe_run P 1 c d \<and> ready P (j - 1 - int k) d \<and> registers d 30 = registers c 30"
      by (intro exI [of _ "c\<lparr>pc := addr (j - 1 - int k)\<rparr>"]) simp
  }
qed

text \<open>The words behind the initialisation of a loop: body, decrement, branch back.\<close>

definition loop_tail :: "op list \<Rightarrow> int list" where
  "loop_tail body = map encode body
     @ [encode (OpI 0 30 30 (-1)), encode (OpBranch 1 30 0 (- (int (length body) + 1) * 4))]"

lemma loop_iteration:
  assumes "holds P j (loop_tail body)" "\<forall>i \<in> set body. plain_op i" "length body \<le> 5"
    and "ready P j c" "registers c 30 = word_of_int (int (Suc k))" "Suc k \<le> 8"
  shows "\<exists>d. safe_run P (length body + 2) c d \<and> registers d 30 = word_of_int (int k)
    \<and> ready P (if k = 0 then j + int (length body) + 2 else j) d"
proof -
  let ?l = "int (length body)"
  have h: "holds P j (map encode body)" "holds P (j + ?l) [encode (OpI 0 30 30 (-1))]"
    "holds P (j + ?l + 1) [encode (OpBranch 1 30 0 (- (?l + 1) * 4))]"
    using assms(1) by (simp_all add: loop_tail_def)
  obtain c1 where c1: "safe_run P (length body) c c1" "ready P (j + ?l) c1"
    "registers c1 30 = registers c 30"
    using ready_body [OF assms(4) h(1) assms(2)] by blast
  have "exec_op (OpI 0 30 30 (-1)) c1 = Some (set_reg 30 (word_of_int (int k)) c1)"
    using c1(3) assms(5) by (simp add: alu_r_def)
  from ready_set_30 [OF c1(2) h(2) loop_wf(1) this quiet(1)] obtain c2 where
    c2: "safe_run P 1 c1 c2" "ready P (j + ?l + 1) c2" "registers c2 30 = word_of_int (int k)"
    by blast
  have "registers c2 30 = 0 \<longleftrightarrow> k = 0"
    using c2(3) assms(6) dvd_imp_le [of "2 ^ 32" k] word_of_nat_eq_0_iff [where 'a = 32, of k] by auto
  with loop_back [OF c2(2) h(3) assms(3)] c2(3) obtain c3 where
    c3: "safe_run P 1 c2 c3" "ready P (if k = 0 then j + ?l + 2 else j) c3"
    "registers c3 30 = word_of_int (int k)"
    by (cases "k = 0") (auto simp: algebra_simps)
  have "safe_run P (length body + 1 + 1) c c3"
    by (rule safe_run_trans [OF safe_run_trans [OF c1(1) c2(1)] c3(1)])
  then show ?thesis using c3(2,3) by auto
qed

lemma loop_iterations:
  assumes "holds P j (loop_tail body)" "\<forall>i \<in> set body. plain_op i" "length body \<le> 5"
  shows "ready P j c \<Longrightarrow> registers c 30 = word_of_int (int (Suc k)) \<Longrightarrow> Suc k \<le> 8 \<Longrightarrow>
    \<exists>d. safe_run P (Suc k * (length body + 2)) c d \<and> ready P (j + int (length body) + 2) d"
proof (induction k arbitrary: c)
  case (0 c)
  then show ?case using loop_iteration [OF assms 0(1), of 0] by auto
next
  case (Suc k)
  obtain d where d: "safe_run P (length body + 2) c d" "registers d 30 = word_of_int (int (Suc k))"
    "ready P j d"
    using loop_iteration [OF assms Suc.prems] by auto
  obtain e where e: "safe_run P (Suc k * (length body + 2)) d e"
    "ready P (j + int (length body) + 2) e"
    using Suc.IH [OF d(3,2)] Suc.prems(3) by auto
  show ?case
    using safe_run_trans [OF d(1) e(1)] e(2) by (intro exI [of _ e]) (simp add: ac_simps)
qed

lemma ready_loop:
  assumes "ready P j c" "holds P j (map encode (loop_ops trip body))" "wf_block (Loop trip body)"
  shows "\<exists>d. safe_run P (nat (block_cost (Loop trip body))) c d
    \<and> ready P (j + int (block_len (Loop trip body))) d"
proof -
  have w: "2 \<le> trip" "trip \<le> 8" "length body \<le> 5" "\<forall>i \<in> set body. plain_op i"
    using assms(3) by auto
  have h: "holds P j [encode (OpI 0 30 0 trip)]" "holds P (j + 1) (loop_tail body)"
    using assms(2) by (simp_all add: loop_ops_def loop_tail_def)
  define k where "k = nat trip - 1"
  have k: "trip = int (Suc k)" "Suc k \<le> 8" using w by (simp_all add: k_def)
  have "registers c 0 = 0" using assms(1) by (simp add: ready_def code_def)
  then have "exec_op (OpI 0 30 0 trip) c = Some (set_reg 30 (word_of_int trip) c)"
    by (simp add: alu_r_def)
  from ready_set_30 [OF assms(1) h(1) loop_wf(2) [OF w(1,2)] this quiet(1)] obtain c1 where
    c1: "safe_run P 1 c c1" "ready P (j + 1) c1" "registers c1 30 = word_of_int (int (Suc k))"
    unfolding k(1) by blast
  obtain d where d: "safe_run P (Suc k * (length body + 2)) c1 d"
    "ready P (j + 1 + int (length body) + 2) d"
    using loop_iterations [OF h(2) w(4,3) c1(2,3) k(2)] by blast
  have "nat (block_cost (Loop trip body)) = 1 + Suc k * (length body + 2)"
    unfolding k(1) by (simp add: nat_add_distrib nat_mult_distrib flip: of_nat_Suc)
  with safe_run_trans [OF c1(1) d(1)] d(2) show ?thesis
    by (intro exI [of _ d]) (simp add: algebra_simps)
qed

section \<open>Blocks\<close>

lemma starts_first [simp]: "p \<in> set (starts_of p bs)"
  by (cases bs) auto

lemma block_cost_pos: "wf_block b \<Longrightarrow> 1 \<le> block_cost b"
  by (cases b) auto

text \<open>A single instruction ends at the next word or at an allowed target.\<close>

lemma ready_control:
  assumes "ready P (s + p) c" "holds P (s + p) [encode i]" "control_op d i"
    and "d \<in> set (candidates p n rs)" "p < n"
  shows "\<exists>e q. safe_run P 1 c e \<and> ready P (s + q) e \<and> (q = p + 1 \<or> q = p + d)"
proof -
  have wf: "wf_op i" using control_wf [OF assms(3)] candidates_sound [OF assms(4,5)] by simp
  have c: "code P c" "pc c = addr (s + p)" using assms(1) by (simp_all add: ready_def)
  have "\<exists>q. exec_op i c = Some (c\<lparr>pc := addr (s + q) - 4\<rparr>) \<and> (q = p + 1 \<or> q = p + d)"
  proof (cases i)
    case (OpBranch f3 rs1 rs2 imm)
    then show ?thesis
      using assms(3) c(2)
      by (cases "branch_cond f3 (ireg c rs1) (ireg c rs2)")
        (auto simp: algebra_simps intro: exI [of _ "p + d"] exI [of _ "p + 1"])
  next
    case (OpJal rd imm)
    then show ?thesis
      using assms(3) c(2) by (intro exI [of _ "p + d"]) (auto simp: set_reg_def algebra_simps)
  qed (use assms(3) in auto)
  then obtain q where q: "exec_op i c = Some (c\<lparr>pc := addr (s + q) - 4\<rparr>)" "q = p + 1 \<or> q = p + d"
    by blast
  from pc_turn [OF c assms(2) wf q(1) quiet_control [OF assms(3)]] ready_pc [OF assms(1), of "s + q"] q(2) show ?thesis by blast
qed

text \<open>
  The blocks start at word \<open>p\<close> of the random part, which itself starts at word \<open>s\<close> of the program.
  From any block start the program reaches its end, in at most as many turns as pass 1 has counted.
\<close>

lemma blocks_run:
  "filled p n rs bs \<Longrightarrow> holds P (s + p) (map the (words bs)) \<Longrightarrow> n = p + int (len bs) \<Longrightarrow>
   set (ranges_of p bs) \<subseteq> set rs \<Longrightarrow> q \<in> set (starts_of p bs) \<Longrightarrow> ready P (s + q) c \<Longrightarrow>
   \<exists>m d. safe_run P m c d \<and> ready P (s + n) d \<and> int m \<le> cost bs"
proof (induction bs arbitrary: p q c)
  case Nil
  then show ?case by (auto simp: ready_def intro!: exI [of _ 0] safe_run.here)
next
  case (Cons b bs)
  let ?p = "p + int (block_len b)"
  have h: "holds P (s + p) (map the (block_words b))" "holds P (s + ?p) (map the (words bs))"
    using Cons.prems(2) by (simp_all add: algebra_simps)
  have rest: "\<exists>m d. safe_run P m c d \<and> ready P (s + n) d \<and> int m \<le> cost bs"
    if "q' \<in> set (starts_of ?p bs)" "ready P (s + q') c" for q' c
  proof (rule Cons.IH [OF _ h(2) _ _ that])
    show "filled ?p n rs bs" using Cons.prems(1) by (cases b) auto
    show "n = ?p + int (len bs)" using Cons.prems(3) by simp
    show "set (ranges_of ?p bs) \<subseteq> set rs" using Cons.prems(4) by (cases b) auto
  qed
  have wf: "wf_block b" using Cons.prems(1) by (cases b) auto
  have step: ?case if s: "safe_run P k c c1" "ready P (s + q') c1" "q' \<in> set (starts_of ?p bs)"
    "int k \<le> block_cost b" for k c1 q'
  proof -
    obtain m d where "safe_run P m c1 d" "ready P (s + n) d" "int m \<le> cost bs"
      using rest [OF s(3,2)] by blast
    then show ?thesis
      using safe_run_trans [OF s(1)] s(4) by (intro exI [of _ "k + m"] exI [of _ d]) auto
  qed
  show ?case
  proof (cases "q = p")
    case False
    then have "q \<in> set (starts_of ?p bs)" using Cons.prems(5) by simp
    moreover have "safe_run P 0 c c" using Cons.prems(6) by (simp add: ready_def safe_run.here)
    ultimately show ?thesis using step Cons.prems(6) block_cost_pos [OF wf] by force
  next
    case True
    then have r: "ready P (s + p) c" using Cons.prems(6) by simp
    show ?thesis
    proof (cases b)
      case Hole
      with Cons.prems(1) show ?thesis by simp
    next
      case (Loop trip body)
      then have "holds P (s + p) (map encode (loop_ops trip body))" using h(1) by (simp add: comp_def)
      from ready_loop [OF r this] wf Loop obtain d where
        "safe_run P (nat (block_cost b)) c d" "ready P (s + ?p) d" by (auto simp only: add.assoc)
      with step block_cost_pos [OF wf] show ?thesis by auto
    next
      case (Single i)
      then have hi: "holds P (s + p) [encode i]" and sl: "slot_op p n rs i" and pn: "p < n"
        using h(1) Cons.prems(1,3) by auto
      from sl consider "plain_op i" | d where "d \<in> set (candidates p n rs)" "control_op d i"
        by (auto simp: slot_op_def)
      then show ?thesis
      proof cases
        case 1
        with ready_plain [OF r hi] Single obtain d where "safe_run P 1 c d" "ready P (s + ?p) d"
          by (auto simp: add.assoc)
        then show ?thesis using step Single by simp
      next
        case 2
        note cs = candidates_sound [OF 2(1) pn]
        have "\<not> in_any_range (p + d) (ranges_of ?p bs)"
          using cs(4) Cons.prems(4) Single by (auto simp: in_any_range_def)
        with cs Cons.prems(3) Single have "p + d \<in> set (starts_of ?p bs)"
          by (intro outside_ranges_start) auto
        with ready_control [OF r hi 2(2,1) pn] step Single show ?thesis
          by (metis block_cost.simps(3) block_len.simps(3) of_nat_1 order_refl starts_first)
      qed
    qed
  qed
qed

section \<open>Preamble, base register, epilogue\<close>

text \<open>The preamble clears x1 to x31 whatever they hold.\<close>

lemma clear_turns:
  "holds P j (map (\<lambda>r. enc_i 0x13 0x0 r 0 0) rs) \<Longrightarrow> \<forall>r \<in> set rs. fits 5 r \<Longrightarrow> code P c \<Longrightarrow> pc c = addr j \<Longrightarrow>
   \<exists>d. safe_run P (length rs) c d \<and> pc d = addr (j + int (length rs)) \<and> out d = out c
     \<and> memory d = memory c \<and> (\<forall>k. registers d k = (if int k \<in> set rs then 0 else registers c k))"
proof (induction rs arbitrary: j c)
  case Nil
  then show ?case by (auto intro: safe_run.here)
next
  case (Cons r rs)
  let ?i = "OpI 0 r 0 0"
  have r: "fits 5 r" "0 \<le> r" using Cons.prems(2) by (auto simp: fits_def)
  have "registers c 0 = 0" using Cons.prems(3) by (simp add: code_def)
  then have ex: "exec_op ?i c = Some (set_reg r 0 c)" by (simp add: alu_r_def)
  have wf: "wf_op ?i" using r by (auto simp: I_ARITH_def fits_def sfits_def)
  have h: "holds P j [encode ?i]" using Cons.prems(1) by (cases rs) auto
  let ?c = "set_reg r 0 c\<lparr>pc := addr (j + 1)\<rparr>"
  have c1: "safe_run P 1 c ?c" by (rule reg_turn [OF Cons.prems(3,4) h wf r(1) ex quiet(1)])
  from Cons.IH [of "j + 1" ?c] Cons.prems(1,2) safe_run_code [OF c1] obtain d where
    d: "safe_run P (length rs) ?c d" "pc d = addr (j + 1 + int (length rs))" "out d = out c"
      "memory d = memory c" "\<forall>k. registers d k = (if int k \<in> set rs then 0 else registers ?c k)"
    by auto
  have "\<forall>k. registers ?c k = (if int k = r then 0 else registers c k)"
    using r(2) \<open>registers c 0 = 0\<close> by (auto simp: set_reg_def)
  with d(5) have "\<forall>k. registers d k = (if int k \<in> set (r # rs) then 0 else registers c k)" by auto
  with d safe_run_trans [OF c1 d(1)] show ?case
    by (intro exI [of _ d]) (auto simp: algebra_simps)
qed

lemma split_offset_sum:
  assumes "split_offset x = (hi, lo)" "0 \<le> x" "x < 2 ^ 31 - 2048"
  shows "hi * 4096 + lo = x" "sfits 11 lo" "fits 20 hi"
proof -
  have m: "x AND 0xFFF = x mod 4096" "drop_bit 12 x = x div 4096"
    by (simp_all add: and_mask_take take_bit_eq_mod drop_bit_eq_div)
  have "(x AND 0xFFF) AND 0x800 \<noteq> 0 \<longleftrightarrow> bit (x AND 0xFFF) 11"
    using and_exp_eq_0_iff_not_bit [of "x AND 0xFFF" 11] by simp
  also have "\<dots> \<longleftrightarrow> odd (x mod 4096 div 2048)"
    by (simp add: m bit_iff_odd)
  also have "x mod 4096 div 2048 = (if 2048 \<le> x mod 4096 then 1 else 0)"
    using pos_mod_bound [of 4096 x] by (auto intro: int_div_pos_eq [where r = "x mod 4096 - 2048"])
  also have "odd (if 2048 \<le> x mod 4096 then 1 else 0 :: int) \<longleftrightarrow> 2048 \<le> x mod 4096"
    by simp
  finally have "(hi, lo) = (if 2048 \<le> x mod 4096 then (x div 4096 + 1, x mod 4096 - 4096)
      else (x div 4096, x mod 4096))"
    using assms(1) m by (simp add: split_offset_def Let_def)
  then show "hi * 4096 + lo = x" "sfits 11 lo" "fits 20 hi"
    using assms(2,3) by (auto simp: sfits_def fits_def split: if_splits)
qed

lemma epilogue_turn:
  assumes "code P c" "pc c = addr j" "holds P j [EPILOGUE]"
  shows "sim_step c = Go c"
proof -
  have wf: "wf_op (OpBranch 0 0 0 0)" by (simp add: BRANCHES_def fits_def sfits_def)
  have e: "encode (OpBranch 0 0 0 0) = EPILOGUE" by (simp add: EPILOGUE_def)
  have "exec_op (OpBranch 0 0 0 0) c = Some (c\<lparr>pc := pc c - 4\<rparr>)" by (simp add: branch_cond_def)
  from turn_encoded [OF assms(1,2) _ _ _ wf this] assms(3) e show ?thesis by simp
qed

end
