(* ===== verification/Gen_Safety.thy ===== *)
theory Gen_Safety
  imports Gen_Structure Gen_Run
begin

text \<open>
  Loading a generated program into the machine of \<open>src/main.cpp\<close> and running it: the loader puts
  the program text at address 0, the run never leaves the memory, never stops, never changes the
  program text, and arrives at the endless branch of the epilogue.
\<close>

section \<open>The loader\<close>

lemma word_bytes: "ucast (byte_of 0 v) OR push_bit 8 (ucast (byte_of 1 v))
    OR push_bit 16 (ucast (byte_of 2 v)) OR push_bit 24 (ucast (byte_of 3 v)) = (v :: u32w)"
proof (rule bit_word_eqI)
  fix n
  assume n: "n < LENGTH(32)"
  have m: "0xFF = (mask 8 :: u32w)" by (simp add: mask_eq_exp_minus_1)
  consider "n < 8" | "8 \<le> n" "n < 16" | "16 \<le> n" "n < 24" | "24 \<le> n" "n < 32"
    using n by force
  then show "bit (ucast (byte_of 0 v) OR push_bit 8 (ucast (byte_of 1 v))
      OR push_bit 16 (ucast (byte_of 2 v)) OR push_bit 24 (ucast (byte_of 3 v)) :: u32w) n = bit v n"
    by cases (auto simp: byte_of_def bit_simps m)
qed

lemma word_put: "word_at (put_at x v m) x = v"
  using word_bytes [of v] by (simp add: word_at_def put_at_def)

lemma word_put_above: "y + 4 \<le> x \<Longrightarrow> word_at (put_at x v m) y = word_at m y"
  by (intro word_at_cong put_at_below) simp_all

lemma load_words_text:
  "0 \<le> j \<Longrightarrow> j + int (length ws) < 1024 \<Longrightarrow>
   \<exists>m. load_words (addr j) (map word_of_int ws) c = Some (c\<lparr>memory := m\<rparr>)
     \<and> (\<forall>i < length ws. word_at m (4 * (nat j + i)) = word_of_int (ws ! i))
     \<and> (\<forall>y < 4 * nat j. m y = memory c y)"
proof (induction ws arbitrary: j c)
  case Nil
  show ?case by (auto intro: exI [of _ "memory c"])
next
  case (Cons w ws)
  let ?c = "c\<lparr>memory := put_at (nat (4 * j)) (word_of_int w) (memory c)\<rparr>"
  have "store_word (addr j) (word_of_int w) c = Some ?c"
    using Cons.prems woi_less_4096 [of "4 * j + 3"] put_word_woi [of "4 * j"]
    by (simp add: store_word_def)
  moreover have "addr j + 4 = addr (j + 1)" by simp
  moreover from Cons.IH [of "j + 1" ?c] Cons.prems obtain m where
    m: "load_words (addr (j + 1)) (map word_of_int ws) ?c = Some (?c\<lparr>memory := m\<rparr>)"
      "\<forall>i < length ws. word_at m (4 * (nat (j + 1) + i)) = word_of_int (ws ! i)"
      "\<forall>y < 4 * nat (j + 1). m y = memory ?c y"
    by auto
  ultimately have "load_words (addr j) (map word_of_int (w # ws)) c = Some (c\<lparr>memory := m\<rparr>)"
    by (simp del: of_int_add)
  moreover have j1: "nat (j + 1) = Suc (nat j)" "nat (4 * j) = 4 * nat j" using Cons.prems by simp_all
  have "word_at m (4 * (nat j + i)) = word_of_int ((w # ws) ! i)" if "i < length (w # ws)" for i
  proof (cases i)
    case 0
    have "word_at m (4 * nat j) = word_at (memory ?c) (4 * nat j)"
      by (intro word_at_cong) (use m(3) j1 in auto)
    with 0 j1 show ?thesis by (simp add: word_put)
  next
    case (Suc i')
    with m(2) that j1 show ?thesis by auto
  qed
  moreover have "\<forall>y < 4 * nat j. m y = memory c y"
    using m(3) j1 by (auto simp: put_at_below)
  ultimately show ?case by blast
qed

lemma load_words_code:
  assumes "roomy P"
  shows "\<exists>m. load_words 0 (map word_of_int P) init_cpu = Some (init_cpu\<lparr>memory := m\<rparr>)
    \<and> code P (init_cpu\<lparr>memory := m\<rparr>)"
proof -
  have l: "int (length P) < 1024" using assms by (simp add: roomy_def program_size_def)
  from load_words_text [of 0 P init_cpu] l obtain m where
    m: "load_words 0 (map word_of_int P) init_cpu = Some (init_cpu\<lparr>memory := m\<rparr>)"
      "\<forall>i < length P. word_at m (4 * i) = word_of_int (P ! i)"
    by auto
  have "code P (init_cpu\<lparr>memory := m\<rparr>)"
    unfolding code_def
  proof (intro conjI allI impI)
    fix i assume "0 \<le> i \<and> i < int (length P)"
    with m(2) l show "fetch_instruction (init_cpu\<lparr>memory := m\<rparr>) (addr i) = Some (word_of_int (P ! nat i))"
      by (subst fetch_woi) (auto simp: nat_mult_distrib)
  qed (use assms in \<open>simp_all add: init_cpu_def\<close>)
  with m(1) show ?thesis by blast
qed

section \<open>The base register\<close>

lemma base_run:
  assumes "code P c" "pc c = addr 31" "holds P 31 (map encode (base_ops n))" "out c = []"
    and "program_size P = (31 + n + 1) * 4" "1 \<le> n"
  shows "\<exists>d. safe_run P (nat (start_word n)) c d \<and> code P d \<and> pc d = addr (31 + start_word n) \<and> out d = []
    \<and> (1 < n \<longrightarrow> base_set P d)"
proof -
  let ?x = "(31 + n + 1) * 4 - AUIPC_PC + LOAD_STORE_WINDOW"
  obtain hi lo where so: "split_offset ?x = (hi, lo)" by (metis prod.exhaust)
  have "0 \<le> ?x" "?x < 2 ^ 31 - 2048"
    using assms(1,5,6) by (auto simp: AUIPC_PC_def LOAD_STORE_WINDOW_def code_def roomy_def)
  note s = split_offset_sum [OF so this]
  have f: "fits 5 (31 :: int)" by (simp add: fits_def)
  let ?v = "addr 31 + word_of_int (push_bit 12 hi) :: u32w"
  let ?c = "set_reg 31 ?v c\<lparr>pc := addr 32\<rparr>"
  have h: "holds P 31 [encode (OpAuipc 31 hi)]" using assms(3) so by (auto simp: base_ops_def Let_def)
  have "exec_op (OpAuipc 31 hi) c = Some (set_reg 31 ?v c)" using assms(2) by simp
  from reg_turn [OF assms(1,2) h _ f this quiet(3)] s(3) f have c1: "safe_run P 1 c ?c" by simp
  show ?thesis
  proof (cases "1 < n")
    case False
    with c1 safe_run_code [OF c1] assms(4) show ?thesis
      by (intro exI [of _ ?c]) (auto simp: start_word_def)
  next
    case True
    let ?d = "set_reg 31 (?v + word_of_int lo) ?c\<lparr>pc := addr 33\<rparr>"
    have h2: "holds P 32 [encode (OpI 0 31 31 lo)]"
      using assms(3) so True by (auto simp: base_ops_def Let_def)
    have "exec_op (OpI 0 31 31 lo) ?c = Some (set_reg 31 (?v + word_of_int lo) ?c)"
      by (simp add: alu_r_def set_reg_def)
    from reg_turn [OF _ _ h2 _ f this quiet(1)] s(2) f safe_run_code [OF c1] have "safe_run P 1 ?c ?d"
      by (simp add: I_ARITH_def)
    from safe_run_trans [OF c1 this] have r: "safe_run P 2 c ?d" by (simp add: numeral_2_eq_2)
    have "?v + word_of_int lo = word_of_int (124 + (hi * 4096 + lo))"
      by (simp add: push_bit_eq_mult)
    then have "base_set P ?d"
      unfolding s(1) base_set_def using assms(5) by (simp add: set_reg_def AUIPC_PC_def algebra_simps)
    with r safe_run_code [OF r] assms(4) True show ?thesis
      by (intro exI [of _ ?d]) (auto simp: start_word_def)
  qed
qed

section \<open>The whole program\<close>

lemma filled_words: "filled p n rs bs \<Longrightarrow> w \<in> set (words bs) \<Longrightarrow> \<exists>i. w = Some (encode i)"
proof (induction p n rs bs rule: filled.induct)
  case (4 p n rs trip body bs)
  then show ?case by auto
qed auto

lemma clear_encode: "clear_all_regs_preamble = map (\<lambda>r. encode (OpI 0 r 0 0)) [1..31]"
  by (simp add: clear_all_regs_preamble_def)

text \<open>The shape of a built program: no word is missing, every word has 32 bits.\<close>

lemma build_full_program_shape:
  assumes "build_full_program n t = (Inr (ws, r), t')"
  obtains bs P where "ws = map Some P"
    "P = clear_all_regs_preamble @ map encode (base_ops n) @ map the (words bs) @ [EPILOGUE]"
    "filled (start_word n) n (ranges_of (start_word n) bs) bs"
    "start_word n + int (len bs) = n" "r = 32 + cost bs" "1 \<le> n" "roomy P" "int (length P) = n + 32"
proof -
  obtain ins rp where rp: "random_program n t = (Inr (ins, rp), t')"
    and ws: "ws = map Some clear_all_regs_preamble @ ins @ [Some EPILOGUE]" "r = 31 + rp + 1"
    using assms by (auto simp: build_full_program_def split: prod.splits sum.splits)
  obtain bs where bs: "ins = map (\<lambda>i. Some (encode i)) (base_ops n) @ words bs"
    "filled (start_word n) n (ranges_of (start_word n) bs) bs"
    "start_word n + int (len bs) = n" "rp = cost bs" "1 \<le> n"
    "(31 + n + 1) * 4 \<le> DATA_MEM_BYTES - 4 - 2 * LOAD_STORE_WINDOW"
    using random_program_blocks [OF rp] by blast
  let ?P = "clear_all_regs_preamble @ map encode (base_ops n) @ map the (words bs) @ [EPILOGUE]"
  have "map (Some \<circ> the) (words bs) = words bs"
    using filled_words [OF bs(2)] by (intro map_idI) fastforce
  then have "ws = map Some ?P" using ws(1) bs(1) by (simp add: comp_def)
  moreover have "int (length (base_ops n)) = start_word n"
    by (auto simp: base_ops_def start_word_def Let_def split: prod.splits)
  then have l: "int (length ?P) = n + 32"
    using bs(3) by (simp add: clear_all_regs_preamble_def)
  moreover from l have "roomy ?P"
    using bs(6) by (simp add: roomy_def program_size_def DATA_MEM_BYTES_def LOAD_STORE_WINDOW_def)
  ultimately show thesis using that bs(2-5) ws(2) by simp
qed

lemma clear_run:
  assumes "holds P 0 clear_all_regs_preamble" "code P c" "pc c = 0"
  shows "\<exists>d. safe_run P 31 c d \<and> pc d = addr 31 \<and> out d = out c \<and> memory d = memory c
    \<and> (\<forall>k. registers d k = (if 1 \<le> k \<and> k \<le> 31 then 0 else registers c k))"
proof -
  have s: "int k \<in> set [1..31] \<longleftrightarrow> 1 \<le> k \<and> k \<le> 31" for k by (subst set_upto) auto
  have l: "length [1..31] = 31" by (subst length_upto) simp
  have f: "\<forall>r \<in> set [1..31]. fits 5 r" by (subst set_upto) (auto simp: fits_def)
  have "pc c = addr 0" using assms(3) by simp
  from clear_turns [OF assms(1) [unfolded clear_all_regs_preamble_def] f assms(2) this]
  show ?thesis unfolding l s by simp
qed

lemma built_program_reaches_end:
  assumes "build_full_program n t = (Inr (map Some P, r), t')" "code P c" "pc c = 0" "out c = []"
  shows "\<exists>m d. safe_run P m c d \<and> int m \<le> r + 1 \<and> sim_step d = Go d \<and> out d = []
    \<and> pc d = addr (31 + n)"
proof -
  obtain bs P' where sh: "map Some P = map Some P'"
    "P' = clear_all_regs_preamble @ map encode (base_ops n) @ map the (words bs) @ [EPILOGUE]"
    "filled (start_word n) n (ranges_of (start_word n) bs) bs"
    "start_word n + int (len bs) = n" "r = 32 + cost bs" "1 \<le> n" "roomy P'" "int (length P') = n + 32"
    using build_full_program_shape [OF assms(1)] by blast
  have "P' = P" using sh(1) by (metis map_injective option.inject injI)
  note sh = sh [unfolded this]
  have l: "length clear_all_regs_preamble = 31" by (simp add: clear_all_regs_preamble_def)
  have lb: "int (length (base_ops n)) = start_word n"
    by (auto simp: base_ops_def start_word_def Let_def split: prod.splits)
  have at_end: "start_word n + (int (len bs) + 31) = n + 31" using sh(4) by simp
  have "holds P 0 P" using holds_middle [of "[]" P "[]"] by simp
  then have "holds P 0 (clear_all_regs_preamble @ map encode (base_ops n) @ map the (words bs) @ [EPILOGUE])"
    by (simp only: sh(2) [symmetric])
  then have h: "holds P 0 clear_all_regs_preamble" "holds P 31 (map encode (base_ops n))"
    "holds P (31 + start_word n) (map the (words bs))" "holds P (31 + n) [EPILOGUE]"
    unfolding holds_append length_map l lb length_words
    by (simp_all add: at_end add.commute add.left_commute del: holds.simps)
  obtain c1 where c1: "safe_run P 31 c c1" "pc c1 = addr 31" "out c1 = []"
    using clear_run [OF h(1) assms(2,3)] assms(4) by auto
  have size: "program_size P = (31 + n + 1) * 4" using sh(8) by (simp add: program_size_def)
  have k1: "code P c1" using safe_run_code [OF c1(1)] by simp
  obtain c2 where c2: "safe_run P (nat (start_word n)) c1 c2" "code P c2" "pc c2 = addr (31 + start_word n)"
    "out c2 = []" "1 < n \<longrightarrow> base_set P c2"
    using base_run [OF k1 c1(2) h(2) c1(3) size sh(6)] by blast
  have "\<exists>m d. safe_run P m c2 d \<and> int m \<le> cost bs \<and> code P d \<and> out d = [] \<and> pc d = addr (31 + n)"
  proof (cases "1 < n")
    case True
    then have "ready P (31 + start_word n) c2" using c2 by (simp add: ready_def)
    from blocks_run [OF sh(3) h(3) sh(4) [symmetric] subset_refl _ this] show ?thesis
      by (auto simp: ready_def)
  next
    case False
    then have "n = 1" "start_word n = 1" using sh(6) by (simp_all add: start_word_def)
    then have "bs = []" using sh(4) by (cases bs; cases "hd bs") auto
    with c2 \<open>n = 1\<close> \<open>start_word n = 1\<close> show ?thesis
      by (intro exI [of _ 0] exI [of _ c2]) (auto intro: safe_run.here)
  qed
  then obtain m d where d: "safe_run P m c2 d" "int m \<le> cost bs" "code P d" "out d = []"
    "pc d = addr (31 + n)" by blast
  have "safe_run P (31 + nat (start_word n) + m) c d"
    by (rule safe_run_trans [OF safe_run_trans [OF c1(1) c2(1)] d(1)])
  moreover have "sim_step d = Go d" by (rule epilogue_turn [OF d(3,5) h(4)])
  moreover have "int (31 + nat (start_word n) + m) \<le> r + 1"
    using d(2) sh(5) by (simp add: start_word_def)
  ultimately show ?thesis using d(4,5) by blast
qed

lemma stuck_runs: "sim_step d = Go d \<Longrightarrow> run_sim k d = Running d"
  by (induction k) auto

lemma safe_forever:
  assumes "safe_run P m c d" "sim_step d = Go d"
  shows "\<exists>e. run_sim k c = Running e \<and> code P e"
proof (cases "k \<le> m")
  case True
  with safe_run_prefix [OF assms(1)] show ?thesis by blast
next
  case False
  then have "run_sim k c = Running d"
    using safe_run_fuel [OF assms(1), of "k - m"] stuck_runs [OF assms(2)] by simp
  then show ?thesis using safe_run_code [OF assms(1)] by blast
qed

end
