(* ===== verification/Gen_Theorems.thy ===== *)
theory Gen_Theorems
  imports Gen_Safety
begin

text \<open>
  The properties of the generator \<open>shared/spike/gen_program.py\<close> and of its programs on the simulator
  \<open>src/main.cpp\<close>, with a concrete generated program (\<open>sample_words\<close>, drawn from \<open>sample_tape\<close>, with
  one loop block) as witness.
\<close>

section \<open>Sample program\<close>

definition sample_tape :: rng where
  "sample_tape = [1, 2, 3, 0x80000000, 0xF0000000, 0xE0000000, 0xF0000000, 0xE0000000, 0xF0000000,
     0xE0000000, 0xF0000000, 0xE0000000]"

definition sample_words :: "int list" where
  "sample_words = clear_all_regs_preamble
     @ [3991, 63934355, 6295315, 4262436899, 4294905619, 4262403299, 99]"

lemma sample_build: "build_full_program 6 sample_tape = (Inr (map Some sample_words, 51), [])"
  by code_simp

lemma sample_roomy: "roomy sample_words"
  by code_simp

section \<open>Encoding and decoding\<close>

text \<open>C14: The decoder of the simulator, run on the word an encoder of the generator returns, performs
  exactly the instruction that was encoded, for every instruction with operands in range: field
  positions, the scrambled B- and J-immediates and their sign extension agree on both sides.\<close>

theorem encoders_agree_with_simulator:
  assumes "wf_op i"
  shows "decode_and_execute (word_of_int (encode i)) c = exec_op i c"
  using assms by (rule decode_encode_op)

lemma encoders_agree_with_simulator_witness:
  "wf_op (OpBranch 4 5 6 (-20))
   \<and> decode_and_execute (word_of_int (encode (OpBranch 4 5 6 (-20)))) init_cpu
       = exec_op (OpBranch 4 5 6 (-20)) init_cpu"
proof -
  have w: "wf_op (OpBranch 4 5 6 (-20))" by code_simp
  with encoders_agree_with_simulator [OF w, of init_cpu] show ?thesis by blast
qed

section \<open>Generation\<close>

lemma random_program_result:
  "(case fst (random_program n t) of
      Inl e \<Rightarrow> e = AssertionError \<and> 975 < n \<or> e = IndexError \<and> n \<le> 0
    | Inr _ \<Rightarrow> 1 \<le> n \<and> n \<le> 975)"
  by (auto simp: random_program_def Let_def DATA_MEM_BYTES_def LOAD_STORE_WINDOW_def
      split: if_splits prod.splits)

lemma build_result:
  "case fst (build_full_program n t) of
     Inl e \<Rightarrow> e = AssertionError \<and> 975 < n \<or> e = IndexError \<and> n \<le> 0
   | Inr _ \<Rightarrow> 1 \<le> n \<and> n \<le> 975"
  using random_program_result [of n t]
  by (auto simp: build_full_program_def split: prod.splits sum.splits)

lemma fits_words: "filled p n rs bs \<Longrightarrow> w \<in> set (map the (words bs)) \<Longrightarrow> \<exists>i. w = encode i"
  using filled_words by fastforce

lemma built_words:
  assumes "build_full_program n t = (Inr (ws, r), t')"
  obtains P where "ws = map Some P" "int (length P) = n + 32" "\<forall>w \<in> set P. fits 32 w" "roomy P"
    "take 31 P = clear_all_regs_preamble" "last P = EPILOGUE" "\<forall>w \<in> set P. \<exists>i. w = encode i"
proof -
  obtain bs P where P: "ws = map Some P" "int (length P) = n + 32" "roomy P"
    "P = clear_all_regs_preamble @ map encode (base_ops n) @ map the (words bs) @ [EPILOGUE]"
    "filled (start_word n) n (ranges_of (start_word n) bs) bs"
    using build_full_program_shape [OF assms] by metis
  have e: "\<forall>w \<in> set P. \<exists>i. w = encode i"
    using fits_words [OF P(5)] unfolding P(4) clear_encode EPILOGUE_def
    by (auto simp del: encode.simps intro: exI [of _ "OpBranch 0 0 0 0"] simp: encode.simps(6) [symmetric])
  then have "\<forall>w \<in> set P. fits 32 w" by (metis fits_encode)
  moreover have "length clear_all_regs_preamble = 31" by (simp add: clear_all_regs_preamble_def)
  then have "take 31 P = clear_all_regs_preamble" unfolding P(4) by (subst take_append) simp
  moreover have "last P = EPILOGUE" unfolding P(4) by simp
  ultimately show thesis using P(1-3) e that by blast
qed

text \<open>C32: A built program has n + 32 words, no slot is left open (no \<open>None\<close>), every word has 32 bits, it
  starts with the register clearing preamble and ends with the endless branch.\<close>

theorem build_full_program_words:
  assumes "build_full_program n t = (Inr (ws, r), t')"
  shows "\<exists>P. ws = map Some P \<and> int (length P) = n + 32 \<and> (\<forall>w \<in> set P. fits 32 w)
    \<and> take 31 P = clear_all_regs_preamble \<and> last P = EPILOGUE"
  using built_words [OF assms] by metis

lemma build_full_program_words_witness:
  "\<exists>P. map Some sample_words = map Some P \<and> int (length P) = 6 + 32 \<and> (\<forall>w \<in> set P. fits 32 w)
    \<and> take 31 P = clear_all_regs_preamble \<and> last P = EPILOGUE"
  by (rule build_full_program_words [OF sample_build])

section \<open>Running a generated program\<close>

lemma code_fetch:
  "code P c \<Longrightarrow> i < length P \<Longrightarrow> fetch_instruction c (addr (int i)) = Some (word_of_int (P ! i))"
  unfolding code_def by (metis nat_int of_nat_0_le_iff of_nat_less_iff)

text \<open>C8: A generated program, loaded at address 0 of the simulator, runs for ever without leaving the
  memory, without stopping and without changing a word of its own text: all stores through x31 land
  behind the program.\<close>

theorem generated_program_safe:
  assumes "build_full_program n t = (Inr (map Some P, r), t')"
  shows "\<exists>c. load_words 0 (map word_of_int P) init_cpu = Some c
    \<and> (\<forall>k. \<exists>e. run_sim k c = Running e
         \<and> (\<forall>i < length P. fetch_instruction e (word_of_int (4 * int i)) = Some (word_of_int (P ! i))))"
proof -
  have "roomy P" using build_full_program_shape [OF assms] by (metis map_injective option.inject injI)
  from load_words_code [OF this] obtain c where
    c: "load_words 0 (map word_of_int P) init_cpu = Some c" "code P c" "pc c = 0" "out c = []"
    by (auto simp: init_cpu_def)
  obtain m d where "safe_run P m c d" "sim_step d = Go d"
    using built_program_reaches_end [OF assms c(2-4)] by blast
  note sf = safe_forever [OF this]
  have "\<exists>e. run_sim k c = Running e
      \<and> (\<forall>i < length P. fetch_instruction e (addr (int i)) = Some (word_of_int (P ! i)))" for k
    using sf [of k] code_fetch by blast
  then show ?thesis using c(1) by blast
qed

lemma generated_program_safe_witness:
  "\<exists>c. load_words 0 (map word_of_int sample_words) init_cpu = Some c
    \<and> (\<forall>k. \<exists>e. run_sim k c = Running e
         \<and> (\<forall>i < length sample_words.
              fetch_instruction e (word_of_int (4 * int i)) = Some (word_of_int (sample_words ! i))))"
  by (rule generated_program_safe [OF sample_build])

text \<open>C13: A generated program terminates in the sense of the comparison: within the estimated number of
  retirements plus one it reaches the endless branch at word 31 + n and stays in exactly that state
  from then on, having reported nothing.\<close>

theorem generated_program_ends:
  assumes "build_full_program n t = (Inr (map Some P, r), t')"
  shows "\<exists>c m d. load_words 0 (map word_of_int P) init_cpu = Some c \<and> int m \<le> r + 1
    \<and> (\<forall>k. run_sim (m + k) c = Running d) \<and> pc d = word_of_int (4 * (31 + n)) \<and> out d = []"
proof -
  have "roomy P" using build_full_program_shape [OF assms] by (metis map_injective option.inject injI)
  from load_words_code [OF this] obtain c where
    c: "load_words 0 (map word_of_int P) init_cpu = Some c" "code P c" "pc c = 0" "out c = []"
    by (auto simp: init_cpu_def)
  obtain m d where d: "safe_run P m c d" "int m \<le> r + 1" "sim_step d = Go d" "out d = []"
    "pc d = addr (31 + n)"
    using built_program_reaches_end [OF assms c(2-4)] by blast
  have "run_sim (m + k) c = Running d" for k
    using safe_run_fuel [OF d(1)] stuck_runs [OF d(3)] by simp
  with c(1) d show ?thesis by blast
qed

lemma generated_program_ends_witness:
  "\<exists>c m d. load_words 0 (map word_of_int sample_words) init_cpu = Some c \<and> int m \<le> 51 + 1
    \<and> (\<forall>k. run_sim (m + k) c = Running d) \<and> pc d = word_of_int (4 * (31 + 6)) \<and> out d = []"
  by (rule generated_program_ends [OF sample_build])

text \<open>C21: A loop block runs exactly as many turns as the retirement count \<open>random_loop_block\<close> returns
  and falls through behind its last word, from any state in which the base register is set and
  the words of the block are part of the program.\<close>

theorem loop_block_retires:
  assumes "random_loop_block W k t = (Some (ws, rc), W', t')" "window_set W"
    and "ready P j c" "holds P j ws"
  shows "\<exists>d. safe_run P (nat rc) c d \<and> ready P (j + int (length ws)) d"
proof -
  obtain trip body where b: "map Some ws = block_words (Loop trip body)" "wf_block (Loop trip body)"
    "rc = block_cost (Loop trip body)"
    using random_loop_block_block [OF assms(1,2)] by blast
  have "map Some ws = map Some (map encode (loop_ops trip body))" using b(1) by simp
  then have "ws = map encode (loop_ops trip body)"
    by (metis (no_types) map_injective option.inject injI)
  moreover from this have "length ws = block_len (Loop trip body)" by (simp add: loop_ops_def)
  ultimately show ?thesis using ready_loop [OF assms(3) _ b(2)] assms(4) b(3) by metis
qed

text \<open>A state that holds a given program, with chosen registers.\<close>

lemma some_state:
  assumes "roomy P" "g 0 = 0"
  obtains c where "code P c" "registers c = g" "pc c = addr j" "out c = []"
proof -
  obtain m where "code P (init_cpu\<lparr>memory := m\<rparr>)" using load_words_code [OF assms(1)] by blast
  then have "code P (init_cpu\<lparr>memory := m, registers := g, pc := addr j\<rparr>)"
    by (rule code_keep) (use assms(2) in simp_all)
  then show thesis by (rule that) (simp_all add: init_cpu_def)
qed

definition sample_block :: "int list" where
  "sample_block = [6295315, 51, 4294905619, 4262403299]"

lemma loop_block_retires_witness:
  "\<exists>c d. random_loop_block {} 6 [0, 0x80000000] = (Some (sample_block, 19), {}, [])
     \<and> ready sample_block 0 c \<and> safe_run sample_block (nat 19) c d
     \<and> ready sample_block (0 + int (length sample_block)) d"
proof -
  have r: "random_loop_block {} 6 [0, 0x80000000] = (Some (sample_block, 19), {}, [])" by code_simp
  have h: "holds sample_block 0 sample_block" "roomy sample_block" by code_simp+
  let ?g = "(\<lambda>k. 0)(31 := word_of_int (program_size sample_block + LOAD_STORE_WINDOW)) :: nat \<Rightarrow> u32w"
  obtain c where c: "code sample_block c" "registers c = ?g" "pc c = addr 0" "out c = []"
    by (rule some_state [OF h(2), of ?g 0]) auto
  then have "ready sample_block 0 c" by (simp add: ready_def base_set_def)
  with loop_block_retires [OF r window_set_empty this h(1)] r show ?thesis by blast
qed

text \<open>The preamble clears x1 to x31 from any register contents, in 31 turns, touching nothing else.\<close>

lemma preamble_clears_registers:
  assumes "code P c" "holds P 0 clear_all_regs_preamble" "pc c = 0"
  shows "\<exists>d. run_sim 31 c = Running d \<and> pc d = 124 \<and> memory d = memory c \<and> out d = out c
    \<and> (\<forall>k. registers d k = (if 1 \<le> k \<and> k \<le> 31 then 0 else registers c k))"
  using clear_run [OF assms(2,1,3)] safe_run_fuel [of P 31 c _ 0] by fastforce

lemma preamble_clears_registers_witness:
  "\<exists>c d. registers c 5 = 7 \<and> run_sim 31 c = Running d \<and> registers d 5 = 0"
proof -
  obtain c where c: "code sample_words c" "registers c = (\<lambda>k. if k = 0 then 0 else 7)" "pc c = addr 0" "out c = []"
    by (rule some_state [OF sample_roomy, of "\<lambda>k. if k = 0 then 0 else 7" 0]) auto
  have "holds sample_words 0 clear_all_regs_preamble" by code_simp
  from preamble_clears_registers [OF c(1) this] c(3) obtain d where
    "run_sim 31 c = Running d" "registers d 5 = 0" by auto
  then show ?thesis using c(2) by (intro exI [of _ c] exI [of _ d]) simp
qed

text \<open>The estimate leaves out the two instructions that set x31: a program of two random words (the
  auipc/addi pair alone) is estimated at 32 retirements, but after 32 turns the addi at byte 128 is
  still to come and the endless branch at byte 132 is reached only after 33.\<close>

lemma retirement_estimate_short:
  "\<exists>P c d e. build_full_program 2 [] = (Inr (map Some P, 32), [])
     \<and> load_words 0 (map word_of_int P) init_cpu = Some c
     \<and> run_sim 32 c = Running d \<and> pc d = 128 \<and> run_sim 33 c = Running e \<and> pc e = 132
     \<and> P ! 33 = EPILOGUE"
proof -
  define P where "P = clear_all_regs_preamble @ map encode (base_ops 2) @ [EPILOGUE]"
  have b: "build_full_program 2 [] = (Inr (map Some P, 32), [])" unfolding P_def by code_simp
  have h: "holds P 0 clear_all_regs_preamble" "holds P 31 (map encode (base_ops 2))" "P ! 33 = EPILOGUE"
    "roomy P" "program_size P = (31 + 2 + 1) * 4"
    unfolding P_def by code_simp+
  obtain m where m: "load_words 0 (map word_of_int P) init_cpu = Some (init_cpu\<lparr>memory := m\<rparr>)"
    "code P (init_cpu\<lparr>memory := m\<rparr>)"
    using load_words_code [OF h(4)] by blast
  let ?c = "init_cpu\<lparr>memory := m\<rparr>"
  obtain d where d: "safe_run P 31 ?c d" "pc d = addr 31" "out d = []"
    using clear_run [OF h(1) m(2)] by (auto simp: init_cpu_def)
  have cd: "code P d" using safe_run_code [OF d(1)] by simp
  obtain e where e: "safe_run P 2 d e" "pc e = addr 33"
    using base_run [OF cd d(2) h(2) d(3) h(5)] by (auto simp: start_word_def)
  then obtain d' where d': "sim_step d = Go d'" "safe_run P 1 d' e"
    by (auto simp: numeral_2_eq_2 elim: safe_run_Suc)
  have w: "P ! 31 = encode (OpAuipc 31 0)" "wf_op (OpAuipc 31 0)" unfolding P_def by code_simp+
  have "exec_op (OpAuipc 31 0) d = Some (set_reg 31 (pc d) d)" by simp
  from turn_encoded [OF cd d(2) _ _ _ w(2) this] w(1) h(5)
  have "sim_step d = Go (set_reg 31 (pc d) d\<lparr>pc := pc d + 4\<rparr>)" by (simp add: program_size_def)
  then have "pc d' = 128" using d'(1) d(2) by simp
  moreover have "run_sim 32 ?c = Running d'"
    using safe_run_fuel [OF d(1), of 1] d'(1) by simp
  moreover have "run_sim 33 ?c = Running e"
    using safe_run_fuel [OF safe_run_trans [OF d(1) e(1)], of 0] by simp
  ultimately show ?thesis using b m(1) e(2) h(3) by (intro exI conjI) simp_all
qed



section \<open>The instructions generated\<close>

fun opcode_of :: "op \<Rightarrow> int" where
  "opcode_of (OpR _ _ _ _ _) = 0x33"
| "opcode_of (OpI _ _ _ _) = 0x13"
| "opcode_of (OpShift _ _ _ _ _) = 0x13"
| "opcode_of (OpLoad _ _ _) = 0x03"
| "opcode_of (OpStore _ _ _) = 0x23"
| "opcode_of (OpBranch _ _ _ _) = 0x63"
| "opcode_of (OpJal _ _) = 0x6F"
| "opcode_of (OpAuipc _ _) = 0x17"

lemma encode_opcode: "slice_at 0 7 (encode i) = opcode_of i"
  by (cases i)
    (simp_all add: slice_at_def enc_r_def enc_i_def enc_shift_def enc_s_def enc_b_def enc_j_def enc_u_def
      Let_def u32_take take_bit_push_bit)

text \<open>Of the instructions the module's docstring announces (JAL, JALR, LUI, AUIPC among them), JALR
  (0x67) and LUI (0x37) are never generated: every word of every program has one of seven opcodes.\<close>

lemma generated_opcodes:
  assumes "build_full_program n t = (Inr (map Some P, r), t')" "w \<in> set P"
  shows "slice_at 0 7 w \<in> {0x13, 0x33, 0x03, 0x23, 0x63, 0x6F, 0x17}"
proof -
  obtain P' where P': "map Some P = map Some P'" "\<forall>w \<in> set P'. \<exists>i. w = encode i"
    using built_words [OF assms(1)] by metis
  have "P' = P" using P'(1) by (metis map_injective option.inject injI)
  then obtain i where "w = encode i" using P'(2) assms(2) by blast
  then show ?thesis by (cases i) (simp_all only: encode_opcode opcode_of.simps insert_iff simp_thms)
qed

lemma generated_opcodes_witness:
  "slice_at 0 7 6295315 \<in> {0x13, 0x33, 0x03, 0x23, 0x63, 0x6F, 0x17}"
proof -
  have "6295315 \<in> set sample_words" by (simp add: sample_words_def)
  from generated_opcodes [OF sample_build this] show ?thesis .
qed

end
