(* ===== verification/Main_Theorems.thy ===== *)
theory Main_Theorems
  imports Gen_Main Gen_Theorems
begin

text \<open>
  What \<open>main()\<close> of \<open>gen_program.py\<close> leaves behind: the two files hold the same program, the C++
  simulator loads exactly its words from \<open>program.hex\<close>, and the errors are those of the generator.
\<close>

lemma main_built:
  assumes "build_full_program n (seeded seed) = (Inr (map Some P, r), t')" "\<forall>w \<in> set P. fits 32 w" "roomy P"
  shows "main seeded (Some seed) (Some n)
    = Inr (unlines (map (\<lambda>w. hex_pad 8 (nat w)) P), elf_image P ENTRY_ADDR, r)" "elf_fits P ENTRY_ADDR"
proof -
  show f: "elf_fits P ENTRY_ADDR"
    using assms(2,3) by (simp add: elf_fits_def roomy_def program_size_def ENTRY_ADDR_def fits_def)
  show "main seeded (Some seed) (Some n)
    = Inr (unlines (map (\<lambda>w. hex_pad 8 (nat w)) P), elf_image P ENTRY_ADDR, r)"
    using assms(1) hex_file_eq [OF assms(2)] build_elf32_image [OF f] self_check_image [OF f]
    by (simp add: main_def)
qed

text \<open>C18: When the generator succeeds, \<open>main\<close> writes both files, and they hold the same program: the
  C++ loader reads from program.hex exactly the generated words, in order from address 0, reporting no
  bad line, and an ELF reader finds the same words in program.elf, to be loaded at 0x80000000.\<close>

theorem main_files_agree:
  assumes "build_full_program n (seeded seed) = (Inr (ws, r), t')"
  shows "\<exists>P text elf code. ws = map Some P \<and> main seeded (Some seed) (Some n) = Inr (text, elf, r)
    \<and> load_from_file text init_cpu
        = map_option (\<lambda>c. (c, 4 * of_nat (length P), 0)) (load_words 0 (map word_of_int P) init_cpu)
    \<and> load_from_file text init_cpu \<noteq> None
    \<and> elf_segment elf = (0x80000000, 0x80000000, code) \<and> words_of_bytes code = P"
proof -
  obtain P where P: "ws = map Some P" "\<forall>w \<in> set P. fits 32 w" "roomy P"
    using built_words [OF assms] by metis
  note m = main_built [where seeded = seeded and seed = seed, OF assms [unfolded P(1)] P(2,3)]
  have "elf_segment (elf_image P ENTRY_ADDR) = (0x80000000, 0x80000000, word_bytes P)"
    using elf_segment_image [OF m(2)] by (simp add: ENTRY_ADDR_def)
  moreover have "words_of_bytes (word_bytes P) = P" by (rule words_of_word_bytes [OF P(2)])
  moreover have "load_words 0 (map word_of_int P) init_cpu \<noteq> None"
    using load_words_code [OF P(3)] by auto
  ultimately show ?thesis using P(1) m(1) load_hex_text [OF P(2), of init_cpu] by auto
qed

lemma main_files_agree_witness:
  "\<exists>P text elf code. map Some sample_words = map Some P
    \<and> main (\<lambda>_. sample_tape) (Some 7) (Some 6) = Inr (text, elf, 51)
    \<and> load_from_file text init_cpu
        = map_option (\<lambda>c. (c, 4 * of_nat (length P), 0)) (load_words 0 (map word_of_int P) init_cpu)
    \<and> load_from_file text init_cpu \<noteq> None
    \<and> elf_segment elf = (0x80000000, 0x80000000, code) \<and> words_of_bytes code = P"
  using main_files_agree [of 6 "\<lambda>_. sample_tape" 7, OF sample_build] by blast


end
