(* ===== verification/Rtl_Units.thy ===== *)
theory Rtl_Units
  imports Cpp_Sim
begin

text \<open>
  The combinational units of the pipelined core under \<open>rtl/\<close>: \<open>alu.sv\<close>, \<open>imm_gen.sv\<close>,
  \<open>control_unit.sv\<close>, \<open>hazard_unit.sv\<close>, \<open>forward_unit.sv\<close>, and the register file and memories. A
  \<open>logic [n-1:0]\<close> is an \<open>n word\<close>, a part select is a shift and a cut, a concatenation is
  \<open>word_cat\<close>. The model has the two values 0 and 1; \<open>x\<close>, which a simulator shows for storage nobody
  has written, is an arbitrary value.
\<close>

section \<open>Fields of an instruction word\<close>

definition i_opcode :: "u32w \<Rightarrow> 7 word" where "i_opcode i = ucast i"
definition i_rd :: "u32w \<Rightarrow> 5 word" where "i_rd i = ucast (drop_bit 7 i)"
definition i_funct3 :: "u32w \<Rightarrow> 3 word" where "i_funct3 i = ucast (drop_bit 12 i)"
definition i_rs1 :: "u32w \<Rightarrow> 5 word" where "i_rs1 i = ucast (drop_bit 15 i)"
definition i_rs2 :: "u32w \<Rightarrow> 5 word" where "i_rs2 i = ucast (drop_bit 20 i)"
definition i_funct7 :: "u32w \<Rightarrow> 7 word" where "i_funct7 i = ucast (drop_bit 25 i)"

section \<open>alu.sv\<close>

definition alu_result :: "u32w \<Rightarrow> u32w \<Rightarrow> 4 word \<Rightarrow> u32w" where
  "alu_result a b alu_control =
     (if alu_control = 0b0000 then a + b
      else if alu_control = 0b0001 then a - b
      else if alu_control = 0b0010 then a AND b
      else if alu_control = 0b0011 then a OR b
      else if alu_control = 0b0100 then a XOR b
      else if alu_control = 0b0101 then push_bit (unat (ucast b :: 5 word)) a
      else if alu_control = 0b0110 then drop_bit (unat (ucast b :: 5 word)) a
      else if alu_control = 0b0111 then signed_drop_bit (unat (ucast b :: 5 word)) a
      else if alu_control = 0b1000 then (if a <s b then 1 else 0)
      else if alu_control = 0b1001 then (if a < b then 1 else 0)
      else 0)"

definition alu_zero :: "u32w \<Rightarrow> u32w \<Rightarrow> 4 word \<Rightarrow> bool" where
  "alu_zero a b alu_control \<longleftrightarrow> alu_result a b alu_control = 0"

definition alu_negative :: "u32w \<Rightarrow> u32w \<Rightarrow> 4 word \<Rightarrow> bool" where
  "alu_negative a b alu_control \<longleftrightarrow> bit (alu_result a b alu_control) 31"

definition alu_overflow :: "u32w \<Rightarrow> u32w \<Rightarrow> 4 word \<Rightarrow> bool" where
  "alu_overflow a b alu_control \<longleftrightarrow>
     (if alu_control = 0b0001
      then bit a 31 \<noteq> bit b 31 \<and> bit (alu_result a b alu_control) 31 \<noteq> bit a 31
      else False)"

section \<open>imm_gen.sv\<close>

text \<open>The replication \<open>{n{b}}\<close> of one bit, at the width its context gives.\<close>

definition rep_bit :: "bool \<Rightarrow> 'a::len word" where
  "rep_bit b = (if b then - 1 else 0)"

definition imm_gen :: "u32w \<Rightarrow> u32w" where
  "imm_gen i =
     (let opcode = i_opcode i; sign = bit i 31
      in if opcode = 0b0010011 \<or> opcode = 0b0000011 \<or> opcode = 0b1100111 then
           word_cat (rep_bit sign :: 20 word) (ucast (drop_bit 20 i) :: 12 word)
         else if opcode = 0b0100011 then
           word_cat (word_cat (rep_bit sign :: 20 word) (ucast (drop_bit 25 i) :: 7 word) :: 27 word)
             (ucast (drop_bit 7 i) :: 5 word)
         else if opcode = 0b1100011 then
           word_cat (word_cat (word_cat (word_cat (rep_bit sign :: 20 word)
             (ucast (drop_bit 7 i) :: 1 word) :: 21 word)
             (ucast (drop_bit 25 i) :: 6 word) :: 27 word)
             (ucast (drop_bit 8 i) :: 4 word) :: 31 word) (0 :: 1 word)
         else if opcode = 0b1101111 then
           word_cat (word_cat (word_cat (word_cat (rep_bit sign :: 12 word)
             (ucast (drop_bit 12 i) :: 8 word) :: 20 word)
             (ucast (drop_bit 20 i) :: 1 word) :: 21 word)
             (ucast (drop_bit 21 i) :: 10 word) :: 31 word) (0 :: 1 word)
         else if opcode = 0b0110111 \<or> opcode = 0b0010111 then
           word_cat (ucast (drop_bit 12 i) :: 20 word) (0 :: 12 word)
         else 0)"

section \<open>control_unit.sv\<close>

record control =
  reg_write :: bool
  alu_src :: bool
  alu_control :: "4 word"
  mem_to_reg :: bool
  mem_read :: bool
  mem_write :: bool
  branch :: bool
  jump :: bool
  jalr :: bool
  lui :: bool
  auipc :: bool

text \<open>The default values every branch of the case starts from.\<close>

definition no_control :: control where
  "no_control = \<lparr>reg_write = False, alu_src = False, alu_control = 0, mem_to_reg = False,
     mem_read = False, mem_write = False, branch = False, jump = False, jalr = False, lui = False,
     auipc = False\<rparr>"

definition r_alu_control :: "3 word \<Rightarrow> 7 word \<Rightarrow> 4 word" where
  "r_alu_control funct3 funct7 =
     (if funct3 = 0b000 then (if funct7 = 0b0100000 then 0b0001 else 0b0000)
      else if funct3 = 0b111 then 0b0010
      else if funct3 = 0b110 then 0b0011
      else if funct3 = 0b001 then 0b0101
      else if funct3 = 0b100 then 0b0100
      else if funct3 = 0b101 then (if bit funct7 5 then 0b0111 else 0b0110)
      else if funct3 = 0b010 then 0b1000
      else if funct3 = 0b011 then 0b1001
      else 0b0000)"

definition i_alu_control :: "3 word \<Rightarrow> 7 word \<Rightarrow> 4 word" where
  "i_alu_control funct3 funct7 =
     (if funct3 = 0b000 then 0b0000
      else if funct3 = 0b111 then 0b0010
      else if funct3 = 0b110 then 0b0011
      else if funct3 = 0b100 then 0b0100
      else if funct3 = 0b001 then 0b0101
      else if funct3 = 0b101 then (if bit funct7 5 then 0b0111 else 0b0110)
      else if funct3 = 0b010 then 0b1000
      else if funct3 = 0b011 then 0b1001
      else 0b0000)"

definition control_unit :: "7 word \<Rightarrow> 3 word \<Rightarrow> 7 word \<Rightarrow> control" where
  "control_unit opcode funct3 funct7 =
     (if opcode = 0b0110011 then
        no_control\<lparr>reg_write := True, alu_control := r_alu_control funct3 funct7\<rparr>
      else if opcode = 0b0010011 then
        no_control\<lparr>reg_write := True, alu_src := True, alu_control := i_alu_control funct3 funct7\<rparr>
      else if opcode = 0b0000011 then
        no_control\<lparr>reg_write := True, alu_src := True, mem_to_reg := True, mem_read := True\<rparr>
      else if opcode = 0b0100011 then no_control\<lparr>alu_src := True, mem_write := True\<rparr>
      else if opcode = 0b1100011 then no_control\<lparr>branch := True, alu_control := 0b0001\<rparr>
      else if opcode = 0b1101111 then no_control\<lparr>jump := True, reg_write := True\<rparr>
      else if opcode = 0b1100111 then
        no_control\<lparr>jump := True, jalr := True, reg_write := True, alu_src := True\<rparr>
      else if opcode = 0b0110111 then no_control\<lparr>lui := True, reg_write := True\<rparr>
      else if opcode = 0b0010111 then no_control\<lparr>auipc := True, reg_write := True, alu_src := True\<rparr>
      else no_control)"

section \<open>reg_file.sv\<close>

text \<open>An asynchronous read port with the write-forwarding bypass, and the synchronous write.\<close>

type_synonym regs = "5 word \<Rightarrow> u32w"

definition read_port :: "bool \<Rightarrow> 5 word \<Rightarrow> u32w \<Rightarrow> regs \<Rightarrow> 5 word \<Rightarrow> u32w" where
  "read_port write rd write_data rf rs =
     (if rs = 0 then 0 else if write \<and> rd = rs then write_data else rf rs)"

definition write_port :: "bool \<Rightarrow> 5 word \<Rightarrow> u32w \<Rightarrow> regs \<Rightarrow> regs" where
  "write_port write rd write_data rf = (if write \<and> rd \<noteq> 0 then rf(rd := write_data) else rf)"

section \<open>Memories\<close>

text \<open>
  \<open>instruction_mem.sv\<close> reads \<open>mem[addr[11:2]]\<close>. \<open>data_mem.sv\<close> indexes \<open>ram\<close> of 1024 words by
  \<open>addr >> 2\<close>: a write outside the array is ignored, a read outside it yields \<open>x\<close>, here the value
  \<open>outside addr\<close> of a parameter.
\<close>

type_synonym rom = "10 word \<Rightarrow> u32w"
type_synonym ram = "nat \<Rightarrow> u32w"

definition instruction_mem :: "rom \<Rightarrow> u32w \<Rightarrow> u32w" where
  "instruction_mem mem addr = mem (ucast (drop_bit 2 addr))"

definition ram_read :: "(u32w \<Rightarrow> u32w) \<Rightarrow> ram \<Rightarrow> u32w \<Rightarrow> u32w" where
  "ram_read outside ram addr =
     (if unat (drop_bit 2 addr) < 1024 then ram (unat (drop_bit 2 addr)) else outside addr)"

definition data_mem_read :: "(u32w \<Rightarrow> u32w) \<Rightarrow> bool \<Rightarrow> ram \<Rightarrow> u32w \<Rightarrow> u32w" where
  "data_mem_read outside rd_en ram addr = (if rd_en then ram_read outside ram addr else 0)"

definition data_mem_write :: "bool \<Rightarrow> u32w \<Rightarrow> u32w \<Rightarrow> ram \<Rightarrow> ram" where
  "data_mem_write wr_en addr write_data ram =
     (if wr_en \<and> unat (drop_bit 2 addr) < 1024
      then ram(unat (drop_bit 2 addr) := write_data) else ram)"

text \<open>The testbenches fill the instruction memory with nops before they place a program.\<close>

definition nop_rom :: rom where
  "nop_rom = (\<lambda>_. 0x00000013)"

section \<open>hazard_unit.sv and forward_unit.sv\<close>

definition hazard_unit :: "5 word \<Rightarrow> 5 word \<Rightarrow> bool \<Rightarrow> 5 word \<Rightarrow> bool" where
  "hazard_unit id_rs1 id_rs2 ex_mem_read ex_rd \<longleftrightarrow>
     ex_mem_read \<and> ex_rd \<noteq> 0 \<and> (ex_rd = id_rs1 \<or> ex_rd = id_rs2)"

definition forward_sel :: "5 word \<Rightarrow> bool \<Rightarrow> 5 word \<Rightarrow> bool \<Rightarrow> 5 word \<Rightarrow> 2 word" where
  "forward_sel id_ex_rs ex_mem_reg_write ex_mem_rd mem_wb_reg_write mem_wb_rd =
     (if ex_mem_reg_write \<and> ex_mem_rd \<noteq> 0 \<and> ex_mem_rd = id_ex_rs then 0b10
      else if mem_wb_reg_write \<and> mem_wb_rd \<noteq> 0 \<and> mem_wb_rd = id_ex_rs then 0b01
      else 0b00)"

end
