(* ===== verification/Rv32.thy ===== *)
theory Rv32
  imports Rtl_Units
begin

text \<open>
  The RV32I base instruction set as its manual defines it: little-endian memory of bytes, immediates
  assembled from the bits of the instruction, all loads, stores and branches. It is the machine Spike
  implements (\<open>spike --isa=rv32i\<close>) and the yardstick for the two implementations of the repository,
  written without their decoding functions. A step that traps (an illegal instruction, a misaligned
  access or jump target) has no result, nor has one of the opcodes MISC-MEM and SYSTEM.
\<close>

section \<open>Immediates and operations\<close>

definition imm_i :: "u32w \<Rightarrow> u32w" where
  "imm_i i = scast (ucast (drop_bit 20 i) :: 12 word)"

definition imm_s :: "u32w \<Rightarrow> u32w" where
  "imm_s i = scast (word_cat (i_funct7 i) (i_rd i) :: 12 word)"

definition imm_b :: "u32w \<Rightarrow> u32w" where
  "imm_b i = scast (word_cat (ucast (drop_bit 31 i) :: 1 word)
     (word_cat (ucast (drop_bit 7 i) :: 1 word)
       (word_cat (ucast (drop_bit 25 i) :: 6 word)
         (word_cat (ucast (drop_bit 8 i) :: 4 word) (0 :: 1 word) :: 5 word) :: 11 word) :: 12 word) :: 13 word)"

definition imm_u :: "u32w \<Rightarrow> u32w" where
  "imm_u i = word_cat (ucast (drop_bit 12 i) :: 20 word) (0 :: 12 word)"

definition imm_j :: "u32w \<Rightarrow> u32w" where
  "imm_j i = scast (word_cat (ucast (drop_bit 31 i) :: 1 word)
     (word_cat (ucast (drop_bit 12 i) :: 8 word)
       (word_cat (ucast (drop_bit 20 i) :: 1 word)
         (word_cat (ucast (drop_bit 21 i) :: 10 word) (0 :: 1 word) :: 11 word) :: 12 word) :: 20 word) :: 21 word)"

definition shift_amount :: "u32w \<Rightarrow> nat" where
  "shift_amount b = unat (ucast b :: 5 word)"

text \<open>The operation \<open>funct3\<close>, with \<open>alt\<close> for the variants of bit 30 (SUB, SRA, SRAI).\<close>

definition rv_op :: "3 word \<Rightarrow> bool \<Rightarrow> u32w \<Rightarrow> u32w \<Rightarrow> u32w" where
  "rv_op funct3 alt a b =
     (if funct3 = 0b000 then (if alt then a - b else a + b)
      else if funct3 = 0b001 then push_bit (shift_amount b) a
      else if funct3 = 0b010 then (if a <s b then 1 else 0)
      else if funct3 = 0b011 then (if a < b then 1 else 0)
      else if funct3 = 0b100 then a XOR b
      else if funct3 = 0b101 then (if alt then signed_drop_bit (shift_amount b) a else drop_bit (shift_amount b) a)
      else if funct3 = 0b110 then a OR b
      else a AND b)"

definition rv_taken :: "3 word \<Rightarrow> u32w \<Rightarrow> u32w \<Rightarrow> bool" where
  "rv_taken funct3 a b =
     (if funct3 = 0b000 then a = b
      else if funct3 = 0b001 then a \<noteq> b
      else if funct3 = 0b100 then a <s b
      else if funct3 = 0b101 then b \<le>s a
      else if funct3 = 0b110 then a < b
      else b \<le> a)"

section \<open>Memory\<close>

type_synonym byte_memory = "u32w \<Rightarrow> 8 word"

definition aligned :: "nat \<Rightarrow> u32w \<Rightarrow> bool" where
  "aligned k a \<longleftrightarrow> take_bit k a = 0"

definition half_of :: "byte_memory \<Rightarrow> u32w \<Rightarrow> 16 word" where
  "half_of m a = word_cat (m (a + 1)) (m a)"

definition word_of :: "byte_memory \<Rightarrow> u32w \<Rightarrow> u32w" where
  "word_of m a = word_cat (half_of m (a + 2)) (half_of m a)"

definition rv_load :: "3 word \<Rightarrow> byte_memory \<Rightarrow> u32w \<Rightarrow> u32w option" where
  "rv_load funct3 m a =
     (if funct3 = 0b000 then Some (scast (m a))
      else if funct3 = 0b001 \<and> aligned 1 a then Some (scast (half_of m a))
      else if funct3 = 0b010 \<and> aligned 2 a then Some (word_of m a)
      else if funct3 = 0b100 then Some (ucast (m a))
      else if funct3 = 0b101 \<and> aligned 1 a then Some (ucast (half_of m a))
      else None)"

definition put_half :: "u32w \<Rightarrow> 16 word \<Rightarrow> byte_memory \<Rightarrow> byte_memory" where
  "put_half a v m = m(a := ucast v, a + 1 := ucast (drop_bit 8 v))"

definition rv_store :: "3 word \<Rightarrow> u32w \<Rightarrow> u32w \<Rightarrow> byte_memory \<Rightarrow> byte_memory option" where
  "rv_store funct3 a v m =
     (if funct3 = 0b000 then Some (m(a := ucast v))
      else if funct3 = 0b001 \<and> aligned 1 a then Some (put_half a (ucast v) m)
      else if funct3 = 0b010 \<and> aligned 2 a then Some (put_half (a + 2) (ucast (drop_bit 16 v)) (put_half a (ucast v) m))
      else None)"

section \<open>One instruction\<close>

record rv =
  rv_pc :: u32w
  rv_regs :: regs
  rv_mem :: byte_memory

datatype rv_access = Quiet | Loads u32w | Stores u32w u32w

record rv_event =
  ev_pc :: u32w
  ev_instr :: u32w
  ev_write :: "(5 word \<times> u32w) option"
  ev_access :: rv_access

definition rv_reg :: "rv \<Rightarrow> 5 word \<Rightarrow> u32w" where
  "rv_reg S r = (if r = 0 then 0 else rv_regs S r)"

text \<open>An instruction \<open>i\<close> that ends at \<open>p\<close>: what it writes, accesses and leaves in memory.\<close>

definition retire :: "u32w \<Rightarrow> u32w \<Rightarrow> (5 word \<times> u32w) option \<Rightarrow> rv_access \<Rightarrow> byte_memory \<Rightarrow> rv \<Rightarrow> (rv_event \<times> rv) option" where
  "retire i p w x m S =
     (if aligned 2 p
      then Some (\<lparr>ev_pc = rv_pc S, ev_instr = i, ev_write = w, ev_access = x\<rparr>,
        \<lparr>rv_pc = p,
         rv_regs = (case w of None \<Rightarrow> rv_regs S | Some (rd, v) \<Rightarrow> if rd = 0 then rv_regs S else (rv_regs S)(rd := v)),
         rv_mem = m\<rparr>)
      else None)"

definition rv_execute :: "u32w \<Rightarrow> rv \<Rightarrow> (rv_event \<times> rv) option" where
  "rv_execute i S =
     (let opcode = i_opcode i; f3 = i_funct3 i; f7 = i_funct7 i; rd = i_rd i; p = rv_pc S;
          a = rv_reg S (i_rs1 i); b = rv_reg S (i_rs2 i); m = rv_mem S;
          result = (\<lambda>v. retire i (p + 4) (Some (rd, v)) Quiet m S)
      in if opcode = 0b0110011 then
           (if f7 = 0 \<or> f7 = 0b0100000 \<and> f3 \<in> {0b000, 0b101} then result (rv_op f3 (f7 \<noteq> 0) a b) else None)
         else if opcode = 0b0010011 then
           (if f3 = 0b001 \<and> f7 \<noteq> 0 \<or> f3 = 0b101 \<and> f7 \<notin> {0, 0b0100000} then None
            else result (rv_op f3 (f3 = 0b101 \<and> f7 \<noteq> 0) a (imm_i i)))
         else if opcode = 0b0000011 then
           (case rv_load f3 m (a + imm_i i) of
              None \<Rightarrow> None
            | Some v \<Rightarrow> retire i (p + 4) (Some (rd, v)) (Loads (a + imm_i i)) m S)
         else if opcode = 0b0100011 then
           (case rv_store f3 (a + imm_s i) b m of
              None \<Rightarrow> None
            | Some m' \<Rightarrow> retire i (p + 4) None (Stores (a + imm_s i) b) m' S)
         else if opcode = 0b1100011 then
           (if f3 \<in> {0b010, 0b011} then None
            else retire i (if rv_taken f3 a b then p + imm_b i else p + 4) None Quiet m S)
         else if opcode = 0b1101111 then retire i (p + imm_j i) (Some (rd, p + 4)) Quiet m S
         else if opcode = 0b1100111 then
           (if f3 = 0 then retire i ((a + imm_i i) AND NOT 1) (Some (rd, p + 4)) Quiet m S else None)
         else if opcode = 0b0110111 then result (imm_u i)
         else if opcode = 0b0010111 then result (p + imm_u i)
         else None)"

definition rv_step :: "rv \<Rightarrow> (rv_event \<times> rv) option" where
  "rv_step S = rv_execute (word_of (rv_mem S) (rv_pc S)) S"

lemma retire_aligned [simp]:
  "aligned 2 p \<Longrightarrow> retire i p w x m S =
     Some (\<lparr>ev_pc = rv_pc S, ev_instr = i, ev_write = w, ev_access = x\<rparr>,
       \<lparr>rv_pc = p,
        rv_regs = (case w of None \<Rightarrow> rv_regs S | Some (rd, v) \<Rightarrow> if rd = 0 then rv_regs S else (rv_regs S)(rd := v)),
        rv_mem = m\<rparr>)"
  by (simp add: retire_def)

end
