(* ===== verification/Rtl_Core.thy ===== *)
theory Rtl_Core
  imports Rtl_Units
begin

text \<open>
  The pipelined core \<open>rtl/riscv_core.sv\<close> with its branch predictor and loop buffer, as one state and
  one function \<open>core_step\<close> for a rising clock edge. Every definition between the state and
  \<open>core_step\<close> is a combinational signal of that name (with the suffix of its stage) read from the
  state before the edge; \<open>core_step\<close> collects the nonblocking assignments of all \<open>always_ff\<close> blocks.
\<close>

section \<open>branch_predictor.sv\<close>

record predictor =
  bht :: "6 word \<Rightarrow> 2 word"
  btb :: "6 word \<Rightarrow> u32w"
  btb_valid :: "6 word \<Rightarrow> bool"
  btb_tag :: "6 word \<Rightarrow> 24 word"

definition bp_reset :: predictor where
  "bp_reset = \<lparr>bht = (\<lambda>_. 0b01), btb = (\<lambda>_. 0), btb_valid = (\<lambda>_. False), btb_tag = (\<lambda>_. 0)\<rparr>"

definition pc_idx :: "u32w \<Rightarrow> 6 word" where "pc_idx a = ucast (drop_bit 2 a)"
definition pc_tag :: "u32w \<Rightarrow> 24 word" where "pc_tag a = ucast (drop_bit 8 a)"

definition predict_taken :: "predictor \<Rightarrow> u32w \<Rightarrow> bool" where
  "predict_taken p if_pc \<longleftrightarrow>
     btb_valid p (pc_idx if_pc) \<and> btb_tag p (pc_idx if_pc) = pc_tag if_pc \<and> bit (bht p (pc_idx if_pc)) 1"

definition predict_target :: "predictor \<Rightarrow> u32w \<Rightarrow> u32w" where
  "predict_target p if_pc = btb p (pc_idx if_pc)"

definition bp_train :: "bool \<Rightarrow> u32w \<Rightarrow> bool \<Rightarrow> u32w \<Rightarrow> predictor \<Rightarrow> predictor" where
  "bp_train train_valid train_pc train_taken train_target p =
     (let i = pc_idx train_pc
      in if \<not> train_valid then p
         else if train_taken then
           p\<lparr>bht := (if bht p i \<noteq> 0b11 then (bht p)(i := bht p i + 1) else bht p),
             btb := (btb p)(i := train_target),
             btb_valid := (btb_valid p)(i := True),
             btb_tag := (btb_tag p)(i := pc_tag train_pc)\<rparr>
         else p\<lparr>bht := (if bht p i \<noteq> 0b00 then (bht p)(i := bht p i - 1) else bht p)\<rparr>)"

section \<open>loop_buffer.sv\<close>

datatype lb_state = STATE_IDLE | STATE_RECORDING | STATE_LOOPING | STATE_INVALID

record loop_buffer =
  state_q :: lb_state
  loop_start_q :: u32w
  loop_end_q :: u32w
  write_ptr_q :: "5 word"
  buffer :: "4 word \<Rightarrow> u32w"

abbreviation BUFFER_DEPTH :: "5 word" where "BUFFER_DEPTH \<equiv> 16"

definition is_backward_prediction :: "bool \<Rightarrow> u32w \<Rightarrow> u32w \<Rightarrow> bool" where
  "is_backward_prediction taken target if_pc \<longleftrightarrow> taken \<and> target < if_pc"

definition loop_active :: "loop_buffer \<Rightarrow> bool" where
  "loop_active l \<longleftrightarrow> state_q l = STATE_LOOPING"

definition read_idx :: "loop_buffer \<Rightarrow> u32w \<Rightarrow> 4 word" where
  "read_idx l if_pc = ucast (drop_bit 2 (if_pc - loop_start_q l))"

definition read_idx_valid :: "loop_buffer \<Rightarrow> u32w \<Rightarrow> bool" where
  "read_idx_valid l if_pc \<longleftrightarrow>
     loop_active l \<and> loop_start_q l \<le> if_pc \<and> if_pc < loop_end_q l
     \<and> (ucast (read_idx l if_pc) :: 5 word) < write_ptr_q l"

definition instruction_out :: "loop_buffer \<Rightarrow> u32w \<Rightarrow> u32w \<Rightarrow> u32w" where
  "instruction_out l if_pc instruction_in =
     (if read_idx_valid l if_pc then buffer l (read_idx l if_pc) else instruction_in)"

text \<open>The next state: the \<open>always_comb\<close> case, and the write to the buffer of the \<open>always_ff\<close> block.\<close>

definition lb_next :: "u32w \<Rightarrow> bool \<Rightarrow> u32w \<Rightarrow> bool \<Rightarrow> bool \<Rightarrow> loop_buffer \<Rightarrow> loop_buffer" where
  "lb_next if_pc taken target flush stall l =
     (case state_q l of
        STATE_IDLE \<Rightarrow>
          if \<not> flush \<and> is_backward_prediction taken target if_pc
          then l\<lparr>state_q := STATE_RECORDING, loop_start_q := target, loop_end_q := if_pc + 4,
                 write_ptr_q := 0\<rparr>
          else l
      | STATE_RECORDING \<Rightarrow>
          if flush then l\<lparr>state_q := STATE_INVALID\<rparr>
          else if stall then l
          else if BUFFER_DEPTH \<le> write_ptr_q l then l\<lparr>state_q := STATE_INVALID\<rparr>
          else l\<lparr>write_ptr_q := write_ptr_q l + 1,
                 state_q := (if if_pc = loop_end_q l - 4 then STATE_LOOPING else STATE_RECORDING)\<rparr>
      | STATE_LOOPING \<Rightarrow>
          if flush then l\<lparr>state_q := STATE_INVALID\<rparr>
          else if if_pc < loop_start_q l \<or> loop_end_q l \<le> if_pc then l\<lparr>state_q := STATE_INVALID\<rparr>
          else l
      | STATE_INVALID \<Rightarrow>
          l\<lparr>state_q := STATE_IDLE, loop_start_q := 0, loop_end_q := 0, write_ptr_q := 0\<rparr>)"

definition lb_capture :: "u32w \<Rightarrow> bool \<Rightarrow> bool \<Rightarrow> loop_buffer \<Rightarrow> 4 word \<Rightarrow> u32w" where
  "lb_capture instruction_in flush stall l =
     (if state_q l = STATE_RECORDING \<and> \<not> flush \<and> \<not> stall \<and> write_ptr_q l < BUFFER_DEPTH
      then (buffer l)(ucast (write_ptr_q l) := instruction_in) else buffer l)"

definition lb_step :: "u32w \<Rightarrow> u32w \<Rightarrow> bool \<Rightarrow> u32w \<Rightarrow> bool \<Rightarrow> bool \<Rightarrow> loop_buffer \<Rightarrow> loop_buffer" where
  "lb_step if_pc instruction_in taken target flush stall l =
     (lb_next if_pc taken target flush stall l)\<lparr>buffer := lb_capture instruction_in flush stall l\<rparr>"

section \<open>The pipeline registers, riscv_pkg.sv\<close>

record if_id_t =
  ifid_valid :: bool
  ifid_pc :: u32w
  ifid_pc_plus4 :: u32w
  ifid_instr :: u32w
  ifid_pred_taken :: bool
  ifid_pred_target :: u32w

text \<open>The control signals of \<open>id_ex_t\<close> are kept together as one \<open>control\<close>.\<close>

record id_ex_t =
  idex_valid :: bool
  idex_pc :: u32w
  idex_pc_plus4 :: u32w
  idex_rs1_data :: u32w
  idex_rs2_data :: u32w
  idex_imm_ext :: u32w
  idex_rs1_addr :: "5 word"
  idex_rs2_addr :: "5 word"
  idex_rd_addr :: "5 word"
  idex_funct3 :: "3 word"
  idex_pred_taken :: bool
  idex_pred_target :: u32w
  idex_ctl :: control

record ex_mem_t =
  exmem_valid :: bool
  exmem_pc :: u32w
  exmem_pc_plus4 :: u32w
  exmem_alu_result :: u32w
  exmem_store_data :: u32w
  exmem_imm_ext :: u32w
  exmem_rd_addr :: "5 word"
  exmem_reg_write :: bool
  exmem_mem_to_reg :: bool
  exmem_mem_read :: bool
  exmem_mem_write :: bool
  exmem_jump :: bool
  exmem_lui :: bool

record mem_wb_t =
  memwb_valid :: bool
  memwb_pc :: u32w
  memwb_pc_plus4 :: u32w
  memwb_alu_result :: u32w
  memwb_mem_read_data :: u32w
  memwb_imm_ext :: u32w
  memwb_rd_addr :: "5 word"
  memwb_reg_write :: bool
  memwb_mem_to_reg :: bool
  memwb_jump :: bool
  memwb_lui :: bool

text \<open>The reset value \<open>'0\<close> of each of them, which is also the bubble.\<close>

definition if_id_0 :: if_id_t where
  "if_id_0 = \<lparr>ifid_valid = False, ifid_pc = 0, ifid_pc_plus4 = 0, ifid_instr = 0,
     ifid_pred_taken = False, ifid_pred_target = 0\<rparr>"

definition id_ex_0 :: id_ex_t where
  "id_ex_0 = \<lparr>idex_valid = False, idex_pc = 0, idex_pc_plus4 = 0, idex_rs1_data = 0,
     idex_rs2_data = 0, idex_imm_ext = 0, idex_rs1_addr = 0, idex_rs2_addr = 0, idex_rd_addr = 0,
     idex_funct3 = 0, idex_pred_taken = False, idex_pred_target = 0, idex_ctl = no_control\<rparr>"

definition ex_mem_0 :: ex_mem_t where
  "ex_mem_0 = \<lparr>exmem_valid = False, exmem_pc = 0, exmem_pc_plus4 = 0, exmem_alu_result = 0,
     exmem_store_data = 0, exmem_imm_ext = 0, exmem_rd_addr = 0, exmem_reg_write = False,
     exmem_mem_to_reg = False, exmem_mem_read = False, exmem_mem_write = False, exmem_jump = False,
     exmem_lui = False\<rparr>"

definition mem_wb_0 :: mem_wb_t where
  "mem_wb_0 = \<lparr>memwb_valid = False, memwb_pc = 0, memwb_pc_plus4 = 0, memwb_alu_result = 0,
     memwb_mem_read_data = 0, memwb_imm_ext = 0, memwb_rd_addr = 0, memwb_reg_write = False,
     memwb_mem_to_reg = False, memwb_jump = False, memwb_lui = False\<rparr>"

record core =
  pc_if :: u32w
  icache_frozen_addr_q :: u32w
  if_id_r :: if_id_t
  id_ex_r :: id_ex_t
  ex_mem_r :: ex_mem_t
  mem_wb_r :: mem_wb_t
  rf :: regs
  data_ram :: ram
  bp :: predictor
  lb :: loop_buffer

text \<open>The state after reset: everything is cleared but the memories and the buffer contents.\<close>

definition reset_core :: "ram \<Rightarrow> (4 word \<Rightarrow> u32w) \<Rightarrow> core" where
  "reset_core ram0 buf0 =
     \<lparr>pc_if = 0, icache_frozen_addr_q = 0, if_id_r = if_id_0, id_ex_r = id_ex_0, ex_mem_r = ex_mem_0,
      mem_wb_r = mem_wb_0, rf = (\<lambda>_. 0), data_ram = ram0, bp = bp_reset,
      lb = \<lparr>state_q = STATE_IDLE, loop_start_q = 0, loop_end_q = 0, write_ptr_q = 0,
            buffer = buf0\<rparr>\<rparr>"

section \<open>WB and MEM\<close>

definition wb_write_data :: "core \<Rightarrow> u32w" where
  "wb_write_data c =
     (let w = mem_wb_r c
      in if memwb_lui w then memwb_imm_ext w
         else if memwb_jump w then memwb_pc_plus4 w
         else if memwb_mem_to_reg w then memwb_mem_read_data w
         else memwb_alu_result w)"

definition wb_reg_write :: "core \<Rightarrow> bool" where
  "wb_reg_write c \<longleftrightarrow> memwb_valid (mem_wb_r c) \<and> memwb_reg_write (mem_wb_r c)"

definition next_mem_wb :: "(u32w \<Rightarrow> u32w) \<Rightarrow> core \<Rightarrow> mem_wb_t" where
  "next_mem_wb outside c =
     (let m = ex_mem_r c
      in \<lparr>memwb_valid = exmem_valid m, memwb_pc = exmem_pc m, memwb_pc_plus4 = exmem_pc_plus4 m,
          memwb_alu_result = exmem_alu_result m,
          memwb_mem_read_data =
            data_mem_read outside (exmem_mem_read m) (data_ram c) (exmem_alu_result m),
          memwb_imm_ext = exmem_imm_ext m, memwb_rd_addr = exmem_rd_addr m,
          memwb_reg_write = exmem_reg_write m, memwb_mem_to_reg = exmem_mem_to_reg m,
          memwb_jump = exmem_jump m, memwb_lui = exmem_lui m\<rparr>)"

section \<open>EX\<close>

definition ex_mem_fwd_value :: "core \<Rightarrow> u32w" where
  "ex_mem_fwd_value c =
     (let m = ex_mem_r c
      in if exmem_lui m then exmem_imm_ext m
         else if exmem_jump m then exmem_pc_plus4 m
         else exmem_alu_result m)"

text \<open>The operand \<open>fwd_rs1\<close> or \<open>fwd_rs2\<close>: the forwarding unit's choice for the register \<open>rs\<close> of ID/EX.\<close>

definition forwarded :: "core \<Rightarrow> 5 word \<Rightarrow> u32w \<Rightarrow> u32w" where
  "forwarded c rs data =
     (let sel = forward_sel rs (exmem_valid (ex_mem_r c) \<and> exmem_reg_write (ex_mem_r c))
                  (exmem_rd_addr (ex_mem_r c)) (wb_reg_write c) (memwb_rd_addr (mem_wb_r c))
      in if sel = 0b10 then ex_mem_fwd_value c
         else if sel = 0b01 then wb_write_data c
         else data)"

definition fwd_rs1 :: "core \<Rightarrow> u32w" where
  "fwd_rs1 c = forwarded c (idex_rs1_addr (id_ex_r c)) (idex_rs1_data (id_ex_r c))"

definition fwd_rs2 :: "core \<Rightarrow> u32w" where
  "fwd_rs2 c = forwarded c (idex_rs2_addr (id_ex_r c)) (idex_rs2_data (id_ex_r c))"

definition alu_operand_a :: "core \<Rightarrow> u32w" where
  "alu_operand_a c = (if auipc (idex_ctl (id_ex_r c)) then idex_pc (id_ex_r c) else fwd_rs1 c)"

definition alu_operand_b :: "core \<Rightarrow> u32w" where
  "alu_operand_b c = (if alu_src (idex_ctl (id_ex_r c)) then idex_imm_ext (id_ex_r c) else fwd_rs2 c)"

definition alu_result_ex :: "core \<Rightarrow> u32w" where
  "alu_result_ex c = alu_result (alu_operand_a c) (alu_operand_b c) (alu_control (idex_ctl (id_ex_r c)))"

definition branch_decision :: "3 word \<Rightarrow> u32w \<Rightarrow> u32w \<Rightarrow> 4 word \<Rightarrow> bool" where
  "branch_decision funct3 a b op =
     (if funct3 = 0b000 then alu_zero a b op
      else if funct3 = 0b001 then \<not> alu_zero a b op
      else if funct3 = 0b100 then alu_negative a b op \<noteq> alu_overflow a b op
      else if funct3 = 0b101 then alu_negative a b op = alu_overflow a b op
      else False)"

definition branch_taken_ex :: "core \<Rightarrow> bool" where
  "branch_taken_ex c \<longleftrightarrow>
     branch (idex_ctl (id_ex_r c))
     \<and> branch_decision (idex_funct3 (id_ex_r c)) (alu_operand_a c) (alu_operand_b c)
         (alu_control (idex_ctl (id_ex_r c)))"

definition actual_taken_ex :: "core \<Rightarrow> bool" where
  "actual_taken_ex c \<longleftrightarrow>
     idex_valid (id_ex_r c) \<and> (jump (idex_ctl (id_ex_r c)) \<or> branch_taken_ex c)"

definition actual_target_ex :: "core \<Rightarrow> u32w" where
  "actual_target_ex c =
     (if jalr (idex_ctl (id_ex_r c))
      then word_cat (ucast (drop_bit 1 (alu_result_ex c)) :: 31 word) (0 :: 1 word)
      else idex_pc (id_ex_r c) + idex_imm_ext (id_ex_r c))"

definition is_control_flow_ex :: "core \<Rightarrow> bool" where
  "is_control_flow_ex c \<longleftrightarrow>
     idex_valid (id_ex_r c) \<and> (branch (idex_ctl (id_ex_r c)) \<or> jump (idex_ctl (id_ex_r c)))"

definition flush :: "core \<Rightarrow> bool" where
  "flush c \<longleftrightarrow>
     is_control_flow_ex c
     \<and> (actual_taken_ex c \<noteq> idex_pred_taken (id_ex_r c)
        \<or> (actual_taken_ex c \<and> actual_target_ex c \<noteq> idex_pred_target (id_ex_r c)))"

definition flush_target :: "core \<Rightarrow> u32w" where
  "flush_target c = (if actual_taken_ex c then actual_target_ex c else idex_pc_plus4 (id_ex_r c))"

definition next_ex_mem :: "core \<Rightarrow> ex_mem_t" where
  "next_ex_mem c =
     (let x = id_ex_r c
      in \<lparr>exmem_valid = idex_valid x, exmem_pc = idex_pc x, exmem_pc_plus4 = idex_pc_plus4 x,
          exmem_alu_result = alu_result_ex c, exmem_store_data = fwd_rs2 c,
          exmem_imm_ext = idex_imm_ext x, exmem_rd_addr = idex_rd_addr x,
          exmem_reg_write = reg_write (idex_ctl x), exmem_mem_to_reg = mem_to_reg (idex_ctl x),
          exmem_mem_read = mem_read (idex_ctl x), exmem_mem_write = mem_write (idex_ctl x),
          exmem_jump = jump (idex_ctl x), exmem_lui = lui (idex_ctl x)\<rparr>)"

section \<open>ID\<close>

definition stall :: "core \<Rightarrow> bool" where
  "stall c = hazard_unit (i_rs1 (ifid_instr (if_id_r c))) (i_rs2 (ifid_instr (if_id_r c)))
     (mem_read (idex_ctl (id_ex_r c))) (idex_rd_addr (id_ex_r c))"

definition read_data :: "core \<Rightarrow> 5 word \<Rightarrow> u32w" where
  "read_data c rs = read_port (wb_reg_write c) (memwb_rd_addr (mem_wb_r c)) (wb_write_data c) (rf c) rs"

text \<open>The control signals latched into ID/EX; five of them are masked with the valid bit of IF/ID.\<close>

definition latched_control :: "bool \<Rightarrow> u32w \<Rightarrow> control" where
  "latched_control ok i =
     (let k = control_unit (i_opcode i) (i_funct3 i) (i_funct7 i)
      in k\<lparr>reg_write := reg_write k \<and> ok, mem_read := mem_read k \<and> ok,
           mem_write := mem_write k \<and> ok, branch := branch k \<and> ok, jump := jump k \<and> ok\<rparr>)"

definition next_id_ex :: "core \<Rightarrow> id_ex_t" where
  "next_id_ex c =
     (if flush c \<or> stall c then id_ex_0
      else let d = if_id_r c; i = ifid_instr d
           in \<lparr>idex_valid = ifid_valid d, idex_pc = ifid_pc d, idex_pc_plus4 = ifid_pc_plus4 d,
               idex_rs1_data = read_data c (i_rs1 i), idex_rs2_data = read_data c (i_rs2 i),
               idex_imm_ext = imm_gen i, idex_rs1_addr = i_rs1 i, idex_rs2_addr = i_rs2 i,
               idex_rd_addr = i_rd i, idex_funct3 = i_funct3 i,
               idex_pred_taken = ifid_pred_taken d, idex_pred_target = ifid_pred_target d,
               idex_ctl = latched_control (ifid_valid d) i\<rparr>)"

section \<open>IF\<close>

definition icache_addr_mux :: "core \<Rightarrow> u32w" where
  "icache_addr_mux c = (if loop_active (lb c) then icache_frozen_addr_q c else pc_if c)"

definition instr_if :: "rom \<Rightarrow> core \<Rightarrow> u32w" where
  "instr_if mem c = instruction_mem mem (icache_addr_mux c)"

definition instr_if_final :: "rom \<Rightarrow> core \<Rightarrow> u32w" where
  "instr_if_final mem c = instruction_out (lb c) (pc_if c) (instr_if mem c)"

definition predict_taken_if :: "core \<Rightarrow> bool" where
  "predict_taken_if c = predict_taken (bp c) (pc_if c)"

definition predict_target_if :: "core \<Rightarrow> u32w" where
  "predict_target_if c = predict_target (bp c) (pc_if c)"

definition pc_next_if :: "core \<Rightarrow> u32w" where
  "pc_next_if c =
     (if flush c then flush_target c
      else if predict_taken_if c then predict_target_if c
      else pc_if c + 4)"

definition next_pc_if :: "core \<Rightarrow> u32w" where
  "next_pc_if c = (if flush c \<or> \<not> stall c then pc_next_if c else pc_if c)"

definition next_if_id :: "rom \<Rightarrow> core \<Rightarrow> if_id_t" where
  "next_if_id mem c =
     (if flush c then if_id_0
      else if stall c then if_id_r c
      else \<lparr>ifid_valid = True, ifid_pc = pc_if c, ifid_pc_plus4 = pc_if c + 4,
            ifid_instr = instr_if_final mem c, ifid_pred_taken = predict_taken_if c,
            ifid_pred_target = predict_target_if c\<rparr>)"

section \<open>One clock cycle\<close>

definition core_step :: "rom \<Rightarrow> (u32w \<Rightarrow> u32w) \<Rightarrow> core \<Rightarrow> core" where
  "core_step mem outside c =
     \<lparr>pc_if = next_pc_if c,
      icache_frozen_addr_q = (if loop_active (lb c) then icache_frozen_addr_q c else pc_if c),
      if_id_r = next_if_id mem c,
      id_ex_r = next_id_ex c,
      ex_mem_r = next_ex_mem c,
      mem_wb_r = next_mem_wb outside c,
      rf = write_port (wb_reg_write c) (memwb_rd_addr (mem_wb_r c)) (wb_write_data c) (rf c),
      data_ram = data_mem_write (exmem_mem_write (ex_mem_r c)) (exmem_alu_result (ex_mem_r c))
        (exmem_store_data (ex_mem_r c)) (data_ram c),
      bp = bp_train (is_control_flow_ex c) (idex_pc (id_ex_r c)) (actual_taken_ex c)
        (actual_target_ex c) (bp c),
      lb = lb_step (pc_if c) (instr_if mem c) (predict_taken_if c) (predict_target_if c) (flush c)
        (stall c) (lb c)\<rparr>"

fun core_run :: "nat \<Rightarrow> rom \<Rightarrow> (u32w \<Rightarrow> u32w) \<Rightarrow> core \<Rightarrow> core" where
  "core_run 0 mem outside c = c"
| "core_run (Suc n) mem outside c = core_run n mem outside (core_step mem outside c)"

end
