(* ===== verification/Simulation.thy ===== *)
theory Simulation
  imports Main
begin

text \<open>
  Runs of a deterministic machine, and the interface of a stuttering refinement: a machine whose
  steps, under an abstraction function, are either one step of an abstract machine or no step at
  all. The locale derives once what every such refinement gives: the invariant on whole runs and the
  equality of the sequence of events with the trace of the abstract machine.
\<close>

fun samples :: "('c \<Rightarrow> 'c) \<Rightarrow> ('c \<Rightarrow> 'o) \<Rightarrow> nat \<Rightarrow> 'c \<Rightarrow> 'o list" where
  "samples step f 0 c = []"
| "samples step f (Suc n) c = f c # samples step f n (step c)"

lemma samples_length [simp]: "length (samples step f n c) = n"
  by (induction n arbitrary: c) auto

lemma samples_nth: "t < n \<Longrightarrow> samples step f n c ! t = f ((step ^^ t) c)"
proof (induction n arbitrary: c t)
  case (Suc n)
  then show ?case by (cases t) (auto simp: funpow_swap1)
qed simp

lemma samples_cong: "(\<And>t. t < n \<Longrightarrow> f ((step ^^ t) c) = g ((step ^^ t) c)) \<Longrightarrow>
    samples step f n c = samples step g n c"
  by (rule nth_equalityI) (auto simp: samples_nth)

text \<open>The events of a run: the outputs at the steps that have one.\<close>

definition events :: "('c \<Rightarrow> 'c) \<Rightarrow> ('c \<Rightarrow> 'e option) \<Rightarrow> nat \<Rightarrow> 'c \<Rightarrow> 'e list" where
  "events step f n c = List.map_filter id (samples step f n c)"

lemma events_0 [simp]: "events step f 0 c = []"
  by (simp add: events_def List.map_filter_simps)

lemma events_Suc [simp]:
  "events step f (Suc n) c = (case f c of None \<Rightarrow> [] | Some e \<Rightarrow> [e]) @ events step f n (step c)"
  by (simp add: events_def List.map_filter_simps split: option.splits)

text \<open>All states of the first \<open>n\<close> steps satisfy \<open>P\<close>.\<close>

definition throughout :: "('c \<Rightarrow> 'c) \<Rightarrow> ('c \<Rightarrow> bool) \<Rightarrow> nat \<Rightarrow> 'c \<Rightarrow> bool" where
  "throughout step P n c \<longleftrightarrow> (\<forall>t < n. P ((step ^^ t) c))"

lemma throughout_0 [simp]: "throughout step P 0 c"
  by (simp add: throughout_def)

lemma throughout_Suc [simp]:
  "throughout step P (Suc n) c \<longleftrightarrow> P c \<and> throughout step P n (step c)"
proof -
  have "(\<forall>t < Suc n. Q t) \<longleftrightarrow> Q 0 \<and> (\<forall>t < n. Q (Suc t))" for Q :: "nat \<Rightarrow> bool"
    by (metis less_Suc_eq_0_disj zero_less_Suc Suc_less_eq)
  then show ?thesis by (simp add: throughout_def funpow_swap1)
qed

fun trace_of :: "('a \<Rightarrow> 'a) \<Rightarrow> ('a \<Rightarrow> 'e) \<Rightarrow> nat \<Rightarrow> 'a \<Rightarrow> 'e list" where
  "trace_of astep ev 0 a = []"
| "trace_of astep ev (Suc n) a = ev a # trace_of astep ev n (astep a)"

lemma trace_of_length [simp]: "length (trace_of astep ev n a) = n"
  by (induction n arbitrary: a) auto

lemma trace_of_nth: "k < n \<Longrightarrow> trace_of astep ev n a ! k = ev ((astep ^^ k) a)"
proof (induction n arbitrary: a k)
  case (Suc n)
  then show ?case by (cases k) (auto simp: funpow_swap1)
qed simp

locale stuttering_refinement =
  fixes step :: "'c \<Rightarrow> 'c" and ok :: "'c \<Rightarrow> bool" and inv :: "'c \<Rightarrow> bool" and abs :: "'c \<Rightarrow> 'a"
    and issues :: "'c \<Rightarrow> bool" and astep :: "'a \<Rightarrow> 'a"
  assumes inv_step: "inv c \<Longrightarrow> ok c \<Longrightarrow> inv (step c)"
    and abs_step: "inv c \<Longrightarrow> ok c \<Longrightarrow> abs (step c) = (if issues c then astep (abs c) else abs c)"
begin

lemma inv_run: "inv c \<Longrightarrow> throughout step ok n c \<Longrightarrow> inv ((step ^^ n) c)"
  by (induction n arbitrary: c) (auto simp: funpow_swap1 intro: inv_step)

lemma inv_throughout: "inv c \<Longrightarrow> throughout step ok n c \<Longrightarrow> throughout step inv n c"
  by (induction n arbitrary: c) (auto intro: inv_step)

lemma events_trace_ex:
  "inv c \<Longrightarrow> throughout step ok n c \<Longrightarrow>
   \<exists>m. events step (\<lambda>c. if issues c then Some (ev (abs c)) else None) n c = trace_of astep ev m (abs c)"
proof (induction n arbitrary: c)
  case 0
  show ?case by (rule exI [of _ 0]) simp
next
  case (Suc n)
  then obtain m where "events step (\<lambda>c. if issues c then Some (ev (abs c)) else None) n (step c)
      = trace_of astep ev m (abs (step c))" using inv_step [of c] by auto
  then show ?case using abs_step [of c] Suc.prems
    by (intro exI [of _ "if issues c then Suc m else m"]) simp
qed

lemma events_trace:
  assumes "inv c" "throughout step ok n c"
  shows "events step (\<lambda>c. if issues c then Some (ev (abs c)) else None) n c
    = trace_of astep ev (length (events step (\<lambda>c. if issues c then Some (ev (abs c)) else None) n c)) (abs c)"
  using events_trace_ex [OF assms, of ev] by auto

text \<open>The abstract state after a run: one abstract step for every issue.\<close>

lemma abs_run:
  assumes "inv c" "throughout step ok n c"
  shows "abs ((step ^^ n) c)
    = (astep ^^ length (events step (\<lambda>c. if issues c then Some () else None) n c)) (abs c)"
  using assms
proof (induction n arbitrary: c)
  case (Suc n)
  then show ?case using inv_step [of c] abs_step [of c] by (auto simp: funpow_swap1)
qed simp

end

text \<open>
  Progress: the abstract machine advances at least once in every \<open>k\<close> steps, so \<open>m * k\<close> steps issue
  at least \<open>m\<close> events.
\<close>

locale progressing_refinement = stuttering_refinement +
  fixes k :: nat
  assumes issue_within: "inv c \<Longrightarrow> throughout step ok k c \<Longrightarrow> \<exists>t < k. issues ((step ^^ t) c)"
begin

lemma events_append:
  "events step f (m + n) c = events step f m c @ events step f n ((step ^^ m) c)"
  by (induction m arbitrary: c) (auto simp: funpow_swap1)

lemma throughout_append:
  "throughout step P (m + n) c \<longleftrightarrow> throughout step P m c \<and> throughout step P n ((step ^^ m) c)"
  by (induction m arbitrary: c) (auto simp: funpow_swap1)

lemma events_pos:
  assumes "t < n" "issues ((step ^^ t) c)"
  shows "1 \<le> length (events step (\<lambda>c. if issues c then Some (ev c) else None) n c)"
  using assms
proof (induction n arbitrary: c t)
  case (Suc n)
  then show ?case by (cases t) (auto simp: funpow_swap1)
qed simp

lemma events_progress:
  assumes "inv c" "throughout step ok (m * k) c"
  shows "m \<le> length (events step (\<lambda>c. if issues c then Some (ev c) else None) (m * k) c)"
  using assms
proof (induction m arbitrary: c)
  case (Suc m)
  let ?f = "\<lambda>c. if issues c then Some (ev c) else None"
  have o: "throughout step ok k c" "throughout step ok (m * k) ((step ^^ k) c)"
    using Suc.prems(2) by (simp_all add: throughout_append)
  obtain t where "t < k" "issues ((step ^^ t) c)" using issue_within [OF Suc.prems(1) o(1)] by blast
  from events_pos [OF this] have "1 \<le> length (events step ?f k c)" .
  moreover have "m \<le> length (events step ?f (m * k) ((step ^^ k) c))"
    by (rule Suc.IH [OF inv_run [OF Suc.prems(1) o(1)] o(2)])
  ultimately show ?case by (simp add: events_append)
qed simp

end

section \<open>Lock-step\<close>

text \<open>
  The events of a machine that can stop, and the interface of a lock-step simulation: a relation under
  which such a machine makes a matching step for every step of the other one, hence never stops.
\<close>

fun emits :: "('b \<Rightarrow> ('f \<times> 'b) option) \<Rightarrow> nat \<Rightarrow> 'b \<Rightarrow> 'f list" where
  "emits advance 0 b = []"
| "emits advance (Suc n) b = (case advance b of None \<Rightarrow> [] | Some (f, b') \<Rightarrow> f # emits advance n b')"

locale lockstep =
  fixes step :: "'a \<Rightarrow> 'a" and event :: "'a \<Rightarrow> 'e" and advance :: "'b \<Rightarrow> ('f \<times> 'b) option"
    and related :: "'a \<Rightarrow> 'b \<Rightarrow> bool" and matches :: "'e \<Rightarrow> 'f \<Rightarrow> bool"
  assumes locked: "related a b \<Longrightarrow> \<exists>f b'. advance b = Some (f, b') \<and> matches (event a) f \<and> related (step a) b'"
begin

lemma events_match: "related a b \<Longrightarrow> list_all2 matches (trace_of step event n a) (emits advance n b)"
proof (induction n arbitrary: a b)
  case (Suc n)
  from locked [OF Suc.prems] obtain f b' where
    "advance b = Some (f, b')" "matches (event a) f" "related (step a) b'" by blast
  with Suc.IH [of "step a" b'] show ?case by simp
qed simp

end

end
