(* ===== verification/Rtl_Isa.thy ===== *)
theory Rtl_Isa
  imports Rtl_Core Simulation
begin

text \<open>
  The instruction set as a one-instruction-at-a-time machine over the memories of the core, written
  with the decoding functions of the single-cycle simulator \<open>src/main.cpp\<close>. It is the specification
  of the pipeline. Where the core implements less than the simulator the specification says what the
  core does: every load and store moves a word, and the unsigned branches are never taken.

  The lemmas show that the combinational path of one instruction, from the control unit and the
  immediate generator through the ALU, computes the effect the specification gives.
\<close>

section \<open>Specification\<close>

record effect =
  e_write :: "(5 word \<times> u32w) option"
  e_store :: "(u32w \<times> u32w) option"
  e_next :: u32w

definition isa_alu :: "u32w \<Rightarrow> bool \<Rightarrow> bool \<Rightarrow> u32w \<Rightarrow> u32w \<Rightarrow> u32w" where
  "isa_alu funct3 sub sra a b =
     (if funct3 = 0x0 then execute_alu a b (if sub then ''SUB'' else ''ADD'')
      else if funct3 = 0x1 then execute_alu a (b AND 0x1F) ''SLL''
      else if funct3 = 0x2 then execute_alu a b ''SLT''
      else if funct3 = 0x3 then execute_alu a b ''SLTU''
      else if funct3 = 0x4 then execute_alu a b ''XOR''
      else if funct3 = 0x5 then execute_alu a (b AND 0x1F) (if sra then ''SRA'' else ''SRL'')
      else if funct3 = 0x6 then execute_alu a b ''OR''
      else execute_alu a b ''AND'')"

definition isa_branch :: "u32w \<Rightarrow> u32w \<Rightarrow> u32w \<Rightarrow> bool" where
  "isa_branch funct3 a b =
     (if funct3 = 0x0 then a = b
      else if funct3 = 0x1 then a \<noteq> b
      else if funct3 = 0x4 then a <s b
      else if funct3 = 0x5 then b \<le>s a
      else False)"

text \<open>The effect of instruction \<open>i\<close> at \<open>p\<close> on operands \<open>a\<close>, \<open>b\<close>, with \<open>load\<close> reading the memory.\<close>

definition isa_effect :: "(u32w \<Rightarrow> u32w) \<Rightarrow> u32w \<Rightarrow> u32w \<Rightarrow> u32w \<Rightarrow> u32w \<Rightarrow> effect" where
  "isa_effect load i p a b =
     (let opcode = f_opcode i; rd = i_rd i; imm = sign_extend_12 (drop_bit 20 i); upper = i AND 0xFFFFF000;
          plain = \<lparr>e_write = None, e_store = None, e_next = p + 4\<rparr>
      in if opcode = 0x33 then
           plain\<lparr>e_write := Some (rd, isa_alu (f_funct3 i) (f_funct7 i = 0x20) (bit i 30) a b)\<rparr>
         else if opcode = 0x13 then
           plain\<lparr>e_write := Some (rd, isa_alu (f_funct3 i) False (bit i 30) a imm)\<rparr>
         else if opcode = 0x03 then plain\<lparr>e_write := Some (rd, load (a + imm))\<rparr>
         else if opcode = 0x23 then plain\<lparr>e_store := Some (a + decode_S_imm i, b)\<rparr>
         else if opcode = 0x63 then
           plain\<lparr>e_next := (if isa_branch (f_funct3 i) a b then p + decode_B_imm i else p + 4)\<rparr>
         else if opcode = 0x6F then plain\<lparr>e_write := Some (rd, p + 4), e_next := p + decode_J_imm i\<rparr>
         else if opcode = 0x67 then
           plain\<lparr>e_write := Some (rd, p + 4), e_next := (a + imm) AND NOT 1\<rparr>
         else if opcode = 0x37 then plain\<lparr>e_write := Some (rd, upper)\<rparr>
         else if opcode = 0x17 then plain\<lparr>e_write := Some (rd, p + upper)\<rparr>
         else plain)"

record arch =
  apc :: u32w
  aregs :: regs
  adata :: ram

definition areg :: "regs \<Rightarrow> 5 word \<Rightarrow> u32w" where
  "areg f r = (if r = 0 then 0 else f r)"

definition effect_at :: "rom \<Rightarrow> (u32w \<Rightarrow> u32w) \<Rightarrow> arch \<Rightarrow> effect" where
  "effect_at mem outside A =
     (let i = instruction_mem mem (apc A)
      in isa_effect (ram_read outside (adata A)) i (apc A) (areg (aregs A) (i_rs1 i))
           (areg (aregs A) (i_rs2 i)))"

definition apply_effect :: "effect \<Rightarrow> arch \<Rightarrow> arch" where
  "apply_effect e A =
     \<lparr>apc = e_next e,
      aregs = (case e_write e of None \<Rightarrow> aregs A | Some (rd, v) \<Rightarrow> write_port True rd v (aregs A)),
      adata = (case e_store e of None \<Rightarrow> adata A | Some (x, v) \<Rightarrow> data_mem_write True x v (adata A))\<rparr>"

definition isa_step :: "rom \<Rightarrow> (u32w \<Rightarrow> u32w) \<Rightarrow> arch \<Rightarrow> arch" where
  "isa_step mem outside A = apply_effect (effect_at mem outside A) A"

text \<open>What retires: the address, the register write and the store of each instruction.\<close>

type_synonym event = "u32w \<times> (5 word \<times> u32w) option \<times> (u32w \<times> u32w) option"

definition isa_event :: "rom \<Rightarrow> (u32w \<Rightarrow> u32w) \<Rightarrow> arch \<Rightarrow> event" where
  "isa_event mem outside A =
     (apc A, e_write (effect_at mem outside A), e_store (effect_at mem outside A))"

definition isa_trace :: "nat \<Rightarrow> rom \<Rightarrow> (u32w \<Rightarrow> u32w) \<Rightarrow> arch \<Rightarrow> event list" where
  "isa_trace n mem outside A = trace_of (isa_step mem outside) (isa_event mem outside) n A"

section \<open>Fields and opcodes\<close>

lemma and_mask_ucast:
  "(w :: u32w) AND 0x7F = ucast (ucast w :: 7 word)"
  "w AND 0x1F = ucast (ucast w :: 5 word)"
  "w AND 0x7 = ucast (ucast w :: 3 word)"
proof -
  have m: "(0x7F :: u32w) = mask 7" "(0x1F :: u32w) = mask 5" "(0x7 :: u32w) = mask 3"
    by (simp_all add: mask_eq_exp_minus_1)
  show "w AND 0x7F = ucast (ucast w :: 7 word)" "w AND 0x1F = ucast (ucast w :: 5 word)"
    "w AND 0x7 = ucast (ucast w :: 3 word)"
    unfolding m by (rule bit_word_eqI; auto simp: bit_simps)+
qed

lemma f_ucast:
  "f_opcode i = ucast (i_opcode i)" "f_funct3 i = ucast (i_funct3 i)" "f_funct7 i = ucast (i_funct7 i)"
  "f_rd i = ucast (i_rd i)" "f_rs1 i = ucast (i_rs1 i)" "f_rs2 i = ucast (i_rs2 i)"
  by (simp_all add: f_opcode_def i_opcode_def f_funct3_def i_funct3_def f_funct7_def i_funct7_def
      f_rd_def i_rd_def f_rs1_def i_rs1_def f_rs2_def i_rs2_def and_mask_ucast)

lemma ucast_up_iff:
  "(ucast (x :: 7 word) :: u32w) = ucast y \<longleftrightarrow> x = y"
  "(ucast (u :: 3 word) :: u32w) = ucast v \<longleftrightarrow> u = v"
  "(ucast (r :: 5 word) :: u32w) = ucast s \<longleftrightarrow> r = s"
  by (auto simp: word_uint_eq_iff uint_up_ucast is_up)

lemma opcode_iff:
  "f_opcode i = 0x33 \<longleftrightarrow> i_opcode i = 0x33" "f_opcode i = 0x13 \<longleftrightarrow> i_opcode i = 0x13"
  "f_opcode i = 0x03 \<longleftrightarrow> i_opcode i = 0x03" "f_opcode i = 0x23 \<longleftrightarrow> i_opcode i = 0x23"
  "f_opcode i = 0x63 \<longleftrightarrow> i_opcode i = 0x63" "f_opcode i = 0x6F \<longleftrightarrow> i_opcode i = 0x6F"
  "f_opcode i = 0x67 \<longleftrightarrow> i_opcode i = 0x67" "f_opcode i = 0x37 \<longleftrightarrow> i_opcode i = 0x37"
  "f_opcode i = 0x17 \<longleftrightarrow> i_opcode i = 0x17"
  unfolding f_ucast ucast_up_iff(1) [symmetric] by simp_all

lemma funct_iff:
  "f_funct3 i = 0x0 \<longleftrightarrow> i_funct3 i = 0" "f_funct3 i = 0x1 \<longleftrightarrow> i_funct3 i = 1"
  "f_funct3 i = 0x2 \<longleftrightarrow> i_funct3 i = 2" "f_funct3 i = 0x3 \<longleftrightarrow> i_funct3 i = 3"
  "f_funct3 i = 0x4 \<longleftrightarrow> i_funct3 i = 4" "f_funct3 i = 0x5 \<longleftrightarrow> i_funct3 i = 5"
  "f_funct3 i = 0x6 \<longleftrightarrow> i_funct3 i = 6" "f_funct7 i = 0x20 \<longleftrightarrow> i_funct7 i = 0x20"
  unfolding f_ucast ucast_up_iff [symmetric] by simp_all

lemma funct7_bit: "bit (i_funct7 i) 5 \<longleftrightarrow> bit i 30"
  by (simp add: i_funct7_def bit_simps)

section \<open>The immediate generator\<close>

lemma bit_and_exp: "(w AND (2 ^ k :: u32w)) \<noteq> 0 \<longleftrightarrow> k < 32 \<and> bit w k"
  by (auto simp: and_exp_eq_0_iff_not_bit dest: bit_imp_le_length)

lemma bit_rep_bit [simp]: "bit (rep_bit b :: 'a::len word) n \<longleftrightarrow> b \<and> n < LENGTH('a)"
  by (auto simp: rep_bit_def bit_simps)

lemma decode_masks:
  "(0x800 :: u32w) = 2 ^ 11" "(0x1000 :: u32w) = 2 ^ 12" "(0x100000 :: u32w) = 2 ^ 20"
  "(0xFFFFF000 :: u32w) = NOT (mask 12)" "(0xFFFFE000 :: u32w) = NOT (mask 13)"
  "(0xFFE00000 :: u32w) = NOT (mask 21)" "(0x1 :: u32w) = mask 1" "(0x3F :: u32w) = mask 6"
  "(0xF :: u32w) = mask 4" "(0x3FF :: u32w) = mask 10" "(0xFF :: u32w) = mask 8"
  "(0x7F :: u32w) = mask 7" "(0x1F :: u32w) = mask 5"
  by (simp_all add: mask_eq_exp_minus_1)

lemma decode_I: "sign_extend_12 (drop_bit 20 i) =
    word_cat (rep_bit (bit i 31) :: 20 word) (ucast (drop_bit 20 i) :: 12 word)"
  unfolding sign_extend_12_def decode_masks bit_and_exp
  by (rule bit_word_eqI) (auto simp: bit_simps bit_word_cat_iff not_less dest: bit_imp_le_length)

lemma decode_S: "decode_S_imm i =
    word_cat (word_cat (rep_bit (bit i 31) :: 20 word) (ucast (drop_bit 25 i) :: 7 word) :: 27 word)
      (ucast (drop_bit 7 i) :: 5 word)"
  unfolding decode_S_imm_def Let_def decode_masks bit_and_exp
  by (rule bit_word_eqI) (auto simp: bit_simps bit_word_cat_iff not_less dest: bit_imp_le_length)

lemma decode_B: "decode_B_imm i =
    word_cat (word_cat (word_cat (word_cat (rep_bit (bit i 31) :: 20 word)
      (ucast (drop_bit 7 i) :: 1 word) :: 21 word) (ucast (drop_bit 25 i) :: 6 word) :: 27 word)
      (ucast (drop_bit 8 i) :: 4 word) :: 31 word) (0 :: 1 word)" (is "_ = ?r")
proof (rule bit_word_eqI)
  fix n
  assume "n < LENGTH(32)"
  then consider "n = 0" | "1 \<le> n" "n \<le> 4" | "5 \<le> n" "n \<le> 10" | "n = 11" | "n = 12" | "13 \<le> n" "n < 32"
    by fastforce
  then show "bit (decode_B_imm i) n \<longleftrightarrow> bit ?r n"
    unfolding decode_B_imm_def Let_def decode_masks bit_and_exp if_distrib [of "\<lambda>w. bit w _"]
      bit_or_iff bit_push_bit_iff bit_and_iff
    by cases (auto simp: bit_simps bit_word_cat_iff dest: bit_imp_le_length)
qed

lemma decode_J: "decode_J_imm i =
    word_cat (word_cat (word_cat (word_cat (rep_bit (bit i 31) :: 12 word)
      (ucast (drop_bit 12 i) :: 8 word) :: 20 word) (ucast (drop_bit 20 i) :: 1 word) :: 21 word)
      (ucast (drop_bit 21 i) :: 10 word) :: 31 word) (0 :: 1 word)" (is "_ = ?r")
proof (rule bit_word_eqI)
  fix n
  assume "n < LENGTH(32)"
  then consider "n = 0" | "1 \<le> n" "n \<le> 10" | "n = 11" | "12 \<le> n" "n \<le> 19" | "n = 20"
    | "21 \<le> n" "n < 32" by fastforce
  then show "bit (decode_J_imm i) n \<longleftrightarrow> bit ?r n"
    unfolding decode_J_imm_def Let_def decode_masks bit_and_exp if_distrib [of "\<lambda>w. bit w _"]
      bit_or_iff bit_push_bit_iff bit_and_iff
    by cases (auto simp: bit_simps bit_word_cat_iff dest: bit_imp_le_length)
qed

lemma decode_U: "(i :: u32w) AND 0xFFFFF000 = word_cat (ucast (drop_bit 12 i) :: 20 word) (0 :: 12 word)"
  unfolding decode_masks
  by (rule bit_word_eqI) (auto simp: bit_simps bit_word_cat_iff)

text \<open>The immediate generator selects the decoding of the simulator by the opcode.\<close>

lemma imm_gen_decode:
  "imm_gen i =
     (let opcode = f_opcode i
      in if opcode = 0x13 \<or> opcode = 0x03 \<or> opcode = 0x67 then sign_extend_12 (drop_bit 20 i)
         else if opcode = 0x23 then decode_S_imm i
         else if opcode = 0x63 then decode_B_imm i
         else if opcode = 0x6F then decode_J_imm i
         else if opcode = 0x37 \<or> opcode = 0x17 then i AND 0xFFFFF000
         else 0)"
  unfolding imm_gen_def Let_def opcode_iff decode_I decode_S decode_B decode_J decode_U by (rule refl)

section \<open>The ALU and the branch decision\<close>

lemma word3_exhaust: "(x :: 3 word) = 0 \<or> x = 1 \<or> x = 2 \<or> x = 3 \<or> x = 4 \<or> x = 5 \<or> x = 6 \<or> x = 7"
proof -
  have "unat x < 8" using unsigned_less [of x, where ?'a = nat] by simp
  then have "unat x = 0 \<or> unat x = 1 \<or> unat x = 2 \<or> unat x = 3 \<or> unat x = 4 \<or> unat x = 5 \<or> unat x = 6 \<or> unat x = 7"
    by linarith
  then show ?thesis by (elim disj_forward) (simp_all add: word_unat_eq_iff)
qed

lemma unat_and_1F: "unat ((b :: u32w) AND 0x1F) = unat (ucast b :: 5 word)"
proof -
  have "unat (ucast x :: u32w) = unat x" for x :: "5 word"
    using unsigned_less [of x, where ?'a = nat] by (simp add: unsigned_ucast_eq take_bit_nat_eq_self)
  then show ?thesis unfolding and_mask_ucast .
qed

lemma isa_alu_r:
  "isa_alu (f_funct3 i) (f_funct7 i = 0x20) (bit i 30) a b
   = alu_result a b (r_alu_control (i_funct3 i) (i_funct7 i))"
  using word3_exhaust [of "i_funct3 i"] unfolding isa_alu_def funct_iff funct7_bit [symmetric]
  by (elim disjE) (simp_all add: execute_alu_def r_alu_control_def alu_result_def unat_and_1F)

lemma isa_alu_i:
  "isa_alu (f_funct3 i) False (bit i 30) a b = alu_result a b (i_alu_control (i_funct3 i) (i_funct7 i))"
  using word3_exhaust [of "i_funct3 i"] unfolding isa_alu_def funct_iff funct7_bit [symmetric]
  by (elim disjE) (simp_all add: execute_alu_def i_alu_control_def alu_result_def unat_and_1F)

lemma bit31: "bit (w :: u32w) 31 \<longleftrightarrow> 2 ^ 31 \<le> uint w"
proof -
  have "uint w < 2 ^ 32" using unsigned_less [of w, where ?'a = int] by simp
  moreover have "uint w div 2 ^ 31 = 1" if "2 ^ 31 \<le> uint w" "uint w < 2 ^ 32"
    using that by (intro int_div_pos_eq [where r = "uint w - 2 ^ 31"]) simp_all
  moreover have "uint w div 2 ^ 31 = 0" if "\<not> 2 ^ 31 \<le> uint w" using that by simp
  ultimately have "odd (uint w div 2 ^ 31) \<longleftrightarrow> 2 ^ 31 \<le> uint w"
    by (cases "2 ^ 31 \<le> uint w") auto
  then show ?thesis unfolding bit_iff_odd [of "uint w", symmetric] by (simp add: bit_uint_iff)
qed

lemma sint_uint31: "sint (w :: u32w) = (if 2 ^ 31 \<le> uint w then uint w - 2 ^ 32 else uint w)"
proof -
  have "bit (uint w) 31 \<longleftrightarrow> 2 ^ 31 \<le> uint w" using bit31 [of w] by (simp add: bit_uint_iff)
  moreover have "take_bit 32 (uint w) = uint w" using unsigned_less [of w, where ?'a = int] by (simp add: take_bit_int_eq_self_iff)
  ultimately show ?thesis by (simp add: sint_uint signed_take_bit_eq_take_bit_minus)
qed

lemma signed_less_int:
  fixes x y :: int
  assumes "0 \<le> x" "x < 2 ^ 32" "0 \<le> y" "y < 2 ^ 32" "d = (if y \<le> x then x - y else x - y + 2 ^ 32)"
  shows "((2 ^ 31 \<le> d) \<noteq> ((2 ^ 31 \<le> x) \<noteq> (2 ^ 31 \<le> y) \<and> (2 ^ 31 \<le> d) \<noteq> (2 ^ 31 \<le> x)))
    \<longleftrightarrow> (if 2 ^ 31 \<le> x then x - 2 ^ 32 else x) < (if 2 ^ 31 \<le> y then y - 2 ^ 32 else y)"
  using assms by (auto split: if_splits)

lemma signed_less:
  "(bit (a - b) 31 \<noteq> (bit a 31 \<noteq> bit b 31 \<and> bit (a - b) 31 \<noteq> bit a 31)) \<longleftrightarrow> (a :: u32w) <s b"
  unfolding word_sless_alt sint_uint31 bit31
  by (rule signed_less_int)
    (use unsigned_less [of a, where ?'a = int] unsigned_less [of b, where ?'a = int] in
      \<open>simp_all add: uint_sub_if'\<close>)

lemma branch_decision_isa:
  "branch_decision (i_funct3 i) a b 1 = isa_branch (f_funct3 i) a b"
  unfolding isa_branch_def funct_iff branch_decision_def alu_zero_def alu_negative_def alu_overflow_def
  using signed_less [of a b]
  by (auto simp: alu_result_def word_sle_eq word_sless_alt not_less)
section \<open>The execute stage\<close>

definition decoded :: "u32w \<Rightarrow> id_ex_t \<Rightarrow> bool" where
  "decoded i x \<longleftrightarrow>
     idex_pc_plus4 x = idex_pc x + 4 \<and> idex_imm_ext x = imm_gen i
     \<and> idex_rs1_addr x = i_rs1 i \<and> idex_rs2_addr x = i_rs2 i \<and> idex_rd_addr x = i_rd i
     \<and> idex_funct3 x = i_funct3 i \<and> idex_ctl x = control_unit (i_opcode i) (i_funct3 i) (i_funct7 i)"

lemma jalr_target: "word_cat (ucast (drop_bit 1 (r :: u32w)) :: 31 word) (0 :: 1 word) = r AND NOT 1"
proof -
  have m: "(1 :: u32w) = mask 1" by (simp add: mask_eq_exp_minus_1)
  show ?thesis unfolding m
    by (rule bit_word_eqI) (auto simp: bit_simps bit_word_cat_iff simp del: mask_Suc_0 mask_1)
qed

text \<open>The value an instruction in EX/MEM or leaving EX will write back.\<close>

definition result_value :: "(u32w \<Rightarrow> u32w) \<Rightarrow> bool \<Rightarrow> u32w \<Rightarrow> bool \<Rightarrow> u32w \<Rightarrow> bool \<Rightarrow> u32w \<Rightarrow> u32w" where
  "result_value load is_lui imm is_jump pc4 is_load r =
     (if is_lui then imm else if is_jump then pc4 else if is_load then load r else r)"

lemma ex_effect:
  assumes "idex_valid (id_ex_r c)" "decoded i (id_ex_r c)" "p = idex_pc (id_ex_r c)"
  defines "k \<equiv> idex_ctl (id_ex_r c)" and "e \<equiv> \<lambda>load. isa_effect load i p (fwd_rs1 c) (fwd_rs2 c)"
  shows "e_next (e load) = (if actual_taken_ex c then actual_target_ex c else p + 4)" (is ?next)
    "e_store (e load) = (if mem_write k then Some (alu_result_ex c, fwd_rs2 c) else None)" (is ?store)
    "e_write (e load) = (if reg_write k
       then Some (i_rd i, result_value load (lui k) (imm_gen i) (jump k) (p + 4) (mem_to_reg k) (alu_result_ex c))
       else None)" (is ?regw)
proof -
  note d = assms(2) [unfolded decoded_def]
  note defs = e_def k_def isa_effect_def Let_def opcode_iff actual_taken_ex_def branch_taken_ex_def
    actual_target_ex_def alu_result_ex_def alu_operand_a_def alu_operand_b_def control_unit_def
    no_control_def imm_gen_decode result_value_def isa_alu_r isa_alu_i assms(1) assms(3) d
    branch_decision_isa jalr_target [simplified]
  consider "i_opcode i = 0x33" | "i_opcode i = 0x13" | "i_opcode i = 0x03" | "i_opcode i = 0x23"
    | "i_opcode i = 0x63" | "i_opcode i = 0x6F" | "i_opcode i = 0x67" | "i_opcode i = 0x37"
    | "i_opcode i = 0x17" | "i_opcode i \<notin> {0x33, 0x13, 0x03, 0x23, 0x63, 0x6F, 0x67, 0x37, 0x17}" by blast
  note this
  then show ?next ?store ?regw
    unfolding atomize_conj
    by cases (simp_all add: defs alu_result_def [of _ _ 0])
qed
end
