(* ===== verification/Rtl_Pipeline.thy ===== *)
theory Rtl_Pipeline
  imports Rtl_Isa
begin

text \<open>
  The pipeline refines the one-instruction-at-a-time machine of \<open>Rtl_Isa\<close>. The abstraction
  \<open>arch_of\<close> completes the two instructions behind EX (the one in EX/MEM and the one in MEM/WB) and
  discards everything in front of it; \<open>pipe_inv\<close> says that ID/EX and IF/ID hold the instructions at
  the addresses the prediction gives, with operands as the register file has them, that the stall has
  kept a load apart from its user, and that only control-flow instructions are predicted taken. A
  clock cycle is one abstract step if EX holds a valid instruction and none otherwise.

  What the loop buffer delivers is left to the hypothesis \<open>fetch_ok\<close> of this theory.
\<close>

section \<open>The architectural state of the pipeline\<close>

definition exmem_result :: "(u32w \<Rightarrow> u32w) \<Rightarrow> core \<Rightarrow> u32w" where
  "exmem_result outside c =
     (let m = ex_mem_r c
      in result_value (ram_read outside (data_ram c)) (exmem_lui m) (exmem_imm_ext m) (exmem_jump m)
           (exmem_pc_plus4 m) (exmem_mem_to_reg m) (exmem_alu_result m))"

definition exmem_writes :: "core \<Rightarrow> bool" where
  "exmem_writes c \<longleftrightarrow> exmem_valid (ex_mem_r c) \<and> exmem_reg_write (ex_mem_r c)"

definition committed_regs :: "(u32w \<Rightarrow> u32w) \<Rightarrow> core \<Rightarrow> regs" where
  "committed_regs outside c =
     write_port (exmem_writes c) (exmem_rd_addr (ex_mem_r c)) (exmem_result outside c)
       (write_port (wb_reg_write c) (memwb_rd_addr (mem_wb_r c)) (wb_write_data c) (rf c))"

definition committed_ram :: "core \<Rightarrow> ram" where
  "committed_ram c = data_mem_write (exmem_mem_write (ex_mem_r c)) (exmem_alu_result (ex_mem_r c))
     (exmem_store_data (ex_mem_r c)) (data_ram c)"

definition next_pc :: "core \<Rightarrow> u32w" where
  "next_pc c = (if idex_valid (id_ex_r c) then idex_pc (id_ex_r c)
     else if ifid_valid (if_id_r c) then ifid_pc (if_id_r c) else pc_if c)"

definition arch_of :: "(u32w \<Rightarrow> u32w) \<Rightarrow> core \<Rightarrow> arch" where
  "arch_of outside c =
     \<lparr>apc = next_pc c, aregs = committed_regs outside c, adata = committed_ram c\<rparr>"

section \<open>The invariant\<close>

definition control_flow :: "u32w \<Rightarrow> bool" where
  "control_flow i \<longleftrightarrow> i_opcode i = 0x63 \<or> i_opcode i = 0x6F \<or> i_opcode i = 0x67"

definition bp_inv :: "rom \<Rightarrow> predictor \<Rightarrow> bool" where
  "bp_inv mem p \<longleftrightarrow>
     (\<forall>a. btb_valid p (pc_idx a) \<and> btb_tag p (pc_idx a) = pc_tag a \<longrightarrow> control_flow (instruction_mem mem a))"

definition predicted_next :: "bool \<Rightarrow> u32w \<Rightarrow> u32w \<Rightarrow> u32w" where
  "predicted_next taken target p = (if taken then target else p + 4)"

definition if_id_ok :: "rom \<Rightarrow> u32w \<Rightarrow> if_id_t \<Rightarrow> bool" where
  "if_id_ok mem fetch d \<longleftrightarrow> (ifid_valid d \<longrightarrow>
     ifid_instr d = instruction_mem mem (ifid_pc d) \<and> ifid_pc_plus4 d = ifid_pc d + 4
     \<and> fetch = predicted_next (ifid_pred_taken d) (ifid_pred_target d) (ifid_pc d)
     \<and> (ifid_pred_taken d \<longrightarrow> control_flow (ifid_instr d)))"

definition id_ex_ok :: "rom \<Rightarrow> regs \<Rightarrow> if_id_t \<Rightarrow> id_ex_t \<Rightarrow> bool" where
  "id_ex_ok mem f d x \<longleftrightarrow>
     (if idex_valid x then
        decoded (instruction_mem mem (idex_pc x)) x
        \<and> idex_rs1_data x = areg f (idex_rs1_addr x) \<and> idex_rs2_data x = areg f (idex_rs2_addr x)
        \<and> ifid_valid d
        \<and> ifid_pc d = predicted_next (idex_pred_taken x) (idex_pred_target x) (idex_pc x)
        \<and> (idex_pred_taken x \<longrightarrow> control_flow (instruction_mem mem (idex_pc x)))
      else \<not> reg_write (idex_ctl x) \<and> \<not> mem_read (idex_ctl x) \<and> \<not> mem_write (idex_ctl x))"

definition ex_mem_ok :: "id_ex_t \<Rightarrow> ex_mem_t \<Rightarrow> bool" where
  "ex_mem_ok x m \<longleftrightarrow>
     (if exmem_valid m then
        exmem_mem_read m = exmem_mem_to_reg m
        \<and> (exmem_mem_read m \<longrightarrow> \<not> exmem_lui m \<and> \<not> exmem_jump m \<and> \<not> exmem_mem_write m)
        \<and> (exmem_mem_read m \<and> exmem_rd_addr m \<noteq> 0 \<and> idex_valid x \<longrightarrow>
             idex_rs1_addr x \<noteq> exmem_rd_addr m \<and> idex_rs2_addr x \<noteq> exmem_rd_addr m)
      else \<not> exmem_mem_write m)"

definition pipe_inv :: "rom \<Rightarrow> core \<Rightarrow> bool" where
  "pipe_inv mem c \<longleftrightarrow>
     bp_inv mem (bp c) \<and> if_id_ok mem (pc_if c) (if_id_r c) \<and> id_ex_ok mem (rf c) (if_id_r c) (id_ex_r c)
     \<and> ex_mem_ok (id_ex_r c) (ex_mem_r c)"

text \<open>The instruction delivered to IF/ID is the one in memory.\<close>

definition fetch_ok :: "rom \<Rightarrow> core \<Rightarrow> bool" where
  "fetch_ok mem c \<longleftrightarrow>
     (\<not> flush c \<and> \<not> stall c \<longrightarrow> instr_if_final mem c = instruction_mem mem (pc_if c))"

section \<open>Operands\<close>

lemma areg_write_port: "areg (write_port w rd v f) r = read_port w rd v f r"
  by (auto simp: areg_def write_port_def read_port_def)

lemma forwarded_operand:
  assumes "idex_valid (id_ex_r c)" "ex_mem_ok (id_ex_r c) (ex_mem_r c)"
    and "rs = idex_rs1_addr (id_ex_r c) \<or> rs = idex_rs2_addr (id_ex_r c)"
  shows "forwarded c rs (areg (rf c) rs) = areg (committed_regs outside c) rs"
  using assms
  by (auto simp: forwarded_def forward_sel_def committed_regs_def areg_write_port read_port_def
      exmem_writes_def ex_mem_ok_def exmem_result_def ex_mem_fwd_value_def result_value_def
      areg_def write_port_def Let_def split: if_splits)

lemma fwd_operands:
  assumes "idex_valid (id_ex_r c)" "pipe_inv mem c"
  shows "fwd_rs1 c = areg (committed_regs outside c) (i_rs1 (instruction_mem mem (idex_pc (id_ex_r c))))"
    "fwd_rs2 c = areg (committed_regs outside c) (i_rs2 (instruction_mem mem (idex_pc (id_ex_r c))))"
  using assms forwarded_operand [of c]
  unfolding fwd_rs1_def fwd_rs2_def by (auto simp: pipe_inv_def id_ex_ok_def decoded_def)

section \<open>One clock cycle\<close>

lemma core_step_simps [simp]:
  "pc_if (core_step mem outside c) = next_pc_if c" "if_id_r (core_step mem outside c) = next_if_id mem c"
  "id_ex_r (core_step mem outside c) = next_id_ex c" "ex_mem_r (core_step mem outside c) = next_ex_mem c"
  "mem_wb_r (core_step mem outside c) = next_mem_wb outside c"
  "rf (core_step mem outside c) = write_port (wb_reg_write c) (memwb_rd_addr (mem_wb_r c)) (wb_write_data c) (rf c)"
  "data_ram (core_step mem outside c) = committed_ram c"
  "bp (core_step mem outside c) = bp_train (is_control_flow_ex c) (idex_pc (id_ex_r c)) (actual_taken_ex c)
     (actual_target_ex c) (bp c)"
  "lb (core_step mem outside c) = lb_step (pc_if c) (instr_if mem c) (predict_taken_if c) (predict_target_if c)
     (flush c) (stall c) (lb c)"
  by (simp_all add: core_step_def committed_ram_def)

lemma next_ex_mem_simps [simp]:
  "exmem_valid (next_ex_mem c) = idex_valid (id_ex_r c)" "exmem_pc (next_ex_mem c) = idex_pc (id_ex_r c)"
  "exmem_pc_plus4 (next_ex_mem c) = idex_pc_plus4 (id_ex_r c)" "exmem_alu_result (next_ex_mem c) = alu_result_ex c"
  "exmem_store_data (next_ex_mem c) = fwd_rs2 c" "exmem_imm_ext (next_ex_mem c) = idex_imm_ext (id_ex_r c)"
  "exmem_rd_addr (next_ex_mem c) = idex_rd_addr (id_ex_r c)"
  "exmem_reg_write (next_ex_mem c) = reg_write (idex_ctl (id_ex_r c))"
  "exmem_mem_to_reg (next_ex_mem c) = mem_to_reg (idex_ctl (id_ex_r c))"
  "exmem_mem_read (next_ex_mem c) = mem_read (idex_ctl (id_ex_r c))"
  "exmem_mem_write (next_ex_mem c) = mem_write (idex_ctl (id_ex_r c))"
  "exmem_jump (next_ex_mem c) = jump (idex_ctl (id_ex_r c))" "exmem_lui (next_ex_mem c) = lui (idex_ctl (id_ex_r c))"
  by (simp_all add: next_ex_mem_def Let_def)

lemma next_mem_wb_simps [simp]:
  "memwb_valid (next_mem_wb outside c) = exmem_valid (ex_mem_r c)" "memwb_pc (next_mem_wb outside c) = exmem_pc (ex_mem_r c)"
  "memwb_rd_addr (next_mem_wb outside c) = exmem_rd_addr (ex_mem_r c)"
  "memwb_reg_write (next_mem_wb outside c) = exmem_reg_write (ex_mem_r c)"
  by (simp_all add: next_mem_wb_def Let_def)

lemma wb_value_step:
  assumes "ex_mem_ok (id_ex_r c) (ex_mem_r c)" "exmem_valid (ex_mem_r c)"
  shows "wb_write_data (core_step mem outside c) = exmem_result outside c"
  using assms
  by (simp add: wb_write_data_def next_mem_wb_def exmem_result_def result_value_def ex_mem_ok_def
      data_mem_read_def Let_def)

lemma wb_reg_write_step [simp]: "wb_reg_write (core_step mem outside c) = exmem_writes c"
  by (simp add: wb_reg_write_def exmem_writes_def)

lemma settled_regs:
  assumes "ex_mem_ok (id_ex_r c) (ex_mem_r c)"
  shows "write_port (exmem_writes c) (exmem_rd_addr (ex_mem_r c)) (wb_write_data (core_step mem outside c))
     (rf (core_step mem outside c)) = committed_regs outside c"
  using wb_value_step [OF assms, of mem outside]
  by (cases "exmem_writes c") (auto simp: committed_regs_def write_port_def exmem_writes_def)

text \<open>The effect of the instruction in EX, in terms of what EX computes.\<close>

lemma effect_in_EX:
  fixes outside :: "u32w \<Rightarrow> u32w"
  assumes "pipe_inv mem c" "idex_valid (id_ex_r c)"
  defines "e \<equiv> effect_at mem outside (arch_of outside c)"
  shows "e_next e = (if actual_taken_ex c then actual_target_ex c else idex_pc_plus4 (id_ex_r c))"
    "e_store e = (if mem_write (idex_ctl (id_ex_r c)) then Some (alu_result_ex c, fwd_rs2 c) else None)"
    "e_write e = (if reg_write (idex_ctl (id_ex_r c))
       then Some (idex_rd_addr (id_ex_r c), exmem_result outside (core_step mem outside c)) else None)"
proof -
  let ?x = "id_ex_r c" and ?i = "instruction_mem mem (idex_pc (id_ex_r c))"
  have d: "decoded ?i ?x" using assms(1,2) by (auto simp: pipe_inv_def id_ex_ok_def)
  have e: "e = isa_effect (ram_read outside (committed_ram c)) ?i (idex_pc ?x) (fwd_rs1 c) (fwd_rs2 c)"
    using assms(2) unfolding e_def effect_at_def Let_def fwd_operands [OF assms(2,1), of outside]
    by (simp add: arch_of_def next_pc_def)
  note f = ex_effect [OF assms(2) d refl, of "ram_read outside (committed_ram c)", folded e]
  show "e_next e = (if actual_taken_ex c then actual_target_ex c else idex_pc_plus4 (id_ex_r c))"
    "e_store e = (if mem_write (idex_ctl (id_ex_r c)) then Some (alu_result_ex c, fwd_rs2 c) else None)"
    "e_write e = (if reg_write (idex_ctl (id_ex_r c))
       then Some (idex_rd_addr (id_ex_r c), exmem_result outside (core_step mem outside c)) else None)"
    using f d by (auto simp: decoded_def exmem_result_def Let_def)
qed

lemma committed_step:
  assumes "pipe_inv mem c"
  shows "committed_regs outside (core_step mem outside c)
    = (if idex_valid (id_ex_r c) then aregs (isa_step mem outside (arch_of outside c)) else committed_regs outside c)"
    "committed_ram (core_step mem outside c)
    = (if idex_valid (id_ex_r c) then adata (isa_step mem outside (arch_of outside c)) else committed_ram c)"
proof -
  have ok: "ex_mem_ok (id_ex_r c) (ex_mem_r c)" "\<not> idex_valid (id_ex_r c) \<Longrightarrow> \<not> mem_write (idex_ctl (id_ex_r c))"
    using assms by (auto simp: pipe_inv_def id_ex_ok_def)
  have r: "committed_regs outside (core_step mem outside c)
      = write_port (exmem_writes (core_step mem outside c)) (idex_rd_addr (id_ex_r c))
          (exmem_result outside (core_step mem outside c)) (committed_regs outside c)"
    using settled_regs [OF ok(1), of mem outside] unfolding committed_regs_def [of outside "core_step mem outside c"]
    by simp
  show "committed_regs outside (core_step mem outside c)
    = (if idex_valid (id_ex_r c) then aregs (isa_step mem outside (arch_of outside c)) else committed_regs outside c)"
    using effect_in_EX(3) [OF assms, of outside]
    by (auto simp: r isa_step_def apply_effect_def exmem_writes_def arch_of_def write_port_def)
  show "committed_ram (core_step mem outside c)
    = (if idex_valid (id_ex_r c) then adata (isa_step mem outside (arch_of outside c)) else committed_ram c)"
    using effect_in_EX(2) [OF assms, of outside] ok(2)
    by (auto simp: committed_ram_def [of "core_step mem outside c"] isa_step_def apply_effect_def arch_of_def
        data_mem_write_def)
qed

section \<open>The invariant is preserved\<close>

lemma control_flow_ctl:
  "branch (control_unit (i_opcode i) f g) \<or> jump (control_unit (i_opcode i) f g) \<longleftrightarrow> control_flow i"
  by (auto simp: control_unit_def control_flow_def no_control_def)

lemma load_ctl:
  "mem_read (control_unit o' f g) = mem_to_reg (control_unit o' f g)"
  "mem_read (control_unit o' f g) \<Longrightarrow> \<not> lui (control_unit o' f g) \<and> \<not> jump (control_unit o' f g)
     \<and> \<not> mem_write (control_unit o' f g) \<and> \<not> branch (control_unit o' f g)"
  by (auto simp: control_unit_def no_control_def)

lemma is_control_flow_in_EX:
  "pipe_inv mem c \<Longrightarrow> idex_valid (id_ex_r c) \<Longrightarrow>
   is_control_flow_ex c \<longleftrightarrow> control_flow (instruction_mem mem (idex_pc (id_ex_r c)))"
  by (auto simp: is_control_flow_ex_def pipe_inv_def id_ex_ok_def decoded_def control_flow_ctl)

lemma flush_valid: "flush c \<Longrightarrow> idex_valid (id_ex_r c)"
  by (simp add: flush_def is_control_flow_ex_def)

lemma stall_valid: "pipe_inv mem c \<Longrightarrow> stall c \<Longrightarrow> idex_valid (id_ex_r c)"
  by (auto simp: stall_def hazard_unit_def pipe_inv_def id_ex_ok_def split: if_splits)

lemma no_flush_predicted:
  assumes "pipe_inv mem c" "idex_valid (id_ex_r c)" "\<not> flush c"
  shows "ifid_pc (if_id_r c) = flush_target c"
proof -
  let ?x = "id_ex_r c"
  have i: "ifid_pc (if_id_r c) = predicted_next (idex_pred_taken ?x) (idex_pred_target ?x) (idex_pc ?x)"
    "idex_pc_plus4 ?x = idex_pc ?x + 4"
    "idex_pred_taken ?x \<longrightarrow> control_flow (instruction_mem mem (idex_pc ?x))"
    using assms(1,2) by (auto simp: pipe_inv_def id_ex_ok_def decoded_def)
  have t: "actual_taken_ex c \<Longrightarrow> is_control_flow_ex c"
    by (auto simp: actual_taken_ex_def is_control_flow_ex_def branch_taken_ex_def)
  show ?thesis
    using assms(3) i t is_control_flow_in_EX [OF assms(1,2)]
    by (cases "actual_taken_ex c") (auto simp: flush_def flush_target_def predicted_next_def)
qed

lemma next_pc_step:
  assumes "pipe_inv mem c"
  shows "next_pc (core_step mem outside c) = (if idex_valid (id_ex_r c) then flush_target c else next_pc c)"
proof (cases "idex_valid (id_ex_r c)")
  case True
  then have v: "ifid_valid (if_id_r c)" using assms by (auto simp: pipe_inv_def id_ex_ok_def)
  show ?thesis
    using True v no_flush_predicted [OF assms True]
    by (auto simp: next_pc_def next_id_ex_def next_if_id_def next_pc_if_def pc_next_if_def Let_def
        id_ex_0_def if_id_0_def)
next
  case False
  then have "\<not> flush c" "\<not> stall c" using flush_valid stall_valid [OF assms] by blast+
  with False show ?thesis by (auto simp: next_pc_def next_id_ex_def next_if_id_def Let_def)
qed

lemma arch_step:
  assumes "pipe_inv mem c"
  shows "arch_of outside (core_step mem outside c)
    = (if idex_valid (id_ex_r c) then isa_step mem outside (arch_of outside c) else arch_of outside c)"
  using effect_in_EX(1) [OF assms, of outside] next_pc_step [OF assms, of outside]
    committed_step [OF assms, of outside]
  by (auto simp: arch_of_def isa_step_def apply_effect_def flush_target_def)

lemma pc_idx_tag:
  assumes "pc_idx a = pc_idx b" "pc_tag a = pc_tag b"
  shows "drop_bit 2 a = drop_bit 2 b"
proof (rule bit_word_eqI)
  fix n
  assume "n < LENGTH(32)"
  have i: "bit (pc_idx a) n = bit (pc_idx b) n" and t: "bit (pc_tag a) (n - 6) = bit (pc_tag b) (n - 6)"
    using assms by simp_all
  show "bit (drop_bit 2 a) n = bit (drop_bit 2 b) n"
  proof (cases "n < 6")
    case True
    then show ?thesis using i by (simp add: pc_idx_def bit_simps)
  next
    case False
    then have "8 + (n - 6) = 2 + n" by simp
    then show ?thesis using t False
      by (cases "n < 30") (auto simp: pc_tag_def bit_simps dest: bit_imp_le_length)
  qed
qed

lemma bp_inv_train:
  assumes "bp_inv mem p" "ok \<Longrightarrow> control_flow (instruction_mem mem tpc)"
  shows "bp_inv mem (bp_train ok tpc taken target p)"
proof -
  have "instruction_mem mem a = instruction_mem mem tpc" if "pc_idx a = pc_idx tpc" "pc_tag a = pc_tag tpc" for a
    using pc_idx_tag [OF that] by (simp add: instruction_mem_def)
  moreover have "if ok \<and> taken \<and> pc_idx a = pc_idx tpc then pc_tag a = pc_tag tpc
      else btb_valid p (pc_idx a) \<and> btb_tag p (pc_idx a) = pc_tag a"
    if "btb_valid (bp_train ok tpc taken target p) (pc_idx a)"
      "btb_tag (bp_train ok tpc taken target p) (pc_idx a) = pc_tag a" for a
    using that by (cases ok; cases taken; cases "pc_idx a = pc_idx tpc") (simp_all add: bp_train_def Let_def)
  ultimately show ?thesis using assms unfolding bp_inv_def by (metis (full_types))
qed

lemma predict_control_flow: "bp_inv mem p \<Longrightarrow> predict_taken p a \<Longrightarrow> control_flow (instruction_mem mem a)"
  by (auto simp: bp_inv_def predict_taken_def)

lemma if_id_step:
  assumes "pipe_inv mem c" "fetch_ok mem c"
  shows "if_id_ok mem (pc_if (core_step mem outside c)) (if_id_r (core_step mem outside c))"
  using assms stall_valid [OF assms(1)] predict_control_flow [of mem "bp c" "pc_if c"]
  by (auto simp: if_id_ok_def next_if_id_def if_id_0_def next_pc_if_def pc_next_if_def pipe_inv_def fetch_ok_def
      predicted_next_def predict_taken_if_def predict_target_if_def)

lemma latched_True: "latched_control True i = control_unit (i_opcode i) (i_funct3 i) (i_funct7 i)"
  by (simp add: latched_control_def Let_def)

lemma read_data_step: "read_data c rs = areg (rf (core_step mem outside c)) rs"
  by (simp add: read_data_def areg_write_port)

lemma id_ex_step:
  assumes "pipe_inv mem c"
  shows "id_ex_ok mem (rf (core_step mem outside c)) (if_id_r (core_step mem outside c))
    (id_ex_r (core_step mem outside c))"
proof (cases "flush c \<or> stall c \<or> \<not> ifid_valid (if_id_r c)")
  case True
  then show ?thesis
    by (auto simp: id_ex_ok_def next_id_ex_def id_ex_0_def no_control_def latched_control_def Let_def)
next
  case False
  then show ?thesis
    using assms unfolding read_data_step [of c _ mem outside]
    by (auto simp: id_ex_ok_def next_id_ex_def next_if_id_def decoded_def latched_True pipe_inv_def if_id_ok_def
        read_data_step [of c _ mem outside] Let_def simp del: core_step_simps(6))
qed

lemma ex_mem_step:
  assumes "pipe_inv mem c"
  shows "ex_mem_ok (id_ex_r (core_step mem outside c)) (ex_mem_r (core_step mem outside c))"
proof (cases "idex_valid (id_ex_r c)")
  case True
  then have d: "decoded (instruction_mem mem (idex_pc (id_ex_r c))) (id_ex_r c)"
    using assms by (auto simp: pipe_inv_def id_ex_ok_def)
  have h: "mem_read (idex_ctl (id_ex_r c)) \<Longrightarrow> idex_rd_addr (id_ex_r c) \<noteq> 0 \<Longrightarrow> idex_valid (next_id_ex c) \<Longrightarrow>
      idex_rs1_addr (next_id_ex c) \<noteq> idex_rd_addr (id_ex_r c) \<and> idex_rs2_addr (next_id_ex c) \<noteq> idex_rd_addr (id_ex_r c)"
    by (auto simp: next_id_ex_def stall_def hazard_unit_def id_ex_0_def Let_def split: if_splits)
  from d have k: "idex_ctl (id_ex_r c) = control_unit (i_opcode (instruction_mem mem (idex_pc (id_ex_r c))))
      (i_funct3 (instruction_mem mem (idex_pc (id_ex_r c)))) (i_funct7 (instruction_mem mem (idex_pc (id_ex_r c))))"
    by (simp add: decoded_def)
  show ?thesis
    unfolding ex_mem_ok_def using True h load_ctl [where f = "i_funct3 (instruction_mem mem (idex_pc (id_ex_r c)))"]
    by (simp add: k)
next
  case False
  then show ?thesis using assms by (auto simp: ex_mem_ok_def pipe_inv_def id_ex_ok_def)
qed

lemma pipe_inv_step:
  assumes "pipe_inv mem c" "fetch_ok mem c"
  shows "pipe_inv mem (core_step mem outside c)"
proof -
  have "bp_inv mem (bp (core_step mem outside c))"
    unfolding core_step_simps
    by (rule bp_inv_train)
      (use assms(1) is_control_flow_in_EX [OF assms(1)] in \<open>auto simp: pipe_inv_def is_control_flow_ex_def\<close>)
  then show ?thesis
    using if_id_step [OF assms] id_ex_step [OF assms(1)] ex_mem_step [OF assms(1)] by (simp add: pipe_inv_def)
qed

lemma pipe_inv_reset: "pipe_inv mem (reset_core ram0 buf0)"
  by (simp add: pipe_inv_def reset_core_def bp_inv_def bp_reset_def if_id_ok_def if_id_0_def id_ex_ok_def
      id_ex_0_def no_control_def ex_mem_ok_def ex_mem_0_def)

interpretation pipeline: progressing_refinement "core_step mem outside" "fetch_ok mem" "pipe_inv mem"
  "arch_of outside" "\<lambda>c. idex_valid (id_ex_r c)" "isa_step mem outside" 3
  for mem :: rom and outside :: "u32w \<Rightarrow> u32w"
proof
  fix c
  assume i: "pipe_inv mem c" and "throughout (core_step mem outside) (fetch_ok mem) 3 c"
  then have o: "fetch_ok mem c" "fetch_ok mem (core_step mem outside c)"
    by (simp_all add: numeral_3_eq_3)
  have fill: "idex_valid (next_id_ex d)" if "ifid_valid (if_id_r d)" "\<not> idex_valid (id_ex_r d)" "pipe_inv mem d" for d
    using that flush_valid [of d] stall_valid [OF that(3)] by (auto simp: next_id_ex_def Let_def)
  have refill: "ifid_valid (next_if_id mem d)" if "\<not> idex_valid (id_ex_r d)" "pipe_inv mem d" for d
    using that flush_valid [of d] stall_valid [OF that(2)] by (auto simp: next_if_id_def)
  let ?s = "core_step mem outside"
  have "idex_valid (id_ex_r c) \<or> idex_valid (id_ex_r (?s c)) \<or> idex_valid (id_ex_r (?s (?s c)))"
    using fill [of c] fill [of "?s c"] refill [of c] i pipe_inv_step [OF i o(1), of outside]
    by (cases "ifid_valid (if_id_r c)") auto
  then show "\<exists>t < 3. idex_valid (id_ex_r ((?s ^^ t) c))"
    by (metis funpow_0 funpow_simps_right(2) comp_apply numeral_2_eq_2 numeral_3_eq_3 zero_less_Suc Suc_less_eq)
qed (simp_all add: pipe_inv_step arch_step)

end
