(* ===== verification/Rtl_Path.thy ===== *)
theory Rtl_Path
  imports Rtl_Pipeline
begin

text \<open>
  The addresses in the pipeline for programs that stay in a text of words \<open>0 .. e\<close>, end in an endless
  branch at word \<open>e\<close> and whose loops have the shape the loop buffer replays correctly
  (\<open>replayable\<close>, a check of the memory contents). Under \<open>path_inv\<close> EX holds words up to \<open>e\<close> only, IF at
  most the second word behind it, and every predicted target is the target of the instruction.
\<close>

section \<open>Word addresses\<close>

definition word_pc :: "nat \<Rightarrow> u32w" where "word_pc k = word_of_nat (4 * k)"

definition rom_word :: "rom \<Rightarrow> nat \<Rightarrow> u32w" where "rom_word mem k = mem (word_of_nat k)"

lemma unat_nat32: "n < 2 ^ 32 \<Longrightarrow> unat (word_of_nat n :: u32w) = n"
  by (simp add: unsigned_of_nat take_bit_nat_eq_self)

lemma unat_word_pc: "k < 2 ^ 30 \<Longrightarrow> unat (word_pc k) = 4 * k"
  unfolding word_pc_def by (rule unat_nat32) simp

lemma word_pc_eq: "j < 2 ^ 30 \<Longrightarrow> k < 2 ^ 30 \<Longrightarrow> word_pc j = word_pc k \<longleftrightarrow> j = k"
  by (metis unat_word_pc mult_cancel1 zero_neq_numeral)

lemma word_pc_less: "j < 2 ^ 30 \<Longrightarrow> k < 2 ^ 30 \<Longrightarrow> word_pc j < word_pc k \<longleftrightarrow> j < k"
  by (simp add: word_less_nat_alt unat_word_pc)

lemma word_pc_le: "j < 2 ^ 30 \<Longrightarrow> k < 2 ^ 30 \<Longrightarrow> word_pc j \<le> word_pc k \<longleftrightarrow> j \<le> k"
  by (simp add: word_le_nat_alt unat_word_pc)

lemma word_pc_Suc: "word_pc k + 4 = word_pc (Suc k)"
  by (simp add: word_pc_def)

lemma word_pc_pred: "word_pc (Suc k) - 4 = word_pc k"
  by (simp add: word_pc_def)

lemma word_pc_diff: "t \<le> k \<Longrightarrow> word_pc k - word_pc t = word_pc (k - t)"
  by (simp add: word_pc_def of_nat_diff)

lemma drop_word_pc: "k < 2 ^ 30 \<Longrightarrow> drop_bit 2 (word_pc k) = word_of_nat k"
  unfolding word_unat_eq_iff unat_drop_bit_eq
  by (simp only: unat_word_pc) (simp add: drop_bit_eq_div unat_nat32)

lemma instruction_mem_word: "k < 2 ^ 30 \<Longrightarrow> instruction_mem mem (word_pc k) = rom_word mem k"
proof -
  have "(ucast (word_of_nat k :: u32w) :: 10 word) = word_of_nat k"
    by (rule bit_word_eqI) (auto simp: bit_simps)
  then show "k < 2 ^ 30 \<Longrightarrow> instruction_mem mem (word_pc k) = rom_word mem k"
    by (simp add: instruction_mem_def rom_word_def drop_word_pc)
qed

lemma pc_parts_word:
  assumes "j < 2 ^ 30" "k < 2 ^ 30" "pc_idx (word_pc j) = pc_idx (word_pc k)" "pc_tag (word_pc j) = pc_tag (word_pc k)"
  shows "j = k"
proof -
  have "word_of_nat j = (word_of_nat k :: u32w)"
    using pc_idx_tag [OF assms(3,4)] assms(1,2) by (simp add: drop_word_pc)
  then have "unat (word_of_nat j :: u32w) = unat (word_of_nat k :: u32w)" by simp
  then show ?thesis using assms(1,2) by (simp add: unat_nat32)
qed

lemma sat_inc: "bit (x :: 2 word) 1 \<Longrightarrow> x \<noteq> 3 \<Longrightarrow> bit (x + 1) 1"
proof -
  assume b: "bit x 1" "x \<noteq> 3"
  have "unat x < 4" using unsigned_less [of x, where ?'a = nat] by simp
  then have "x = 0 \<or> x = 1 \<or> x = 2 \<or> x = 3"
    by (auto simp: word_unat_eq_iff)
  with b show ?thesis by auto
qed

section \<open>Programs the loop buffer replays correctly\<close>

definition jumps_to :: "rom \<Rightarrow> nat \<Rightarrow> nat \<Rightarrow> bool" where
  "jumps_to mem k t \<longleftrightarrow>
     control_flow (rom_word mem k) \<and> word_pc k + imm_gen (rom_word mem k) = word_pc t"

definition load_use :: "u32w \<Rightarrow> u32w \<Rightarrow> bool" where
  "load_use i j \<longleftrightarrow> i_opcode i = 0x03 \<and> i_rd i \<noteq> 0 \<and> (i_rd i = i_rs1 j \<or> i_rd i = i_rs2 j)"

definition straight_body :: "rom \<Rightarrow> nat \<Rightarrow> nat \<Rightarrow> bool" where
  "straight_body mem t b \<longleftrightarrow>
     t + 2 \<le> b \<and> (\<forall>j \<in> {t ..< b}. \<not> control_flow (rom_word mem j))
     \<and> \<not> load_use (rom_word mem (b - 2)) (rom_word mem (b - 1))"

definition replayable :: "rom \<Rightarrow> nat \<Rightarrow> bool" where
  "replayable mem e \<longleftrightarrow>
     e + 2 < 1024 \<and> rom_word mem e = 0x63 \<and> \<not> control_flow (rom_word mem (e + 1))
     \<and> (\<forall>k \<in> {0..e}. control_flow (rom_word mem k) \<longrightarrow>
           i_opcode (rom_word mem k) \<noteq> 0x67 \<and> (\<exists>t \<in> {0..e}. jumps_to mem k t))
     \<and> (\<forall>b \<in> {0..e}. \<forall>t \<in> {0..<b}. jumps_to mem b t \<longrightarrow>
           straight_body mem t b \<and> (\<forall>k \<in> {0..e}. \<not> jumps_to mem k (b - 1) \<and> \<not> jumps_to mem k b))"

section \<open>The addresses in the pipeline\<close>

definition pred_ok :: "rom \<Rightarrow> nat \<Rightarrow> predictor \<Rightarrow> bool" where
  "pred_ok mem e p \<longleftrightarrow>
     (\<forall>a. btb_valid p (pc_idx a) \<and> btb_tag p (pc_idx a) = pc_tag a \<longrightarrow>
        (\<exists>k \<le> e. pc_idx a = pc_idx (word_pc k) \<and> pc_tag a = pc_tag (word_pc k)
           \<and> (\<exists>t \<le> e. jumps_to mem k t \<and> btb p (pc_idx a) = word_pc t)))"

definition at_word :: "rom \<Rightarrow> nat \<Rightarrow> nat \<Rightarrow> u32w \<Rightarrow> bool \<Rightarrow> u32w \<Rightarrow> bool" where
  "at_word mem e k p taken target \<longleftrightarrow>
     p = word_pc k \<and> (taken \<longrightarrow> k \<le> e \<and> (\<exists>t \<le> e. jumps_to mem k t \<and> target = word_pc t))"

definition path_inv :: "rom \<Rightarrow> nat \<Rightarrow> core \<Rightarrow> bool" where
  "path_inv mem e c \<longleftrightarrow>
     (let x = id_ex_r c; d = if_id_r c
      in (idex_valid x \<longrightarrow> (\<exists>k \<le> e. at_word mem e k (idex_pc x) (idex_pred_taken x) (idex_pred_target x)))
         \<and> (ifid_valid d \<longrightarrow> (\<exists>k \<le> e + 1. at_word mem e k (ifid_pc d) (ifid_pred_taken d) (ifid_pred_target d)
               \<and> (k = e + 1 \<longrightarrow> idex_valid x)))
         \<and> (\<exists>k \<le> e + 2. pc_if c = word_pc k \<and> (k = e + 1 \<longrightarrow> ifid_valid d \<and> ifid_pc d = word_pc e)
               \<and> (k = e + 2 \<longrightarrow> ifid_valid d \<and> ifid_pc d = word_pc (e + 1))))"

lemma replayable_bounds: "replayable mem e \<Longrightarrow> k \<le> e + 2 \<Longrightarrow> k < 2 ^ 30"
  by (simp add: replayable_def)

lemma word_pc_near:
  "replayable mem e \<Longrightarrow> j \<le> e + 2 \<Longrightarrow> k \<le> e + 2 \<Longrightarrow> word_pc j = word_pc k \<longleftrightarrow> j = k"
  "replayable mem e \<Longrightarrow> j \<le> e + 2 \<Longrightarrow> k \<le> e + 2 \<Longrightarrow> word_pc j < word_pc k \<longleftrightarrow> j < k"
  "replayable mem e \<Longrightarrow> j \<le> e + 2 \<Longrightarrow> k \<le> e + 2 \<Longrightarrow> word_pc j \<le> word_pc k \<longleftrightarrow> j \<le> k"
  by (meson word_pc_eq word_pc_less word_pc_le replayable_bounds)+

lemma replayable_jump:
  assumes "replayable mem e" "k \<le> e" "control_flow (rom_word mem k)"
  shows "i_opcode (rom_word mem k) \<noteq> 0x67" "\<exists>t \<le> e. jumps_to mem k t"
proof -
  have "k \<in> {0..e}" using assms(2) by simp
  then have "i_opcode (rom_word mem k) \<noteq> 0x67 \<and> (\<exists>t \<in> {0..e}. jumps_to mem k t)"
    using assms(1,3) unfolding replayable_def by blast
  then show "i_opcode (rom_word mem k) \<noteq> 0x67" "\<exists>t \<le> e. jumps_to mem k t" by auto
qed

lemma predicted_word:
  assumes "replayable mem e" "pred_ok mem e p" "predict_taken p (word_pc k)" "k \<le> e + 2"
  shows "at_word mem e k (word_pc k) True (predict_target p (word_pc k))"
proof -
  obtain j where j: "j \<le> e" "pc_idx (word_pc k) = pc_idx (word_pc j)" "pc_tag (word_pc k) = pc_tag (word_pc j)"
    "\<exists>t \<le> e. jumps_to mem j t \<and> btb p (pc_idx (word_pc k)) = word_pc t"
    using assms(2,3) unfolding pred_ok_def predict_taken_def by blast
  have "k = j" using pc_parts_word [of k j] j(1-3) assms(1,4) replayable_bounds by simp
  then show ?thesis using j by (auto simp: at_word_def predict_target_def)
qed

lemma EX_word:
  assumes "replayable mem e" "path_inv mem e c" "idex_valid (id_ex_r c)"
  obtains k where "k \<le> e" "idex_pc (id_ex_r c) = word_pc k" "instruction_mem mem (idex_pc (id_ex_r c)) = rom_word mem k"
    "at_word mem e k (idex_pc (id_ex_r c)) (idex_pred_taken (id_ex_r c)) (idex_pred_target (id_ex_r c))"
proof -
  obtain k where k: "k \<le> e" "at_word mem e k (idex_pc (id_ex_r c)) (idex_pred_taken (id_ex_r c)) (idex_pred_target (id_ex_r c))"
    using assms(2,3) unfolding path_inv_def Let_def by blast
  moreover have "idex_pc (id_ex_r c) = word_pc k" using k(2) by (simp add: at_word_def)
  ultimately show thesis
    using that instruction_mem_word [of k mem] replayable_bounds [OF assms(1), of k] by simp
qed

lemma end_taken:
  assumes "pipe_inv mem c" "idex_valid (id_ex_r c)" "instruction_mem mem (idex_pc (id_ex_r c)) = 0x63"
  shows "actual_taken_ex c"
proof -
  have f: "i_opcode 0x63 = 0x63" "i_funct3 0x63 = 0" "i_rs1 0x63 = 0" "i_rs2 0x63 = 0"
    by (simp_all add: i_opcode_def i_funct3_def i_rs1_def i_rs2_def)
  have d: "decoded 0x63 (id_ex_r c)" using assms by (auto simp: pipe_inv_def id_ex_ok_def)
  have z: "fwd_rs1 c = 0" "fwd_rs2 c = 0"
    using fwd_operands [OF assms(2,1), of "\<lambda>_. 0"] assms(3) by (simp_all add: f areg_def)
  show ?thesis
    using assms(2) d z
    by (simp add: actual_taken_ex_def branch_taken_ex_def branch_decision_def alu_zero_def alu_result_def
        decoded_def f control_unit_def no_control_def alu_operand_a_def alu_operand_b_def)
qed

lemma taken_target:
  assumes "replayable mem e" "pipe_inv mem c" "idex_valid (id_ex_r c)" "k \<le> e" "idex_pc (id_ex_r c) = word_pc k"
    and "control_flow (rom_word mem k)"
  shows "\<exists>t \<le> e. jumps_to mem k t \<and> actual_target_ex c = word_pc t"
proof -
  have m: "instruction_mem mem (word_pc k) = rom_word mem k"
    using assms(1,4) replayable_bounds by (simp add: instruction_mem_word)
  have "decoded (rom_word mem k) (id_ex_r c)" using assms(2,3,5) m by (auto simp: pipe_inv_def id_ex_ok_def)
  then have "actual_target_ex c = word_pc k + imm_gen (rom_word mem k)"
    using replayable_jump(1) [OF assms(1,4,6)] assms(5)
    by (auto simp: actual_target_ex_def decoded_def control_unit_def no_control_def)
  then show ?thesis using replayable_jump(2) [OF assms(1,4,6)] by (auto simp: jumps_to_def)
qed

lemma flush_target_word:
  assumes "replayable mem e" "pipe_inv mem c" "path_inv mem e c" "idex_valid (id_ex_r c)"
  shows "\<exists>t \<le> e. flush_target c = word_pc t"
proof -
  obtain k where k: "k \<le> e" "idex_pc (id_ex_r c) = word_pc k"
    "instruction_mem mem (idex_pc (id_ex_r c)) = rom_word mem k"
    using EX_word [OF assms(1,3,4)] by metis
  have p: "idex_pc_plus4 (id_ex_r c) = word_pc (Suc k)"
    using assms(2,4) k(2) by (auto simp: pipe_inv_def id_ex_ok_def decoded_def word_pc_Suc)
  show ?thesis
  proof (cases "actual_taken_ex c")
    case True
    then have "control_flow (rom_word mem k)"
      using is_control_flow_in_EX [OF assms(2,4)] k(3)
      by (auto simp: actual_taken_ex_def is_control_flow_ex_def branch_taken_ex_def)
    from taken_target [OF assms(1,2,4) k(1,2) this] show ?thesis using True by (auto simp: flush_target_def)
  next
    case False
    then have "rom_word mem k \<noteq> 0x63" using end_taken [OF assms(2,4)] k(3) by metis
    then have "k \<noteq> e" using assms(1) by (auto simp: replayable_def)
    then show ?thesis using False k(1) p by (auto simp: flush_target_def intro!: exI [of _ "Suc k"])
  qed
qed

lemma path_ID:
  assumes "path_inv mem e c" "ifid_valid (if_id_r c)"
  obtains k where "k \<le> e + 1" "k = e + 1 \<Longrightarrow> idex_valid (id_ex_r c)"
    "at_word mem e k (ifid_pc (if_id_r c)) (ifid_pred_taken (if_id_r c)) (ifid_pred_target (if_id_r c))"
  using assms unfolding path_inv_def Let_def by blast

lemma path_IF:
  assumes "path_inv mem e c"
  obtains k where "k \<le> e + 2" "pc_if c = word_pc k" "k = e + 1 \<Longrightarrow> ifid_valid (if_id_r c) \<and> ifid_pc (if_id_r c) = word_pc e"
    "k = e + 2 \<Longrightarrow> ifid_valid (if_id_r c) \<and> ifid_pc (if_id_r c) = word_pc (e + 1)"
  using assms unfolding path_inv_def Let_def by blast

text \<open>Without a flush nothing beyond the last instruction is in ID, and IF is at most one word beyond.\<close>

lemma no_flush_ID:
  assumes "replayable mem e" "pipe_inv mem c" "path_inv mem e c" "\<not> flush c" "ifid_valid (if_id_r c)"
  obtains k where "k \<le> e"
    "at_word mem e k (ifid_pc (if_id_r c)) (ifid_pred_taken (if_id_r c)) (ifid_pred_target (if_id_r c))"
proof -
  obtain k where k: "k \<le> e + 1" "k = e + 1 \<Longrightarrow> idex_valid (id_ex_r c)"
    "at_word mem e k (ifid_pc (if_id_r c)) (ifid_pred_taken (if_id_r c)) (ifid_pred_target (if_id_r c))"
    using path_ID [OF assms(3,5)] by blast
  have "k \<noteq> e + 1"
  proof
    assume ke: "k = e + 1"
    then have v: "idex_valid (id_ex_r c)" by (rule k(2))
    obtain t where "t \<le> e" "flush_target c = word_pc t" using flush_target_word [OF assms(1-3) v] by blast
    moreover have "ifid_pc (if_id_r c) = word_pc k" using k(3) by (simp add: at_word_def)
    ultimately show False
      using no_flush_predicted [OF assms(2) v assms(4)] ke word_pc_near(1) [OF assms(1), of k t] by simp
  qed
  then have "k \<le> e" using k(1) by simp
  then show thesis using k(3) by (rule that)
qed

lemma no_flush_IF:
  assumes "replayable mem e" "pipe_inv mem c" "path_inv mem e c" "\<not> flush c"
  obtains k where "k \<le> e + 1" "pc_if c = word_pc k" "k = e + 1 \<Longrightarrow> ifid_valid (if_id_r c) \<and> ifid_pc (if_id_r c) = word_pc e"
proof -
  obtain k where k: "k \<le> e + 2" "pc_if c = word_pc k" "k = e + 1 \<Longrightarrow> ifid_valid (if_id_r c) \<and> ifid_pc (if_id_r c) = word_pc e"
    "k = e + 2 \<Longrightarrow> ifid_valid (if_id_r c) \<and> ifid_pc (if_id_r c) = word_pc (e + 1)"
    using path_IF [OF assms(3)] by blast
  have "k \<noteq> e + 2"
  proof
    assume "k = e + 2"
    then have d: "ifid_valid (if_id_r c)" "ifid_pc (if_id_r c) = word_pc (e + 1)" using k(4) by simp_all
    obtain j where "j \<le> e" "ifid_pc (if_id_r c) = word_pc j"
      using no_flush_ID [OF assms d(1)] by (auto simp: at_word_def)
    then show False using d(2) word_pc_near(1) [OF assms(1), of "e + 1" j] by simp
  qed
  then have "k \<le> e + 1" using k(1) by simp
  then show thesis using k(2,3) by (rule that)
qed

lemma path_inv_flush:
  assumes "replayable mem e" "pipe_inv mem c" "path_inv mem e c" "flush c"
  shows "path_inv mem e (core_step mem outside c)"
proof -
  obtain t where "t \<le> e" "flush_target c = word_pc t"
    using flush_target_word [OF assms(1-3) flush_valid [OF assms(4)]] by blast
  then show ?thesis using assms(4)
    by (auto simp: path_inv_def next_id_ex_def next_if_id_def next_pc_if_def pc_next_if_def id_ex_0_def if_id_0_def
        intro!: exI [of _ t])
qed

lemma path_inv_stall:
  assumes "replayable mem e" "pipe_inv mem c" "path_inv mem e c" "\<not> flush c" "stall c"
  shows "path_inv mem e (core_step mem outside c)"
proof -
  obtain j where j: "j \<le> e + 1" "pc_if c = word_pc j" "j = e + 1 \<Longrightarrow> ifid_valid (if_id_r c) \<and> ifid_pc (if_id_r c) = word_pc e"
    using no_flush_IF [OF assms(1-4)] by blast
  have v: "ifid_valid (if_id_r c)"
    using stall_valid [OF assms(2,5)] assms(2) by (auto simp: pipe_inv_def id_ex_ok_def)
  obtain k where k: "k \<le> e" "at_word mem e k (ifid_pc (if_id_r c)) (ifid_pred_taken (if_id_r c)) (ifid_pred_target (if_id_r c))"
    using no_flush_ID [OF assms(1-4) v] by blast
  have "\<exists>k \<le> e + 1. at_word mem e k (ifid_pc (if_id_r c)) (ifid_pred_taken (if_id_r c)) (ifid_pred_target (if_id_r c))
      \<and> (k = e + 1 \<longrightarrow> idex_valid id_ex_0)"
    using k by (intro exI [of _ k]) simp
  moreover have "\<exists>k \<le> e + 2. pc_if c = word_pc k \<and> (k = e + 1 \<longrightarrow> ifid_valid (if_id_r c) \<and> ifid_pc (if_id_r c) = word_pc e)
      \<and> (k = e + 2 \<longrightarrow> ifid_valid (if_id_r c) \<and> ifid_pc (if_id_r c) = word_pc (e + 1))"
    using j by (intro exI [of _ j]) simp
  ultimately show ?thesis using assms(4,5)
    by (simp add: path_inv_def next_id_ex_def next_if_id_def next_pc_if_def id_ex_0_def)
qed

lemma path_inv_advance:
  assumes "replayable mem e" "pipe_inv mem c" "path_inv mem e c" "pred_ok mem e (bp c)" "\<not> flush c" "\<not> stall c"
  shows "path_inv mem e (core_step mem outside c)"
proof -
  let ?d = "core_step mem outside c"
  obtain j where j: "j \<le> e + 1" "pc_if c = word_pc j" "j = e + 1 \<Longrightarrow> ifid_valid (if_id_r c) \<and> ifid_pc (if_id_r c) = word_pc e"
    using no_flush_IF [OF assms(1-3,5)] by blast
  have w: "at_word mem e j (pc_if c) (predict_taken_if c) (predict_target_if c)"
    using predicted_word [OF assms(1,4), of j] j(1,2)
    by (cases "predict_taken_if c") (auto simp: predict_taken_if_def predict_target_if_def at_word_def)
  have x: "idex_valid (id_ex_r ?d) = ifid_valid (if_id_r c)" "idex_pc (id_ex_r ?d) = ifid_pc (if_id_r c)"
    "idex_pred_taken (id_ex_r ?d) = ifid_pred_taken (if_id_r c)" "idex_pred_target (id_ex_r ?d) = ifid_pred_target (if_id_r c)"
    using assms(5,6) by (simp_all add: next_id_ex_def Let_def)
  have d: "ifid_valid (if_id_r ?d)" "ifid_pc (if_id_r ?d) = pc_if c"
    "ifid_pred_taken (if_id_r ?d) = predict_taken_if c" "ifid_pred_target (if_id_r ?d) = predict_target_if c"
    using assms(5,6) by (simp_all add: next_if_id_def)
  have p: "pc_if ?d = (if predict_taken_if c then predict_target_if c else word_pc (Suc j))"
    using assms(5,6) j(2) by (simp add: next_pc_if_def pc_next_if_def word_pc_Suc)
  have "ifid_valid (if_id_r c) \<longrightarrow> (\<exists>k \<le> e. at_word mem e k (ifid_pc (if_id_r c)) (ifid_pred_taken (if_id_r c)) (ifid_pred_target (if_id_r c)))"
    using no_flush_ID [OF assms(1-3,5)] by blast
  moreover have "\<exists>k \<le> e + 1. at_word mem e k (pc_if c) (predict_taken_if c) (predict_target_if c) \<and> (k = e + 1 \<longrightarrow> ifid_valid (if_id_r c))"
    using w j by blast
  moreover have "\<exists>k \<le> e + 2. pc_if ?d = word_pc k \<and> (k = e + 1 \<longrightarrow> pc_if c = word_pc e) \<and> (k = e + 2 \<longrightarrow> pc_if c = word_pc (e + 1))"
  proof (cases "predict_taken_if c")
    case True
    then obtain t where "t \<le> e" "predict_target_if c = word_pc t" using w by (auto simp: at_word_def)
    then show ?thesis using p True by (intro exI [of _ t]) simp
  next
    case False
    then show ?thesis using p j by (intro exI [of _ "Suc j"]) auto
  qed
  ultimately show ?thesis unfolding path_inv_def Let_def x d using d(1) by simp
qed

lemma pred_ok_step:
  assumes "replayable mem e" "pipe_inv mem c" "path_inv mem e c" "pred_ok mem e (bp c)"
  shows "pred_ok mem e (bp (core_step mem outside c))"
  unfolding pred_ok_def core_step_simps
proof (intro allI impI)
  fix a
  let ?p = "bp_train (is_control_flow_ex c) (idex_pc (id_ex_r c)) (actual_taken_ex c) (actual_target_ex c) (bp c)"
  assume h: "btb_valid ?p (pc_idx a) \<and> btb_tag ?p (pc_idx a) = pc_tag a"
  show "\<exists>k \<le> e. pc_idx a = pc_idx (word_pc k) \<and> pc_tag a = pc_tag (word_pc k)
      \<and> (\<exists>t \<le> e. jumps_to mem k t \<and> btb ?p (pc_idx a) = word_pc t)"
  proof (cases "is_control_flow_ex c \<and> actual_taken_ex c \<and> pc_idx a = pc_idx (idex_pc (id_ex_r c))")
    case True
    then have v: "idex_valid (id_ex_r c)" by (simp add: is_control_flow_ex_def)
    obtain k where k: "k \<le> e" "idex_pc (id_ex_r c) = word_pc k" "instruction_mem mem (idex_pc (id_ex_r c)) = rom_word mem k"
      using EX_word [OF assms(1,3) v] by metis
    then obtain t where "t \<le> e" "jumps_to mem k t" "actual_target_ex c = word_pc t"
      using taken_target [OF assms(1,2) v k(1,2)] is_control_flow_in_EX [OF assms(2) v] True by auto
    then show ?thesis using h True k(1,2) by (intro exI [of _ k]) (auto simp: bp_train_def Let_def)
  next
    case False
    then have "btb_valid (bp c) (pc_idx a) \<and> btb_tag (bp c) (pc_idx a) = pc_tag a \<and> btb ?p (pc_idx a) = btb (bp c) (pc_idx a)"
      using h by (cases "is_control_flow_ex c"; cases "actual_taken_ex c") (simp_all add: bp_train_def Let_def)
    then show ?thesis using assms(4) by (simp add: pred_ok_def)
  qed
qed
end
