(* ===== verification/Rtl_Cpp.thy ===== *)
theory Rtl_Cpp
  imports Rtl_Path Gen_Safety
begin

text \<open>
  The one-instruction-at-a-time machine of the core and the simulator \<open>src/main.cpp\<close> execute every
  supported instruction alike (\<open>same_step\<close>). The core keeps code and data in two memories of words,
  the simulator in one of bytes: \<open>same_state T\<close> relates the registers, the program counter and the
  words from \<open>T\<close> on, behind the program text. An access must be to an aligned word of that range.
\<close>

definition supported :: "u32w \<Rightarrow> bool" where
  "supported i \<longleftrightarrow>
     (let opcode = f_opcode i; funct3 = f_funct3 i
      in opcode = 0x33 \<and> (funct3 = 5 \<longrightarrow> bit i 30 = (f_funct7 i = 0x20))
         \<or> opcode = 0x13
         \<or> opcode \<in> {0x03, 0x23} \<and> funct3 = 2
         \<or> opcode = 0x63 \<and> funct3 \<in> {0, 1, 4, 5}
         \<or> opcode \<in> {0x6F, 0x67, 0x37, 0x17})"

definition data_address :: "u32w \<Rightarrow> cpu \<Rightarrow> u32w option" where
  "data_address i c =
     (if f_opcode i = 0x03 then Some (reg c (f_rs1 i) + sign_extend_12 (drop_bit 20 i))
      else if f_opcode i = 0x23 then Some (reg c (f_rs1 i) + decode_S_imm i)
      else None)"

definition same_state :: "nat \<Rightarrow> cpu \<Rightarrow> arch \<Rightarrow> bool" where
  "same_state T c A \<longleftrightarrow>
     apc A = pc c \<and> registers c 0 = 0 \<and> (\<forall>r. r \<noteq> 0 \<longrightarrow> aregs A r = registers c (unat r))
     \<and> (\<forall>j. T \<le> j \<and> j < 1024 \<longrightarrow> adata A j = word_at (memory c) (4 * j))"

lemma unat_reg: "unat (ucast (r :: 5 word) :: u32w) = unat r"
  using unsigned_less [of r, where ?'a = nat] by (simp add: unsigned_ucast_eq take_bit_nat_eq_self)

lemma same_reg:
  "same_state T c A \<Longrightarrow> areg (aregs A) r = reg c (ucast r)"
  by (auto simp: same_state_def areg_def reg_def unat_reg)

lemma write_reg_5: "write_reg (ucast (r :: 5 word)) v c
    = (if r = 0 then c else c\<lparr>registers := (registers c)(unat r := v)\<rparr>)"
proof -
  have "(ucast r :: u32w) < 32" using unsigned_less [of r, where ?'a = nat] by (simp add: word_less_nat_alt unat_reg)
  moreover have "(ucast r :: u32w) = 0 \<longleftrightarrow> r = 0" by (simp add: word_unat_eq_iff unat_reg)
  ultimately show ?thesis by (simp add: write_reg_def unat_reg)
qed

lemma same_write:
  assumes "same_state T c A"
  shows "same_state T (write_reg (ucast (r :: 5 word)) v c\<lparr>pc := p\<rparr>)
    \<lparr>apc = p, aregs = write_port True r v (aregs A), adata = adata A\<rparr>"
proof -
  have "unat r = 0 \<longleftrightarrow> r = 0" "unat s = unat r \<longleftrightarrow> s = r" for s by (auto simp: word_unat_eq_iff)
  then show ?thesis using assms
    by (auto simp: same_state_def write_reg_5 write_port_def)
qed

lemma shamt_field: "sign_extend_12 (drop_bit 20 i) AND 0x1F = f_rs2 i"
  unfolding sign_extend_12_def f_rs2_def decode_masks
  by (rule bit_word_eqI) (auto simp: bit_simps)

lemma execute_alu_shift: "f_funct3 i = 0x1 \<or> f_funct3 i = 0x5 \<Longrightarrow>
    isa_alu (f_funct3 i) sub sra a (sign_extend_12 (drop_bit 20 i))
    = execute_alu a (f_rs2 i) (if f_funct3 i = 0x1 then ''SLL'' else if sra then ''SRA'' else ''SRL'')"
  by (auto simp: isa_alu_def shamt_field)

lemma funct3_exhaust: "f_funct3 i \<in> {0, 1, 2, 3, 4, 5, 6, 7}"
  using word3_exhaust [of "i_funct3 i"] funct_iff [of i] unfolding f_ucast by (elim disjE) simp_all

lemma exec_imm_isa:
  "exec_imm i c = write_reg (f_rd i) (isa_alu (f_funct3 i) False (bit i 30) (reg c (f_rs1 i)) (sign_extend_12 (drop_bit 20 i))) c"
proof -
  have b: "drop_bit 30 i AND 1 \<noteq> 0 \<longleftrightarrow> bit i 30"
    unfolding and_exp_eq_0_iff_not_bit [where n = 0, simplified] by (simp add: bit_drop_bit_eq)
  show ?thesis using funct3_exhaust [of i]
    by (elim insertE) (simp_all add: exec_imm_def Let_def b isa_alu_def shamt_field)
qed

lemma exec_reg_isa:
  "f_funct3 i = 5 \<longrightarrow> bit i 30 = (f_funct7 i = 0x20) \<Longrightarrow>
   exec_reg i c = write_reg (f_rd i) (isa_alu (f_funct3 i) (f_funct7 i = 0x20) (bit i 30) (reg c (f_rs1 i)) (reg c (f_rs2 i))) c"
  using funct3_exhaust [of i]
  by (elim insertE) (simp_all add: exec_reg_def Let_def isa_alu_def)

lemma exec_branch_isa:
  "f_funct3 i \<in> {0, 1, 4, 5} \<Longrightarrow>
   exec_branch i c = c\<lparr>pc := (if isa_branch (f_funct3 i) (reg c (f_rs1 i)) (reg c (f_rs2 i)) then pc c + decode_B_imm i - 4 else pc c)\<rparr>"
  by (auto simp: exec_branch_def isa_branch_def Let_def)


section \<open>Memory\<close>

lemma word_pc_int: "word_pc j = word_of_int (4 * int j)"
  by (simp add: word_pc_def)

lemma word_put_other: "j \<noteq> k \<Longrightarrow> word_at (put_at (4 * j) v m) (4 * k) = word_at m (4 * k)"
  by (rule word_at_cong) (auto simp: put_at_def; presburger)+

lemma ram_word: "j < 1024 \<Longrightarrow> unat (drop_bit 2 (word_pc j)) = j"
  by (simp add: drop_word_pc unat_nat32)

lemma same_load:
  assumes "same_state T c A" "T \<le> j" "j < 1024"
  shows "fetch_instruction c (word_pc j) = Some (ram_read outside (adata A) (word_pc j))"
  using assms fetch_woi [of "4 * int j" c] ram_word [of j]
  by (simp add: ram_read_def same_state_def word_pc_int nat_mult_distrib)

lemma same_store:
  assumes "same_state T c A" "j < 1024"
  shows "\<exists>m. put_word (word_pc j) v c = Some (c\<lparr>memory := m\<rparr>)
    \<and> same_state T (c\<lparr>memory := m, pc := p\<rparr>) \<lparr>apc = p, aregs = aregs A, adata = data_mem_write True (word_pc j) v (adata A)\<rparr>"
proof -
  let ?m = "put_at (4 * j) v (memory c)"
  have "put_word (word_pc j) v c = Some (c\<lparr>memory := ?m\<rparr>)"
    using put_word_woi [of "4 * int j" v c] assms(2) by (simp add: word_pc_int nat_mult_distrib)
  moreover have "word_at ?m (4 * k) = (if k = j then v else word_at (memory c) (4 * k))" for k
    using word_put word_put_other by auto
  then have "same_state T (c\<lparr>memory := ?m, pc := p\<rparr>) \<lparr>apc = p, aregs = aregs A, adata = data_mem_write True (word_pc j) v (adata A)\<rparr>"
    using assms ram_word [of j] by (auto simp: same_state_def data_mem_write_def)
  ultimately show ?thesis by blast
qed

lemma below_4096: "j < 1024 \<Longrightarrow> \<not> 4096 \<le> word_pc j + 3"
proof -
  assume "j < 1024"
  then have "unat (word_of_nat (4 * j + 3) :: u32w) = 4 * j + 3" by (intro unat_nat32) simp
  moreover have "word_pc j + 3 = word_of_nat (4 * j + 3)" by (simp add: word_pc_def)
  ultimately show ?thesis using \<open>j < 1024\<close> by (simp only: word_le_nat_alt) simp
qed

section \<open>One instruction\<close>

lemma same_step:
  assumes "same_state T c A" "instruction_mem im (pc c) = i" "supported i"
    and "\<And>x. data_address i c = Some x \<Longrightarrow> \<exists>j. x = word_pc j \<and> T \<le> j \<and> j < 1024"
  shows "\<exists>c'. decode_and_execute i c = Some c' \<and> same_state T (c'\<lparr>pc := pc c' + 4\<rparr>) (isa_step im outside A)"
proof -
  have p: "apc A = pc c" using assms(1) by (simp add: same_state_def)
  have r: "areg (aregs A) (i_rs1 i) = reg c (f_rs1 i)" "areg (aregs A) (i_rs2 i) = reg c (f_rs2 i)"
    using same_reg [OF assms(1)] by (simp_all add: f_ucast)
  have step: "isa_step im outside A
      = apply_effect (isa_effect (ram_read outside (adata A)) i (pc c) (reg c (f_rs1 i)) (reg c (f_rs2 i))) A"
    by (simp add: isa_step_def effect_at_def p assms(2) r Let_def)
  note w = same_write [OF assms(1), where r = "i_rd i", folded f_ucast(4)]
  have pcw: "pc (write_reg d v c) = pc c" for d v by (simp add: write_reg_def)
  have f3: "opcode = 0x33 \<Longrightarrow> f_opcode i = opcode \<Longrightarrow> f_funct3 i = 5 \<longrightarrow> bit i 30 = (f_funct7 i = 0x20)" for opcode
    using assms(3) by (auto simp: supported_def Let_def)
  have keep: "same_state T (c\<lparr>pc := q\<rparr>) \<lparr>apc = q, aregs = aregs A, adata = adata A\<rparr>" for q using assms(1) by (simp add: same_state_def)
  from assms(3) consider "f_opcode i = 0x33" | "f_opcode i = 0x13" | "f_opcode i = 0x03" "f_funct3 i = 2"
    | "f_opcode i = 0x23" "f_funct3 i = 2" | "f_opcode i = 0x63" "f_funct3 i \<in> {0, 1, 4, 5}"
    | "f_opcode i = 0x6F" | "f_opcode i = 0x67" | "f_opcode i = 0x37" | "f_opcode i = 0x17"
    by (auto simp: supported_def Let_def)
  then show ?thesis
  proof cases
    case 1
    with w f3 [OF refl] show ?thesis
      by (simp add: step decode_and_execute_def exec_reg_isa isa_effect_def apply_effect_def Let_def pcw)
  next
    case 2
    with w show ?thesis
      by (simp add: step decode_and_execute_def exec_imm_isa isa_effect_def apply_effect_def Let_def pcw)
  next
    case 3
    then obtain j where j: "reg c (f_rs1 i) + sign_extend_12 (drop_bit 20 i) = word_pc j" "T \<le> j" "j < 1024"
      using assms(4) by (auto simp: data_address_def)
    have "decode_and_execute i c = map_option (\<lambda>v. write_reg (f_rd i) v c) (fetch_instruction c (word_pc j))"
      using 3 below_4096 [OF j(3)]
      by (simp add: decode_and_execute_def exec_load_def Let_def j(1) fetch_instruction_def map_option_bind o_def)
    then show ?thesis using 3 w same_load [OF assms(1) j(2,3), of outside]
      by (simp add: step isa_effect_def apply_effect_def Let_def pcw j(1))
  next
    case 4
    then obtain j where j: "reg c (f_rs1 i) + decode_S_imm i = word_pc j" "j < 1024"
      using assms(4) by (auto simp: data_address_def)
    from same_store [OF assms(1) j(2), of "reg c (f_rs2 i)" "pc c + 4"] 4 show ?thesis
      by (auto simp: step decode_and_execute_def exec_store_def isa_effect_def apply_effect_def Let_def j(1) arch.defs)
  next
    case 5
    with keep show ?thesis
      by (simp add: step decode_and_execute_def exec_branch_isa isa_effect_def apply_effect_def Let_def)
  next
    case 6
    with w show ?thesis
      by (simp add: step decode_and_execute_def exec_jal_def isa_effect_def apply_effect_def Let_def pcw)
  next
    case 7
    with w show ?thesis
      by (simp add: step decode_and_execute_def exec_jalr_def isa_effect_def apply_effect_def Let_def pcw)
  next
    case 8
    with w show ?thesis
      by (simp add: step decode_and_execute_def isa_effect_def apply_effect_def Let_def pcw)
  next
    case 9
    with w show ?thesis
      by (simp add: step decode_and_execute_def isa_effect_def apply_effect_def Let_def pcw)
  qed
qed
end
