(* ===== verification/Rtl_Agree.thy ===== *)
theory Rtl_Agree
  imports Rtl_Cpp
begin

text \<open>
  Generated programs on the simulator and on the instruction machine of the core. The instruction
  memory of the testbench holds the program and nops behind it (\<open>program_rom\<close>), its data memory
  zeros. Every turn of a \<open>safe_run\<close> is a supported instruction whose access, if any, is to an aligned
  word behind the program, so both machines stay in the same state.
\<close>

section \<open>The memories the testbench loads\<close>

definition program_rom :: "int list \<Rightarrow> rom" where
  "program_rom P w = (if unat w < length P then word_of_int (P ! unat w) else 0x00000013)"

lemma rom_word_program: "k < 1024 \<Longrightarrow> rom_word (program_rom P) k = (if k < length P then word_of_int (P ! k) else 0x13)"
  by (simp add: rom_word_def program_rom_def unsigned_of_nat take_bit_nat_eq_self)

lemma roomy_length: "roomy P \<Longrightarrow> length P < 1008"
  by (simp add: roomy_def program_size_def)

lemma program_at:
  assumes "roomy P" "0 \<le> j" "j < int (length P)"
  shows "instruction_mem (program_rom P) (addr j) = word_of_int (P ! nat j)"
proof -
  have "addr j = word_pc (nat j)" using assms(2) by (simp add: word_pc_int)
  then show ?thesis
    using assms roomy_length [OF assms(1)] by (simp add: instruction_mem_word rom_word_program nat_less_iff)
qed

section \<open>Generated instructions are supported\<close>

lemma bit30: "bit i 30 \<longleftrightarrow> bit (f_funct7 i) 5"
  unfolding f_funct7_def decode_masks by (simp add: bit_simps)

lemma encode_supported:
  assumes "wf_op i"
  shows "supported (word_of_int (encode i))"
proof (cases i)
  case (OpR f3 f7 rd rs1 rs2)
  with assms have w: "(0x33, f3, f7) \<in> set R_TYPE" "fits 5 rd" "fits 5 rs1" "fits 5 rs2" by simp_all
  then have "supported (word_of_int (enc_r 0x33 f3 f7 rd rs1 rs2))"
    unfolding table_cases by (elim disjE conjE; simp add: supported_def Let_def fields_r bit30)
  with OpR show ?thesis by simp
next
  case (OpBranch f3 rs1 rs2 imm)
  with assms have w: "(0x63, f3) \<in> set BRANCHES" "fits 5 rs1" "fits 5 rs2" by simp_all
  then have "supported (word_of_int (enc_b 0x63 f3 rs1 rs2 imm))"
    unfolding table_cases by (elim disjE conjE; simp add: supported_def Let_def fields_b)
  with OpBranch show ?thesis by simp
next
  case (OpI f3 rd rs1 imm)
  with assms have w: "(0x13, f3) \<in> set I_ARITH" "fits 5 rd" "fits 5 rs1" by simp_all
  then have "supported (word_of_int (enc_i 0x13 f3 rd rs1 imm))"
    unfolding table_cases by (elim disjE conjE; simp add: supported_def Let_def fields_i)
  with OpI show ?thesis by simp
next
  case (OpShift f3 f7 rd rs1 sh)
  with assms have w: "(0x13, f3, f7) \<in> set I_SHIFT" "fits 5 rd" "fits 5 rs1" "fits 5 sh" by simp_all
  then have "supported (word_of_int (enc_shift 0x13 f3 f7 rd rs1 sh))"
    unfolding table_cases by (elim disjE conjE; simp add: supported_def Let_def fields_shift)
  with OpShift show ?thesis by simp
qed (use assms in \<open>simp_all add: supported_def Let_def fields_i fields_s fields_j fields_u\<close>)

text \<open>The window behind the program consists of aligned words of both memories.\<close>

lemma window_word:
  assumes "code P c" "base_set P c" "window_offset d"
  shows "\<exists>j. registers c 31 + word_of_int d = word_pc j \<and> length P \<le> j \<and> j < 1024"
proof -
  obtain q where d: "d = 4 * q" "- LOAD_STORE_WINDOW \<le> d" "d \<le> LOAD_STORE_WINDOW"
    using assms(3) by (auto simp: window_offset_def)
  let ?j = "int (length P) + LOAD_STORE_WINDOW div 4 + q"
  have r: "int (length P) \<le> ?j" "?j < 1024"
    using d assms(1) by (auto simp: LOAD_STORE_WINDOW_def code_def roomy_def program_size_def)
  have "registers c 31 + word_of_int d = word_of_int (4 * ?j)"
    using assms(2) d(1) by (simp add: base_set_def program_size_def LOAD_STORE_WINDOW_def algebra_simps)
  also have "\<dots> = word_pc (nat ?j)" using r by (simp add: word_pc_int)
  finally show ?thesis using r by (intro exI [of _ "nat ?j"]) auto
qed

lemma tame_address:
  assumes "code P c" "wf_op i" "window_op i" "accesses i \<longrightarrow> base_set P c"
    and "data_address (word_of_int (encode i)) c = Some x"
  shows "\<exists>j. x = word_pc j \<and> length P \<le> j \<and> j < 1024"
proof (cases i)
  case (OpLoad rd rs1 d)
  with assms have "x = registers c 31 + word_of_int d" "window_offset d" "base_set P c"
    by (auto simp: data_address_def fields_i imm_I reg_def)
  with window_word [OF assms(1)] show ?thesis by simp
next
  case (OpStore rs1 rs2 d)
  with assms have "x = registers c 31 + word_of_int d" "window_offset d" "base_set P c"
    by (auto simp: data_address_def fields_s imm_S reg_def)
  with window_word [OF assms(1)] show ?thesis by simp
qed (use assms in \<open>auto simp: data_address_def table_cases fields_r fields_i fields_shift fields_b fields_j fields_u\<close>)

lemma tame_step:
  assumes "code P c" "tame P c" "sim_step c = Go c1" "same_state (length P) c A"
  shows "same_state (length P) c1 (isa_step (program_rom P) outside A)"
proof -
  obtain j i where i: "0 \<le> j" "j < int (length P)" "pc c = addr j" "P ! nat j = encode i" "wf_op i" "window_op i"
    "accesses i \<longrightarrow> base_set P c"
    using assms(2) by (auto simp: tame_def)
  let ?w = "word_of_int (encode i) :: u32w"
  have f: "fetch_instruction c (pc c) = Some ?w" using assms(1) i(1-4) by (simp add: code_def)
  have "roomy P" using assms(1) by (simp add: code_def)
  then have im: "instruction_mem (program_rom P) (pc c) = ?w" using program_at i(1-4) by simp
  obtain c' where c': "decode_and_execute ?w c = Some c'"
    "same_state (length P) (c'\<lparr>pc := pc c' + 4\<rparr>) (isa_step (program_rom P) outside A)"
    using same_step [OF assms(4) im encode_supported [OF i(5)] tame_address [OF assms(1) i(5-7)]] by blast
  have "c1 = c'\<lparr>pc := pc c' + 4\<rparr>"
    using assms(3) f c'(1) encode_nonzero [OF i(5)] by (auto simp: sim_step_def split: if_splits)
  with c'(2) show ?thesis by simp
qed

lemma safe_run_same:
  "safe_run P m c d \<Longrightarrow> same_state (length P) c A \<Longrightarrow> k \<le> m \<Longrightarrow>
   \<exists>e. run_sim k c = Running e \<and> same_state (length P) e ((isa_step (program_rom P) outside ^^ k) A)"
proof (induction arbitrary: k A rule: safe_run.induct)
  case (here P c)
  then show ?case by simp
next
  case (turn P c c1 m d)
  show ?case
  proof (cases k)
    case (Suc k')
    have "same_state (length P) c1 (isa_step (program_rom P) outside A)"
      by (rule tame_step) (use turn in auto)
    from turn.IH [OF this, of k'] Suc turn.prems(2) turn.hyps(3) show ?thesis
      by (auto simp: funpow_swap1)
  qed (use turn.prems in simp)
qed

section \<open>The loaded memory\<close>

lemma load_words_above:
  "0 \<le> j \<Longrightarrow> j + int (length ws) < 1024 \<Longrightarrow> load_words (addr j) (map word_of_int ws) c = Some c' \<Longrightarrow>
   4 * (nat j + length ws) \<le> y \<Longrightarrow> memory c' y = memory c y"
proof (induction ws arbitrary: j c)
  case (Cons w ws)
  let ?d = "c\<lparr>memory := put_at (nat (4 * j)) (word_of_int w) (memory c)\<rparr>"
  have "store_word (addr j) (word_of_int w) c = Some ?d"
    using Cons.prems(1,2) woi_less_4096 [of "4 * j + 3"] put_word_woi [of "4 * j"]
    by (simp add: store_word_def)
  moreover have "addr j + 4 = addr (j + 1)" by simp
  ultimately have "load_words (addr (j + 1)) (map word_of_int ws) ?d = Some c'"
    using Cons.prems(3) by (simp del: of_int_add)
  moreover have n: "nat (j + 1) = Suc (nat j)" "nat (4 * j) = 4 * nat j" using Cons.prems(1) by simp_all
  ultimately have "memory c' y = memory ?d y"
    using Cons.IH [of "j + 1" ?d] Cons.prems(1,2,4) by simp
  also have "\<dots> = memory c y" using n(2) Cons.prems(4) by (auto simp: put_at_def)
  finally show ?case .
qed simp

definition start_arch :: arch where
  "start_arch = \<lparr>apc = 0, aregs = \<lambda>_. 0, adata = \<lambda>_. 0\<rparr>"

lemma same_start:
  assumes "roomy P" "load_words 0 (map word_of_int P) init_cpu = Some c"
  shows "same_state (length P) c start_arch"
proof -
  obtain m where c: "c = init_cpu\<lparr>memory := m\<rparr>" using load_words_code [OF assms(1)] assms(2) by auto
  have l: "0 + int (length P) < 1024" using roomy_length [OF assms(1)] by simp
  have z: "memory c y = 0" if "4 * length P \<le> y" for y
    using load_words_above [OF order_refl l, of init_cpu c y] assms(2) that by (simp add: init_cpu_def)
  then have "word_at (memory c) (4 * j) = 0" if "length P \<le> j" for j
    using that by (simp add: word_at_def)
  then show ?thesis by (simp add: c same_state_def start_arch_def init_cpu_def)
qed

end
