(* ===== verification/Rtl_Replay.thy ===== *)
theory Rtl_Replay
  imports Rtl_Agree
begin

text \<open>
  Every generated program is replayable by the loop buffer: its only backward branches end the
  generated loops, whose bodies are straight, whose last two words before the branch are no load and
  its user, and which no other jump enters. The jumps of a program are found by their position in the
  list of blocks (\<open>filled_jumps\<close>).
\<close>

section \<open>The jumps of a generated program\<close>

fun op_jump :: "op \<Rightarrow> int option" where
  "op_jump (OpBranch f3 rs1 rs2 imm) = Some imm"
| "op_jump (OpJal rd imm) = Some imm"
| "op_jump _ = None"

fun block_ops :: "block \<Rightarrow> op list" where
  "block_ops Hole = []"
| "block_ops (Single i) = [i]"
| "block_ops (Loop trip body) = loop_ops trip body"

definition ops_of :: "block list \<Rightarrow> op list" where
  "ops_of bs = concat (map block_ops bs)"

lemma ops_of_simps [simp]: "ops_of [] = []" "ops_of (b # bs) = block_ops b @ ops_of bs"
  by (simp_all add: ops_of_def)

lemma plain_no_jump: "plain_op i \<Longrightarrow> op_jump i = None"
  by (cases i) auto

lemma length_loop_ops: "length (loop_ops trip body) = length body + 3"
  by (simp add: loop_ops_def)

lemma filled_ops:
  "filled p n rs bs \<Longrightarrow> map the (words bs) = map encode (ops_of bs) \<and> length (ops_of bs) = len bs"
  by (induction p n rs bs rule: filled.induct) (auto simp: length_loop_ops)

text \<open>A jump is a forward jump to a word outside all loops, or the branch at the end of a loop.\<close>

definition forward_jump :: "int \<Rightarrow> int \<Rightarrow> ranges \<Rightarrow> int \<Rightarrow> bool" where
  "forward_jump q n rs imm \<longleftrightarrow>
     (\<exists>d. imm = 4 * d \<and> 0 < d \<and> q + d \<le> n \<and> \<not> in_any_range (q + d) rs)"

definition loop_jump :: "op list \<Rightarrow> nat \<Rightarrow> int \<Rightarrow> ranges \<Rightarrow> int \<Rightarrow> bool" where
  "loop_jump ops i q rs imm \<longleftrightarrow>
     (\<exists>body. imm = - 4 * (int (length body) + 1) \<and> 1 \<le> length body \<and> (\<forall>x \<in> set body. plain_op x)
        \<and> length body + 2 \<le> i
        \<and> take (length body + 1) (drop (i - length body - 1) ops) = body @ [OpI 0 30 30 (-1)]
        \<and> (q - int (length body) - 2, q + 1) \<in> set rs)"

lemma loop_jump_append:
  assumes "loop_jump ops i q rs imm"
  shows "loop_jump (pre @ ops @ post) (length pre + i) q rs imm"
proof -
  obtain body where b: "imm = - 4 * (int (length body) + 1)" "1 \<le> length body" "\<forall>x \<in> set body. plain_op x"
    "length body + 2 \<le> i" "take (length body + 1) (drop (i - length body - 1) ops) = body @ [OpI 0 30 30 (-1)]"
    "(q - int (length body) - 2, q + 1) \<in> set rs"
    using assms unfolding loop_jump_def by blast
  have "length (take (length body + 1) (drop (i - length body - 1) ops)) = length body + 1" unfolding b(5) by simp
  then have "length body + 1 \<le> length (drop (i - length body - 1) ops)" by simp
  moreover have "drop (length pre + i - length body - 1) (pre @ ops @ post) = drop (i - length body - 1) ops @ post"
    using b(4) calculation by (simp add: drop_append Nat.diff_add_assoc2)
  ultimately have "take (length body + 1) (drop (length pre + i - length body - 1) (pre @ ops @ post)) = body @ [OpI 0 30 30 (-1)]"
    using b(5) by simp
  with b show ?thesis unfolding loop_jump_def by (intro exI [of _ body]) auto
qed

lemma loop_ops_jump:
  assumes "wf_block (Loop trip body)" "i < length body + 3" "op_jump (loop_ops trip body ! i) = Some imm"
    and "(q, q + int (length body) + 3) \<in> set rs"
  shows "loop_jump (loop_ops trip body) i (q + int i) rs imm"
proof -
  have "i = length body + 2"
  proof (rule ccontr)
    assume "i \<noteq> length body + 2"
    then consider "i = 0" | "1 \<le> i" "i \<le> length body" | "i = length body + 1" using assms(2) by linarith
    then show False
    proof cases
      case 2
      then have "loop_ops trip body ! i = body ! (i - 1)" "i - 1 < length body"
        by (auto simp: loop_ops_def nth_Cons' nth_append)
      then show False using assms(1,3) plain_no_jump by (metis wf_block.simps(1) nth_mem option.distinct(1))
    qed (use assms(3) in \<open>auto simp: loop_ops_def nth_append\<close>)
  qed
  moreover from this have "imm = - 4 * (int (length body) + 1)" using assms(3) by (simp add: loop_ops_def nth_append)
  ultimately show ?thesis using assms(1,4)
    unfolding loop_jump_def by (intro exI [of _ body]) (auto simp: loop_ops_def algebra_simps)
qed

lemma filled_jumps:
  "filled p n rs bs \<Longrightarrow> set (ranges_of p bs) \<subseteq> set rs \<Longrightarrow> n = p + int (len bs) \<Longrightarrow> i < len bs \<Longrightarrow>
   op_jump (ops_of bs ! i) = Some imm \<Longrightarrow>
   forward_jump (p + int i) n rs imm \<or> loop_jump (ops_of bs) i (p + int i) rs imm"
proof (induction bs arbitrary: p i)
  case (Cons b bs)
  have lb: "length (block_ops b) = block_len b" using Cons.prems(1) by (cases b) (auto simp: length_loop_ops)
  show ?case
  proof (cases "i < block_len b")
    case False
    let ?p = "p + int (block_len b)" and ?i = "i - block_len b"
    have f: "filled ?p n rs bs" "set (ranges_of ?p bs) \<subseteq> set rs"
      using Cons.prems(1,2) by (cases b; auto)+
    have "forward_jump (?p + int ?i) n rs imm \<or> loop_jump (ops_of bs) ?i (?p + int ?i) rs imm"
      by (rule Cons.IH [OF f]) (use Cons.prems(3-5) False lb in \<open>auto simp: nth_append\<close>)
    moreover have "?p + int ?i = p + int i" "length (block_ops b) + ?i = i" using False lb by auto
    ultimately show ?thesis using loop_jump_append [of "ops_of bs" ?i _ rs imm "block_ops b" "[]"] by auto
  next
    case True
    then have j: "op_jump (block_ops b ! i) = Some imm" using Cons.prems(5) lb by (simp add: nth_append)
    show ?thesis
    proof (cases b)
      case Hole
      with Cons.prems(1) show ?thesis by simp
    next
      case (Loop trip body)
      have "loop_jump (loop_ops trip body) i (p + int i) rs imm"
        by (rule loop_ops_jump) (use Cons.prems(1,2) True Loop j in \<open>auto simp: ac_simps\<close>)
      with loop_jump_append [of "loop_ops trip body" i "p + int i" rs imm "[]" "ops_of bs"] Loop show ?thesis by simp
    next
      case (Single x)
      then have x: "slot_op p n rs x" "op_jump x = Some imm" "i = 0" "p < n"
        using Cons.prems(1,3) True j by auto
      then obtain d where d: "d \<in> set (candidates p n rs)" "control_op d x"
        using plain_no_jump by (auto simp: slot_op_def)
      have "imm = 4 * d" using d(2) x(2) by (cases x) auto
      with candidates_sound [OF d(1) x(4)] x(3) show ?thesis by (auto simp: forward_jump_def)
    qed
  qed
qed simp

section \<open>Generated programs are replayable\<close>

text \<open>All words of a built program as instructions.\<close>

definition program_ops :: "int \<Rightarrow> block list \<Rightarrow> op list" where
  "program_ops n bs = map (\<lambda>r. OpI 0 r 0 0) [1..31] @ base_ops n @ ops_of bs @ [OpBranch 0 0 0 0]"

definition program_jump :: "op list \<Rightarrow> nat \<Rightarrow> nat \<Rightarrow> bool" where
  "program_jump ops k t \<longleftrightarrow> k < length ops \<and> op_jump (ops ! k) = Some (4 * (int t - int k))"

lemma jump_word:
  assumes "wf_op i" "op_jump i = Some imm"
  shows "control_flow (word_of_int (encode i))" "i_opcode (word_of_int (encode i)) \<noteq> 0x67"
    "imm_gen (word_of_int (encode i)) = word_of_int imm"
proof -
  have "f_opcode (word_of_int (encode i)) \<in> {0x63, 0x6F} \<and> imm_gen (word_of_int (encode i)) = word_of_int imm"
    using assms by (cases i) (auto simp: table_cases fields_b fields_j imm_gen_decode imm_B imm_J)
  then show "control_flow (word_of_int (encode i))" "i_opcode (word_of_int (encode i)) \<noteq> 0x67"
    "imm_gen (word_of_int (encode i)) = word_of_int imm"
    unfolding control_flow_def opcode_iff [symmetric] by auto
qed

lemma no_jump_word:
  assumes "wf_op i" "op_jump i = None"
  shows "\<not> control_flow (word_of_int (encode i))"
proof -
  have "f_opcode (word_of_int (encode i)) \<notin> {0x63, 0x6F, 0x67}"
  proof (cases i)
    case (OpR f3 f7 rd rs1 rs2)
    with assms(1) have "fits 3 f3" "fits 7 f7" by (auto simp: table_cases)
    with OpR assms(1) show ?thesis by (simp add: fields_r del: table_cases)
  qed (use assms in \<open>auto simp: table_cases fields_i fields_shift fields_s fields_u\<close>)
  then show ?thesis unfolding control_flow_def opcode_iff [symmetric] by auto
qed

text \<open>The words of a program of instructions whose jumps have targets in it.\<close>

definition jumps_inside :: "op list \<Rightarrow> nat \<Rightarrow> bool" where
  "jumps_inside ops e \<longleftrightarrow> (\<forall>x \<in> set ops. wf_op x) \<and> length ops = Suc e \<and> e + 2 < 1024
     \<and> (\<forall>k \<le> e. op_jump (ops ! k) \<noteq> None \<longrightarrow> (\<exists>t \<le> e. program_jump ops k t))"

lemma ops_words:
  assumes "jumps_inside ops e" "k \<le> e"
  shows "rom_word (program_rom (map encode ops)) k = word_of_int (encode (ops ! k))" "wf_op (ops ! k)"
    "control_flow (rom_word (program_rom (map encode ops)) k) \<longleftrightarrow> op_jump (ops ! k) \<noteq> None"
proof -
  show w: "rom_word (program_rom (map encode ops)) k = word_of_int (encode (ops ! k))"
    using assms by (simp add: rom_word_program jumps_inside_def)
  show wf: "wf_op (ops ! k)" using assms by (auto simp: jumps_inside_def)
  show "control_flow (rom_word (program_rom (map encode ops)) k) \<longleftrightarrow> op_jump (ops ! k) \<noteq> None"
    using w wf jump_word no_jump_word by fastforce
qed

lemma ops_jumps_to:
  assumes "jumps_inside ops e" "k \<le> e" "t \<le> e"
  shows "jumps_to (program_rom (map encode ops)) k t \<longleftrightarrow> program_jump ops k t"
proof (cases "op_jump (ops ! k)")
  case None
  then show ?thesis using ops_words(3) [OF assms(1,2)] by (simp add: jumps_to_def program_jump_def)
next
  case (Some imm)
  then obtain t' where t': "t' \<le> e" "program_jump ops k t'" using assms(1,2) by (auto simp: jumps_inside_def)
  then have imm: "imm = 4 * (int t' - int k)" using Some by (simp add: program_jump_def)
  have e: "e + 2 < 1024" using assms(1) by (simp add: jumps_inside_def)
  note w = ops_words [OF assms(1,2)]
  have "word_pc k + imm_gen (rom_word (program_rom (map encode ops)) k) = word_pc t'"
    using jump_word(3) [OF w(2) Some] by (simp add: w(1) imm word_pc_int algebra_simps)
  then have "jumps_to (program_rom (map encode ops)) k t \<longleftrightarrow> t' = t"
    using w(3) Some assms(3) t'(1) e word_pc_eq [of t' t] by (simp add: jumps_to_def)
  also have "t' = t \<longleftrightarrow> program_jump ops k t" using t' Some by (auto simp: program_jump_def)
  finally show ?thesis .
qed

text \<open>What makes a program replayable, on instructions instead of words.\<close>

lemma replayable_ops:
  assumes "jumps_inside ops e" "ops ! e = OpBranch 0 0 0 0"
    and backward: "\<And>b t. b \<le> e \<Longrightarrow> t < b \<Longrightarrow> program_jump ops b t \<Longrightarrow>
      t + 2 \<le> b \<and> (\<forall>j \<in> {t ..< b}. op_jump (ops ! j) = None)
      \<and> \<not> load_use (word_of_int (encode (ops ! (b - 2)))) (word_of_int (encode (ops ! (b - 1))))
      \<and> (\<forall>k \<le> e. \<not> program_jump ops k (b - 1) \<and> \<not> program_jump ops k b)"
  shows "replayable (program_rom (map encode ops)) e"
proof -
  let ?im = "program_rom (map encode ops)"
  note w = ops_words [OF assms(1)] and jump = ops_jumps_to [OF assms(1)]
  have i: "length ops = Suc e" "e + 2 < 1024" "\<And>k. k \<le> e \<Longrightarrow> op_jump (ops ! k) \<noteq> None \<Longrightarrow> \<exists>t \<le> e. program_jump ops k t"
    using assms(1) by (auto simp: jumps_inside_def)
  show ?thesis
    unfolding replayable_def
  proof (intro conjI ballI impI)
    show "rom_word ?im e = 0x63" using w(1) [of e] by (simp add: assms(2) enc_b_def slice_at_def u32_def)
    have "rom_word ?im (e + 1) = 0x13" using i(1,2) by (simp add: rom_word_program)
    then show "\<not> control_flow (rom_word ?im (e + 1))" by (simp add: control_flow_def i_opcode_def)
    fix k assume k: "k \<in> {0..e}" "control_flow (rom_word ?im k)"
    then obtain imm where imm: "op_jump (ops ! k) = Some imm" using w(3) by auto
    show "i_opcode (rom_word ?im k) \<noteq> 0x67" using k jump_word(2) [OF w(2) imm] w(1) by simp
    show "\<exists>t \<in> {0..e}. jumps_to ?im k t" using i(3) [of k] imm jump k(1) by auto
  next
    fix b t assume b: "b \<in> {0..e}" "t \<in> {0..<b}" "jumps_to ?im b t"
    then have pj: "program_jump ops b t" using jump by auto
    have bt: "b \<le> e" "t < b" using b by auto
    note bk = backward [OF bt pj]
    show "straight_body ?im t b" unfolding straight_body_def using bk w(1,3) bt by auto
    fix k assume "k \<in> {0..e}"
    then show "\<not> jumps_to ?im k (b - 1)" "\<not> jumps_to ?im k b" using bk jump bt by auto
  qed (use i(2) in simp)
qed

lemma filled_wf: "filled p n rs bs \<Longrightarrow> n = p + int (len bs) \<Longrightarrow> \<forall>x \<in> set (ops_of bs). wf_op x"
proof (induction p n rs bs rule: filled.induct)
  case (3 p n rs i bs)
  then have s: "slot_op p n rs i" "p < n" by auto
  have "wf_op i"
  proof (cases "plain_op i")
    case True
    then show ?thesis by (rule plain_wf)
  next
    case False
    then obtain d where d: "d \<in> set (candidates p n rs)" "control_op d i" using s(1) by (auto simp: slot_op_def)
    show ?thesis using control_wf [OF d(2)] candidates_sound [OF d(1) s(2)] by simp
  qed
  with 3 show ?case by simp
next
  case (4 p n rs trip body bs)
  then have "\<forall>x \<in> set (loop_ops trip body). wf_op x"
    using plain_wf loop_wf by (auto simp: loop_ops_def simp del: wf_op.simps)
  with 4 show ?case by (auto simp: algebra_simps)
qed auto

lemma base_ops_wf:
  assumes "1 \<le> n" "(31 + n + 1) * 4 \<le> 4028"
  shows "\<forall>x \<in> set (base_ops n). wf_op x \<and> op_jump x = None"
proof -
  obtain hi lo where so: "split_offset ((31 + n + 1) * 4 - AUIPC_PC + LOAD_STORE_WINDOW) = (hi, lo)"
    by (metis prod.exhaust)
  have "0 \<le> (31 + n + 1) * 4 - AUIPC_PC + LOAD_STORE_WINDOW" "(31 + n + 1) * 4 - AUIPC_PC + LOAD_STORE_WINDOW < 2 ^ 31 - 2048"
    using assms by (auto simp: AUIPC_PC_def LOAD_STORE_WINDOW_def)
  from split_offset_sum(2,3) [OF so this] so show ?thesis
    by (auto simp: base_ops_def Let_def I_ARITH_def reg_names_fit)
qed

lemma program_ops_split:
  obtains L where "program_ops n bs = L @ base_ops n @ ops_of bs @ [OpBranch 0 0 0 0]" "length L = 31"
    "\<forall>x \<in> set L. wf_op x \<and> op_jump x = None" "map encode L = clear_all_regs_preamble"
proof
  let ?L = "map (\<lambda>r. OpI 0 r 0 0) [1..31]"
  show "program_ops n bs = ?L @ base_ops n @ ops_of bs @ [OpBranch 0 0 0 0]" by (simp add: program_ops_def)
  show "length ?L = 31" unfolding length_map by (subst length_upto) simp
  have "\<forall>r \<in> set [1..31]. fits 5 r" by (subst set_upto) (auto simp: fits_def)
  then show "\<forall>x \<in> set ?L. wf_op x \<and> op_jump x = None"
    unfolding set_map by (auto simp: I_ARITH_def fits_def sfits_def)
  show "map encode ?L = clear_all_regs_preamble" unfolding clear_encode map_map comp_def by (rule refl)
qed

text \<open>A jump of a built program, by its position.\<close>

lemma program_ops_jump:
  assumes "filled p n (ranges_of p bs) bs" "p = start_word n" "n = p + int (len bs)" "1 \<le> n" "(31 + n + 1) * 4 \<le> 4028"
    and "k \<le> nat n + 31" "op_jump (program_ops n bs ! k) = Some imm"
  shows "k = nat n + 31 \<and> imm = 0 \<or> forward_jump (int k - 31) n (ranges_of p bs) imm
    \<or> loop_jump (program_ops n bs) k (int k - 31) (ranges_of p bs) imm"
proof -
  obtain L where L: "program_ops n bs = L @ base_ops n @ ops_of bs @ [OpBranch 0 0 0 0]" "length L = 31"
    "\<forall>x \<in> set L. wf_op x \<and> op_jump x = None" "map encode L = clear_all_regs_preamble"
    by (rule program_ops_split)
  let ?pre = "L @ base_ops n" and ?e = "nat n + 31"
  have lb: "int (length (base_ops n)) = p"
    by (auto simp: assms(2) base_ops_def start_word_def Let_def split: prod.splits)
  have ops: "program_ops n bs = ?pre @ ops_of bs @ [OpBranch 0 0 0 0]" by (simp add: L(1))
  have lo: "length (ops_of bs) = len bs" using filled_ops [OF assms(1)] by simp
  have e: "?e = length ?pre + len bs" using lb assms(3,4) L(2) by simp
  have pre: "op_jump x = None" if "x \<in> set ?pre" for x using that base_ops_wf [OF assms(4,5)] L(3) by auto
  consider "k < length ?pre" | "length ?pre \<le> k" "k < ?e" | "k = ?e" using assms(6) by linarith
  then show ?thesis
  proof cases
    case 1
    then have "program_ops n bs ! k \<in> set ?pre" unfolding ops using nth_append [of ?pre _ k] by (metis nth_mem)
    then show ?thesis using pre assms(7) by (metis option.distinct(1))
  next
    case 2
    let ?i = "k - length ?pre"
    have i: "?i < len bs" "length ?pre + ?i = k" "p + int ?i = int k - 31" using 2 e lb L(2) by auto
    have "program_ops n bs ! (length ?pre + ?i) = (ops_of bs @ [OpBranch 0 0 0 0]) ! ?i"
      unfolding ops by (rule nth_append_length_plus)
    then have "program_ops n bs ! k = ops_of bs ! ?i"
      unfolding i(2) using i(1) lo by (simp only: nth_append if_True)
    then have "op_jump (ops_of bs ! ?i) = Some imm" using assms(7) by simp
    note fj = filled_jumps [OF assms(1) subset_refl assms(3) i(1) this]
    have "loop_jump (ops_of bs) ?i (p + int ?i) (ranges_of p bs) imm \<Longrightarrow>
        loop_jump (program_ops n bs) k (p + int ?i) (ranges_of p bs) imm"
      using loop_jump_append [of "ops_of bs" ?i "p + int ?i" "ranges_of p bs" imm ?pre "[OpBranch 0 0 0 0]"]
      unfolding ops i(2) .
    with fj show ?thesis unfolding i(3) by blast
  next
    case 3
    then have "program_ops n bs ! k = OpBranch 0 0 0 0" unfolding ops e by (simp add: nth_append lo)
    then show ?thesis using assms(7) 3 by simp
  qed
qed

lemma loop_jump_words:
  assumes "loop_jump ops b q rs imm"
  obtains l where "imm = - 4 * (int l + 1)" "1 \<le> l" "l + 2 \<le> b" "\<forall>j \<in> {b - l - 1 ..< b - 1}. plain_op (ops ! j)"
    "ops ! (b - 1) = OpI 0 30 30 (-1)" "(q - int l - 2, q + 1) \<in> set rs"
proof -
  obtain body where b: "imm = - 4 * (int (length body) + 1)" "1 \<le> length body" "\<forall>x \<in> set body. plain_op x"
    "length body + 2 \<le> b" "take (length body + 1) (drop (b - length body - 1) ops) = body @ [OpI 0 30 30 (-1)]"
    "(q - int (length body) - 2, q + 1) \<in> set rs"
    using assms unfolding loop_jump_def by blast
  have len: "length body + 1 \<le> length (drop (b - length body - 1) ops)"
    using arg_cong [OF b(5), of length] by simp
  have nth: "ops ! (b - length body - 1 + j) = (body @ [OpI 0 30 30 (-1)]) ! j" if "j \<le> length body" for j
    using that len arg_cong [OF b(5), of "\<lambda>xs. xs ! j"] by simp
  have "ops ! (b - 1) = OpI 0 30 30 (-1)" using nth [of "length body"] b(4) by simp
  moreover have "plain_op (ops ! j)" if "j \<in> {b - length body - 1 ..< b - 1}" for j
  proof -
    have j: "j - (b - length body - 1) < length body" using that b(4) by auto
    have "b - length body - 1 + (j - (b - length body - 1)) = j" using that by auto
    then have "ops ! j = body ! (j - (b - length body - 1))" using nth [of "j - (b - length body - 1)"] j by (simp add: nth_append)
    then show ?thesis using b(3) j by simp
  qed
  ultimately show thesis using that [of "length body"] b by blast
qed

lemma loop_load_use:
  assumes "plain_op x"
  shows "\<not> load_use (word_of_int (encode x)) (word_of_int (encode (OpI 0 30 30 (-1))))"
proof (cases x)
  case (OpLoad rd rs1 d)
  with assms have r: "gen_reg_ok rd" by simp
  have f: "i_rs1 (word_of_int (encode (OpI 0 30 30 (-1)))) = 30" "i_rs2 (word_of_int (encode (OpI 0 30 30 (-1)))) = 31"
    by code_simp+
  have "ucast (i_rd (word_of_int (encode x))) = (word_of_int rd :: u32w)"
    using OpLoad assms gen_reg_fits [OF r] by (simp add: f_ucast(4) [symmetric] fields_i reg_names_fit)
  then have "unat (i_rd (word_of_int (encode x))) = nat rd"
    using unat_reg [of "i_rd (word_of_int (encode x))"] unat_woi [of rd] fits_mono [of 5 rd 32] gen_reg_fits [OF r] by simp
  then show ?thesis unfolding load_use_def f using r by (auto simp: gen_reg_ok_def)
next
  case (OpStore rs1 rs2 imm)
  then show ?thesis using assms gen_reg_fits by (simp add: load_use_def opcode_iff [symmetric] fields_s reg_names_fit)
qed (use assms in \<open>auto simp: load_use_def opcode_iff [symmetric] table_cases fields_r fields_i fields_shift gen_reg_fits\<close>)

text \<open>The jumps of a program by their kind: the endless branch, a forward jump, the end of a loop.\<close>

definition jump_placed :: "op list \<Rightarrow> int \<Rightarrow> ranges \<Rightarrow> nat \<Rightarrow> int \<Rightarrow> bool" where
  "jump_placed ops n rs k imm \<longleftrightarrow> k = nat n + 31 \<and> imm = 0 \<or> forward_jump (int k - 31) n rs imm
     \<or> loop_jump ops k (int k - 31) rs imm"

lemma placed_target:
  assumes "jump_placed ops n rs k imm" "op_jump (ops ! k) = Some imm" "length ops = nat n + 32" "0 \<le> n" "k \<le> nat n + 31"
  shows "\<exists>t \<le> nat n + 31. program_jump ops k t"
proof -
  from assms(1) consider "k = nat n + 31" "imm = 0" | "forward_jump (int k - 31) n rs imm"
    | "loop_jump ops k (int k - 31) rs imm" unfolding jump_placed_def by blast
  then show ?thesis
  proof cases
    case 1
    then show ?thesis using assms by (intro exI [of _ k]) (simp add: program_jump_def)
  next
    case 2
    then obtain d where "imm = 4 * d" "0 < d" "int k - 31 + d \<le> n" by (auto simp: forward_jump_def)
    then show ?thesis using assms by (intro exI [of _ "nat (int k + d)"]) (auto simp: program_jump_def)
  next
    case 3
    then obtain j where "imm = - 4 * (int j + 1)" "j + 2 \<le> k" by (rule loop_jump_words) blast
    then show ?thesis using assms by (intro exI [of _ "k - j - 1"]) (auto simp: program_jump_def of_nat_diff)
  qed
qed

lemma placed_self: "jump_placed ops n rs k 0 \<Longrightarrow> k = nat n + 31"
  by (auto simp: jump_placed_def forward_jump_def loop_jump_def)

text \<open>No jump of the program leads to the last two words of a loop.\<close>

lemma placed_not_into_end:
  assumes "jump_placed ops n rs k (4 * (int s - int k))" "op_jump (ops ! k) = Some (4 * (int s - int k))"
    and "(int b - 31 - int j - 2, int b - 31 + 1) \<in> set rs" "1 \<le> j" "j + 2 \<le> b" "s = b - 1 \<or> s = b"
    and "\<not> plain_op (ops ! s)" "op_jump (ops ! (b - 1)) = None" "op_jump (ops ! b) \<noteq> Some 0"
  shows False
proof -
  from assms(1) consider "4 * (int s - int k) = 0"
    | "forward_jump (int k - 31) n rs (4 * (int s - int k))"
    | "loop_jump ops k (int k - 31) rs (4 * (int s - int k))" unfolding jump_placed_def by blast
  then show ?thesis
  proof cases
    case 1
    then have "op_jump (ops ! s) = Some 0" using assms(2) by simp
    then show ?thesis using assms(6,8,9) by auto
  next
    case 2
    then obtain d where d: "4 * (int s - int k) = 4 * d" "\<not> in_any_range (int k - 31 + d) rs"
      unfolding forward_jump_def by blast
    from d(1) have s: "int k - 31 + d = int s - 31" by simp
    have "\<not> in_any_range (int s - 31) rs" using d(2) unfolding s .
    moreover have "int b - 31 - int j - 2 \<le> int s - 31" "int s - 31 < int b - 31 + 1" using assms(4-6) by auto
    ultimately show ?thesis using assms(3) unfolding in_any_range_def by blast
  next
    case 3
    then obtain m where m: "4 * (int s - int k) = - 4 * (int m + 1)" "1 \<le> m" "m + 2 \<le> k"
      "\<forall>i \<in> {k - m - 1 ..< k - 1}. plain_op (ops ! i)" by (rule loop_jump_words)
    then have "s = k - m - 1" by auto
    then show ?thesis using m assms(7) by auto
  qed
qed

lemma placed_backward:
  assumes "\<And>k imm. k \<le> e \<Longrightarrow> op_jump (ops ! k) = Some imm \<Longrightarrow> jump_placed ops n rs k imm"
    and "b \<le> e" "t < b" "program_jump ops b t" "e = nat n + 31"
  shows "t + 2 \<le> b \<and> (\<forall>j \<in> {t ..< b}. op_jump (ops ! j) = None)
    \<and> \<not> load_use (word_of_int (encode (ops ! (b - 2)))) (word_of_int (encode (ops ! (b - 1))))
    \<and> (\<forall>k \<le> e. \<not> program_jump ops k (b - 1) \<and> \<not> program_jump ops k b)"
proof -
  have imm: "op_jump (ops ! b) = Some (4 * (int t - int b))" using assms(4) by (simp add: program_jump_def)
  have "loop_jump ops b (int b - 31) rs (4 * (int t - int b))"
    using assms(1) [OF assms(2) imm] assms(3) by (auto simp: jump_placed_def forward_jump_def)
  then obtain j where j: "4 * (int t - int b) = - 4 * (int j + 1)" "1 \<le> j" "j + 2 \<le> b"
    "\<forall>i \<in> {b - j - 1 ..< b - 1}. plain_op (ops ! i)" "ops ! (b - 1) = OpI 0 30 30 (-1)"
    "(int b - 31 - int j - 2, int b - 31 + 1) \<in> set rs"
    by (rule loop_jump_words)
  have t: "t = b - j - 1" "t + 2 \<le> b" using j(1-3) by auto
  have "op_jump (ops ! i) = None" if "i \<in> {t ..< b}" for i
    using that j(4,5) t plain_no_jump by (cases "i = b - 1") auto
  moreover have "b - 2 \<in> {b - j - 1 ..< b - 1}" using j(2,3) by auto
  then have "plain_op (ops ! (b - 2))" using j(4) by blast
  then have "\<not> load_use (word_of_int (encode (ops ! (b - 2)))) (word_of_int (encode (ops ! (b - 1))))"
    unfolding j(5) by (rule loop_load_use)
  moreover have "\<not> program_jump ops k s" if k: "k \<le> e" "s = b - 1 \<or> s = b" for k s
  proof
    assume "program_jump ops k s"
    then have ki: "op_jump (ops ! k) = Some (4 * (int s - int k))" by (simp add: program_jump_def)
    have np: "\<not> plain_op (ops ! s)" using k(2) j(5) imm plain_no_jump [of "ops ! b"] by (auto simp: gen_reg_ok_def)
    show False
      by (rule placed_not_into_end [OF assms(1) [OF k(1) ki] ki j(6,2,3) k(2) np])
        (use j(5) imm assms(3) in auto)
  qed
  ultimately show ?thesis using t(2) by blast
qed

text \<open>A built program as a list of instructions.\<close>

lemma built_program:
  assumes "build_full_program n t = (Inr (map Some P, r), t')"
  obtains bs where "P = map encode (program_ops n bs)" "filled (start_word n) n (ranges_of (start_word n) bs) bs" "1 \<le> n"
    "jumps_inside (program_ops n bs) (nat n + 31)" "program_ops n bs ! (nat n + 31) = OpBranch 0 0 0 0"
    "\<forall>k imm. k \<le> nat n + 31 \<and> op_jump (program_ops n bs ! k) = Some imm \<longrightarrow>
       jump_placed (program_ops n bs) n (ranges_of (start_word n) bs) k imm"
proof -
  obtain bs P' where sh: "map Some P = map Some P'"
    "P' = clear_all_regs_preamble @ map encode (base_ops n) @ map the (words bs) @ [EPILOGUE]"
    "filled (start_word n) n (ranges_of (start_word n) bs) bs"
    "start_word n + int (len bs) = n" "1 \<le> n" "roomy P'" "int (length P') = n + 32"
    using build_full_program_shape [OF assms] by metis
  have PP: "P' = P" using sh(1) by (metis map_injective option.inject injI)
  let ?ops = "program_ops n bs" and ?e = "nat n + 31" and ?rs = "ranges_of (start_word n) bs"
  have ep: "EPILOGUE = encode (OpBranch 0 0 0 0)" by (simp add: EPILOGUE_def)
  obtain L where L: "program_ops n bs = L @ base_ops n @ ops_of bs @ [OpBranch 0 0 0 0]"
    "length L = 31" "\<forall>x \<in> set L. wf_op x \<and> op_jump x = None" "map encode L = clear_all_regs_preamble"
    by (rule program_ops_split)
  have P: "P = map encode ?ops"
    using sh(2) filled_ops [OF sh(3)] unfolding PP L(1) ep L(4) [symmetric] by (simp del: encode.simps)
  have l: "length ?ops = Suc ?e" using sh(5,7) unfolding PP P by simp
  have room: "(31 + n + 1) * 4 \<le> 4028" using sh(6,7) by (simp add: roomy_def program_size_def)
  have n: "n = start_word n + int (len bs)" using sh(4) by simp
  have jump: "jump_placed ?ops n ?rs k imm" if "k \<le> ?e" "op_jump (?ops ! k) = Some imm" for k imm
    unfolding jump_placed_def by (rule program_ops_jump [OF sh(3) refl n sh(5) room that])
  have wf: "\<forall>x \<in> set ?ops. wf_op x"
    using L(3) base_ops_wf [OF sh(5) room] filled_wf [OF sh(3) n] unfolding L(1)
    by (auto simp: BRANCHES_def reg_names_fit sfits_def)
  have "\<exists>t \<le> ?e. program_jump ?ops k t" if "k \<le> ?e" "op_jump (?ops ! k) \<noteq> None" for k
    using that placed_target [OF jump [OF that(1)]] l sh(5) by force
  then have "jumps_inside ?ops ?e" using wf l room sh(5) unfolding jumps_inside_def by auto
  moreover have "?ops ! ?e = OpBranch 0 0 0 0" using l unfolding L(1) by (metis append.assoc length_append_singleton nat.inject nth_append_length)
  moreover have "\<forall>k imm. k \<le> ?e \<and> op_jump (?ops ! k) = Some imm \<longrightarrow> jump_placed ?ops n ?rs k imm"
    using jump by blast
  ultimately show thesis using that [OF P sh(3,5)] by blast
qed

lemma built_ops:
  assumes "build_full_program n t = (Inr (map Some P, r), t')"
  obtains ops rs where "P = map encode ops" "jumps_inside ops (nat n + 31)" "ops ! (nat n + 31) = OpBranch 0 0 0 0"
    "\<forall>k imm. k \<le> nat n + 31 \<and> op_jump (ops ! k) = Some imm \<longrightarrow> jump_placed ops n rs k imm"
  by (rule built_program [OF assms]) (rule that)

lemma built_replayable:
  assumes "build_full_program n t = (Inr (map Some P, r), t')"
  shows "replayable (program_rom P) (nat n + 31)"
proof -
  obtain ops rs where o: "P = map encode ops" "jumps_inside ops (nat n + 31)" "ops ! (nat n + 31) = OpBranch 0 0 0 0"
    "\<forall>k imm. k \<le> nat n + 31 \<and> op_jump (ops ! k) = Some imm \<longrightarrow> jump_placed ops n rs k imm"
    by (rule built_ops [OF assms])
  show ?thesis unfolding o(1) by (rule replayable_ops [OF o(2,3) placed_backward [OF o(4) [rule_format]]]) auto
qed

text \<open>Only the endless branch jumps to itself.\<close>

lemma built_self_jump:
  assumes "build_full_program n t = (Inr (map Some P, r), t')" "k \<le> nat n + 31" "jumps_to (program_rom P) k k"
  shows "k = nat n + 31"
proof -
  obtain ops rs where o: "P = map encode ops" "jumps_inside ops (nat n + 31)" "ops ! (nat n + 31) = OpBranch 0 0 0 0"
    "\<forall>k imm. k \<le> nat n + 31 \<and> op_jump (ops ! k) = Some imm \<longrightarrow> jump_placed ops n rs k imm"
    by (rule built_ops [OF assms(1)])
  have "program_jump ops k k" using ops_jumps_to [OF o(2) assms(2,2)] assms(3) by (simp add: o(1))
  then have "op_jump (ops ! k) = Some 0" by (simp add: program_jump_def)
  then have "jump_placed ops n rs k 0" using o(4) assms(2) by blast
  then show ?thesis by (rule placed_self)
qed

end
