(* ===== verification/Rv32_Agree.thy ===== *)
theory Rv32_Agree
  imports Rv32 Rtl_Replay
begin

text \<open>
  RV32I against the specification of the core and the decoding functions of \<open>src/main.cpp\<close>: the
  immediates and operations are the same, and every instruction the core implements has the effect the
  specification gives (\<open>rv_execute_isa\<close>); then words in a memory of bytes.
\<close>

section \<open>Decoding\<close>

lemma bit_scast: "bit (scast (w :: 'a::len word) :: u32w) n \<longleftrightarrow> n < 32 \<and> bit w (min n (LENGTH('a) - 1))"
  by (auto simp: bit_simps min.commute)

lemma rv_imm_i: "imm_i i = sign_extend_12 (drop_bit 20 i)"
  unfolding decode_I imm_i_def
  by (rule bit_word_eqI) (auto simp: bit_scast bit_simps bit_word_cat_iff min_def)

lemma rv_imm_s: "imm_s i = decode_S_imm i"
  unfolding decode_S imm_s_def i_funct7_def i_rd_def
  by (rule bit_word_eqI) (auto simp: bit_scast bit_simps bit_word_cat_iff min_def)

lemma rv_imm_u: "imm_u i = i AND 0xFFFFF000"
  unfolding decode_U imm_u_def by (rule refl)

lemma rv_imm_b: "imm_b i = decode_B_imm i" (is "_ = ?r")
proof (rule bit_word_eqI)
  fix n
  assume "n < LENGTH(32)"
  then consider "n = 0" | "1 \<le> n" "n \<le> 4" | "5 \<le> n" "n \<le> 10" | "n = 11" | "12 \<le> n" "n < 32"
    by fastforce
  then show "bit (imm_b i) n \<longleftrightarrow> bit ?r n"
    unfolding decode_B imm_b_def bit_scast
    by cases (auto simp: bit_simps bit_word_cat_iff min_def dest: bit_imp_le_length)
qed

lemma rv_imm_j: "imm_j i = decode_J_imm i" (is "_ = ?r")
proof (rule bit_word_eqI)
  fix n
  assume "n < LENGTH(32)"
  then consider "n = 0" | "1 \<le> n" "n \<le> 10" | "n = 11" | "12 \<le> n" "n \<le> 19" | "20 \<le> n" "n < 32"
    by fastforce
  then show "bit (imm_j i) n \<longleftrightarrow> bit ?r n"
    unfolding decode_J imm_j_def bit_scast
    by cases (auto simp: bit_simps bit_word_cat_iff min_def dest: bit_imp_le_length)
qed

lemmas rv_immediates = rv_imm_i rv_imm_s rv_imm_b rv_imm_u rv_imm_j

lemma shift_amount_and: "unat (b AND 0x1F) = shift_amount b"
  by (simp add: shift_amount_def unat_and_1F)

lemma isa_alu_rv:
  "f_funct3 i = 5 \<longrightarrow> sra = alt \<Longrightarrow> f_funct3 i = 0 \<longrightarrow> sub = alt \<Longrightarrow>
   isa_alu (f_funct3 i) sub sra a b = rv_op (i_funct3 i) alt a b"
  using word3_exhaust [of "i_funct3 i"] unfolding isa_alu_def funct_iff rv_op_def
  by (elim disjE) (simp_all add: execute_alu_def shift_amount_and)

lemma isa_branch_rv: "i_funct3 i \<in> {0, 1, 4, 5} \<Longrightarrow> isa_branch (f_funct3 i) a b = rv_taken (i_funct3 i) a b"
  unfolding isa_branch_def funct_iff rv_taken_def by auto


section \<open>One instruction\<close>

text \<open>The instructions of RV32I the core implements, with legal function fields.\<close>

definition core_legal :: "u32w \<Rightarrow> bool" where
  "core_legal i \<longleftrightarrow>
     (let opcode = i_opcode i; f3 = i_funct3 i; f7 = i_funct7 i
      in opcode = 0x33 \<and> (f7 = 0 \<or> f7 = 0x20 \<and> f3 \<in> {0, 5})
         \<or> opcode = 0x13 \<and> (f3 = 1 \<longrightarrow> f7 = 0) \<and> (f3 = 5 \<longrightarrow> f7 \<in> {0, 0x20})
         \<or> opcode \<in> {0x03, 0x23} \<and> f3 = 2
         \<or> opcode = 0x63 \<and> f3 \<in> {0, 1, 4, 5}
         \<or> opcode = 0x67 \<and> f3 = 0
         \<or> opcode \<in> {0x6F, 0x37, 0x17})"

text \<open>The address of a load or store, and how Spike logs the access.\<close>

definition rv_address :: "u32w \<Rightarrow> u32w \<Rightarrow> u32w option" where
  "rv_address i a =
     (if i_opcode i = 0x03 then Some (a + imm_i i) else if i_opcode i = 0x23 then Some (a + imm_s i) else None)"

definition access_of :: "u32w option \<Rightarrow> effect \<Rightarrow> rv_access" where
  "access_of address e =
     (case e_store e of Some (x, v) \<Rightarrow> Stores x v
      | None \<Rightarrow> (case address of Some x \<Rightarrow> Loads x | None \<Rightarrow> Quiet))"

definition put_word32 :: "u32w \<Rightarrow> u32w \<Rightarrow> byte_memory \<Rightarrow> byte_memory" where
  "put_word32 a v m = put_half (a + 2) (ucast (drop_bit 16 v)) (put_half a (ucast v) m)"

definition memory_after :: "effect \<Rightarrow> byte_memory \<Rightarrow> byte_memory" where
  "memory_after e m = (case e_store e of Some (x, v) \<Rightarrow> put_word32 x v m | None \<Rightarrow> m)"

lemma f7_bit30: "i_funct7 i = 0 \<Longrightarrow> \<not> bit i 30" "i_funct7 i = 0x20 \<Longrightarrow> bit i 30"
  using funct7_bit [of i] by simp_all

text \<open>The effect of the specification of the core, one line per opcode.\<close>

lemma isa_effect_opcode:
  "i_opcode i = 0x33 \<Longrightarrow> isa_effect load i p a b = \<lparr>e_write = Some (i_rd i, isa_alu (f_funct3 i) (f_funct7 i = 0x20) (bit i 30) a b), e_store = None, e_next = p + 4\<rparr>"
  "i_opcode i = 0x13 \<Longrightarrow> isa_effect load i p a b = \<lparr>e_write = Some (i_rd i, isa_alu (f_funct3 i) False (bit i 30) a (imm_i i)), e_store = None, e_next = p + 4\<rparr>"
  "i_opcode i = 0x03 \<Longrightarrow> isa_effect load i p a b = \<lparr>e_write = Some (i_rd i, load (a + imm_i i)), e_store = None, e_next = p + 4\<rparr>"
  "i_opcode i = 0x23 \<Longrightarrow> isa_effect load i p a b = \<lparr>e_write = None, e_store = Some (a + imm_s i, b), e_next = p + 4\<rparr>"
  "i_opcode i = 0x63 \<Longrightarrow> isa_effect load i p a b = \<lparr>e_write = None, e_store = None, e_next = (if isa_branch (f_funct3 i) a b then p + imm_b i else p + 4)\<rparr>"
  "i_opcode i = 0x6F \<Longrightarrow> isa_effect load i p a b = \<lparr>e_write = Some (i_rd i, p + 4), e_store = None, e_next = p + imm_j i\<rparr>"
  "i_opcode i = 0x67 \<Longrightarrow> isa_effect load i p a b = \<lparr>e_write = Some (i_rd i, p + 4), e_store = None, e_next = (a + imm_i i) AND NOT 1\<rparr>"
  "i_opcode i = 0x37 \<Longrightarrow> isa_effect load i p a b = \<lparr>e_write = Some (i_rd i, imm_u i), e_store = None, e_next = p + 4\<rparr>"
  "i_opcode i = 0x17 \<Longrightarrow> isa_effect load i p a b = \<lparr>e_write = Some (i_rd i, p + imm_u i), e_store = None, e_next = p + 4\<rparr>"
  unfolding isa_effect_def Let_def opcode_iff rv_immediates by simp_all

text \<open>RV32I executes a legal instruction like the specification of the core.\<close>

lemma alu_r_rv:
  assumes "i_funct7 i = 0 \<or> i_funct7 i = 0x20 \<and> i_funct3 i \<in> {0, 5}"
  shows "isa_alu (f_funct3 i) (f_funct7 i = 0x20) (bit i 30) a b = rv_op (i_funct3 i) (i_funct7 i \<noteq> 0) a b"
  by (rule isa_alu_rv) (use assms f7_bit30 [of i] in \<open>auto simp: funct_iff\<close>)

lemma alu_i_rv:
  assumes "i_funct3 i = 5 \<longrightarrow> i_funct7 i \<in> {0, 0x20}"
  shows "isa_alu (f_funct3 i) False (bit i 30) a b = rv_op (i_funct3 i) (i_funct3 i = 5 \<and> i_funct7 i \<noteq> 0) a b"
  by (rule isa_alu_rv) (use assms f7_bit30 [of i] in \<open>auto simp: funct_iff\<close>)

lemma rv_execute_isa:
  fixes S :: rv and i :: u32w
  defines "a \<equiv> rv_reg S (i_rs1 i)" and "b \<equiv> rv_reg S (i_rs2 i)"
  assumes "core_legal i" and e: "e = isa_effect (word_of (rv_mem S)) i (rv_pc S) a b"
    and al: "\<And>x. rv_address i a = Some x \<Longrightarrow> aligned 2 x"
  shows "rv_execute i S = retire i (e_next e) (e_write e) (access_of (rv_address i a) e) (memory_after e (rv_mem S)) S"
proof -
  note access = access_of_def memory_after_def rv_address_def
  from assms(3) consider (op) "i_opcode i = 0x33" "i_funct7 i = 0 \<or> i_funct7 i = 0x20 \<and> i_funct3 i \<in> {0, 5}"
    | (imm) "i_opcode i = 0x13" "i_funct3 i = 1 \<longrightarrow> i_funct7 i = 0" "i_funct3 i = 5 \<longrightarrow> i_funct7 i \<in> {0, 0x20}"
    | (load) "i_opcode i = 0x03" "i_funct3 i = 2" | (store) "i_opcode i = 0x23" "i_funct3 i = 2"
    | (branch) "i_opcode i = 0x63" "i_funct3 i \<in> {0, 1, 4, 5}" | (jalr) "i_opcode i = 0x67" "i_funct3 i = 0"
    | (jal) "i_opcode i = 0x6F" | (lui) "i_opcode i = 0x37" | (auipc) "i_opcode i = 0x17"
    unfolding core_legal_def Let_def by blast
  then show ?thesis
  proof cases
    case op
    have "rv_execute i S = retire i (rv_pc S + 4) (Some (i_rd i, rv_op (i_funct3 i) (i_funct7 i \<noteq> 0) a b)) Quiet (rv_mem S) S"
      using op by (auto simp: rv_execute_def Let_def a_def b_def)
    then show ?thesis unfolding e isa_effect_opcode(1) [OF op(1)] by (simp add: access op(1) alu_r_rv [OF op(2)])
  next
    case imm
    have "rv_execute i S = retire i (rv_pc S + 4) (Some (i_rd i, rv_op (i_funct3 i) (i_funct3 i = 5 \<and> i_funct7 i \<noteq> 0) a (imm_i i))) Quiet (rv_mem S) S"
      using imm by (simp add: rv_execute_def Let_def a_def) blast
    then show ?thesis unfolding e isa_effect_opcode(2) [OF imm(1)] by (simp add: access imm(1) alu_i_rv [OF imm(3)])
  next
    case load
    then have "aligned 2 (a + imm_i i)" using al by (simp add: rv_address_def)
    then show ?thesis unfolding e isa_effect_opcode(3) [OF load(1)]
      using load by (simp add: access rv_execute_def rv_load_def Let_def a_def)
  next
    case store
    then have "aligned 2 (a + imm_s i)" using al by (simp add: rv_address_def)
    then show ?thesis unfolding e isa_effect_opcode(4) [OF store(1)]
      using store by (simp add: access rv_execute_def rv_store_def Let_def a_def b_def put_word32_def)
  next
    case branch
    then have "i_funct3 i \<notin> {2, 3}" by auto
    then show ?thesis unfolding e isa_effect_opcode(5) [OF branch(1)] isa_branch_rv [OF branch(2)]
      using branch(1) by (simp add: access rv_execute_def Let_def a_def b_def)
  next
    case jalr
    then show ?thesis unfolding e isa_effect_opcode(7) [OF jalr(1)] by (simp add: access rv_execute_def Let_def a_def)
  next
    case jal
    then show ?thesis unfolding e isa_effect_opcode(6) [OF jal] by (simp add: access rv_execute_def Let_def)
  next
    case lui
    then show ?thesis unfolding e isa_effect_opcode(8) [OF lui] by (simp add: access rv_execute_def Let_def)
  next
    case auipc
    then show ?thesis unfolding e isa_effect_opcode(9) [OF auipc] by (simp add: access rv_execute_def Let_def)
  qed
qed

section \<open>Words in a memory of bytes\<close>

lemma word_of_put: "word_of (put_word32 a v m) a = v"
proof -
  have "word_cat (word_cat (ucast (drop_bit 8 (ucast (drop_bit 16 v) :: 16 word)) :: 8 word) (ucast (ucast (drop_bit 16 v) :: 16 word) :: 8 word) :: 16 word)
      (word_cat (ucast (drop_bit 8 (ucast v :: 16 word)) :: 8 word) (ucast (ucast v :: 16 word) :: 8 word) :: 16 word) = v"
    by (rule bit_word_eqI) (auto simp: bit_simps bit_word_cat_iff)
  moreover have "a + 1 \<noteq> a" "a + 2 \<noteq> a" "a + 3 \<noteq> a" "a + 2 \<noteq> a + 1" "a + 3 \<noteq> a + 1" "a + 3 \<noteq> a + 2" "a + 2 + 1 = a + 3"
    by (simp_all add: add.assoc)
  ultimately show ?thesis
    by (simp add: word_of_def half_of_def put_word32_def put_half_def fun_upd_apply del: add_left_cancel add_right_cancel)
qed

lemma word_of_cong: "(\<And>x. x \<in> {0, 1, 2, 3} \<Longrightarrow> m (a + x) = m' (a' + x)) \<Longrightarrow> word_of m a = word_of m' a'"
proof -
  assume "\<And>x. x \<in> {0, 1, 2, 3} \<Longrightarrow> m (a + x) = m' (a' + x)"
  from this [of 0] this [of 1] this [of 2] this [of 3] show ?thesis
    by (simp add: word_of_def half_of_def add.assoc)
qed

lemma put_other: "b \<notin> {a, a + 1, a + 2, a + 3} \<Longrightarrow> put_word32 a v m b = m b"
  by (simp add: put_word32_def put_half_def add.assoc)

lemma word_pc_byte:
  assumes "i < 1024" "unat (x :: u32w) < 4"
  shows "unat (word_pc i + x) = 4 * i + unat x"
proof -
  have "word_pc i + x = word_of_nat (4 * i + unat x)" by (simp add: word_pc_def)
  moreover have "unat (word_of_nat (4 * i + unat x) :: u32w) = 4 * i + unat x" by (rule unat_nat32) (use assms in simp)
  ultimately show ?thesis by simp
qed

lemma word_bytes_apart:
  assumes "j < 1024" "k < 1024" "j \<noteq> k" "unat x < 4" "unat y < 4"
  shows "word_pc j + B + x \<noteq> word_pc k + B + y"
proof
  assume "word_pc j + B + x = word_pc k + B + y"
  then have "word_pc j + x = word_pc k + y" by (simp add: algebra_simps)
  then have "unat (word_pc j + x) = unat (word_pc k + y)" by simp
  then have "4 * j + unat x = 4 * k + unat y" unfolding word_pc_byte [OF assms(1,4)] word_pc_byte [OF assms(2,5)] .
  then show False using assms(3-5) by presburger
qed

lemma word_of_put_other:
  assumes "j < 1024" "k < 1024" "j \<noteq> k"
  shows "word_of (put_word32 (word_pc j + B) v m) (word_pc k + B) = word_of m (word_pc k + B)"
proof (rule word_of_cong)
  fix x :: u32w
  assume "x \<in> {0, 1, 2, 3}"
  then have x: "unat x < 4" by auto
  note apart = word_bytes_apart [OF assms(2,1) assms(3) [symmetric] x, where B = B]
  show "put_word32 (word_pc j + B) v m (word_pc k + B + x) = m (word_pc k + B + x)"
    using apart [of 0] apart [of 1] apart [of 2] apart [of 3] by (intro put_other) simp
qed

lemma aligned_word_pc: "aligned 2 (word_pc k)"
proof -
  have "word_pc k = push_bit 2 (word_of_nat k)" by (simp add: word_pc_def push_bit_eq_mult)
  then show ?thesis unfolding aligned_def by (auto intro!: bit_word_eqI simp: bit_simps)
qed

end
