(* ===== verification/Rtl_Loop.thy ===== *)
theory Rtl_Loop
  imports Rtl_Path
begin

text \<open>
  The loop buffer is transparent on replayable programs. While it records or replays the loop from
  word \<open>t\<close> to the backward branch at word \<open>b\<close> (\<open>tracks\<close>), ID and EX hold instructions of that loop
  only, so nothing but the branch itself trains the predictor and the fetch address walks through the
  loop; the buffer then holds the words at the offsets it is indexed with. Together with \<open>pipe_inv\<close>
  and \<open>path_inv\<close> this is an invariant of the core (\<open>core_inv\<close>), and it gives \<open>fetch_ok\<close>.
\<close>

definition in_loop :: "nat \<Rightarrow> nat \<Rightarrow> u32w \<Rightarrow> bool \<Rightarrow> bool" where
  "in_loop t b p taken \<longleftrightarrow> (\<exists>k. t \<le> k \<and> k \<le> b \<and> p = word_pc k \<and> (k = b \<longrightarrow> taken))"

definition pipe_in_loop :: "nat \<Rightarrow> nat \<Rightarrow> core \<Rightarrow> bool" where
  "pipe_in_loop t b c \<longleftrightarrow>
     (idex_valid (id_ex_r c) \<longrightarrow> in_loop t b (idex_pc (id_ex_r c)) (idex_pred_taken (id_ex_r c)))
     \<and> (ifid_valid (if_id_r c) \<longrightarrow> in_loop t b (ifid_pc (if_id_r c)) (ifid_pred_taken (if_id_r c)))"

definition buffered :: "rom \<Rightarrow> nat \<Rightarrow> nat \<Rightarrow> nat \<Rightarrow> loop_buffer \<Rightarrow> bool" where
  "buffered mem t b n l \<longleftrightarrow>
     loop_start_q l = word_pc t \<and> loop_end_q l = word_pc (Suc b) \<and> unat (write_ptr_q l) = n \<and> n \<le> 16
     \<and> (\<forall>j < n. buffer l (word_of_nat j) = rom_word mem (t + j))"

definition tracks :: "rom \<Rightarrow> nat \<Rightarrow> core \<Rightarrow> nat \<Rightarrow> nat \<Rightarrow> nat \<Rightarrow> bool" where
  "tracks mem e c t b n \<longleftrightarrow>
     b \<le> e \<and> t < b \<and> jumps_to mem b t \<and> buffered mem t b n (lb c) \<and> pipe_in_loop t b c
     \<and> predict_taken (bp c) (word_pc b)"

definition lb_inv :: "rom \<Rightarrow> nat \<Rightarrow> core \<Rightarrow> bool" where
  "lb_inv mem e c \<longleftrightarrow>
     (state_q (lb c) = STATE_RECORDING \<longrightarrow>
        (\<exists>t b n. tracks mem e c t b n \<and> t + n \<le> b \<and> pc_if c = word_pc (t + n)))
     \<and> (state_q (lb c) = STATE_LOOPING \<longrightarrow>
        (\<exists>t b n k. tracks mem e c t b n \<and> n = b - t + 1 \<and> t \<le> k \<and> k \<le> b \<and> pc_if c = word_pc k))"

lemma lb_inv_recording:
  "state_q (lb c) = STATE_RECORDING \<Longrightarrow> tracks mem e c t b n \<Longrightarrow> t + n \<le> b \<Longrightarrow> pc_if c = word_pc (t + n) \<Longrightarrow>
   lb_inv mem e c"
  unfolding lb_inv_def by (simp del: One_nat_def) blast

lemma lb_inv_looping:
  "state_q (lb c) = STATE_LOOPING \<Longrightarrow> tracks mem e c t b (b - t + 1) \<Longrightarrow> t \<le> k \<Longrightarrow> k \<le> b \<Longrightarrow> pc_if c = word_pc k \<Longrightarrow>
   lb_inv mem e c"
  unfolding lb_inv_def by (rule conjI) (simp, blast)

lemma unat_nat4: "n < 16 \<Longrightarrow> unat (word_of_nat n :: 4 word) = n"
  by (simp add: unsigned_of_nat take_bit_nat_eq_self)

lemma unat_ucast5: "unat (ucast (x :: 4 word) :: 5 word) = unat x"
  using unsigned_less [of x, where ?'a = nat] by (simp add: unsigned_ucast_eq take_bit_nat_eq_self)

lemma ucast4_nat: "unat (w :: 5 word) = n \<Longrightarrow> n < 16 \<Longrightarrow> (ucast w :: 4 word) = word_of_nat n"
  by (rule word_unat_eq_iff [THEN iffD2])
    (simp add: unsigned_ucast_eq unsigned_of_nat take_bit_nat_eq_self)

lemma buffer_read:
  assumes "replayable mem e" "b \<le> e" "state_q l = STATE_LOOPING" "buffered mem t b (b - t + 1) l" "t \<le> k" "k \<le> b"
  shows "instruction_out l (word_pc k) i = rom_word mem k"
proof -
  have n: "loop_start_q l = word_pc t" "loop_end_q l = word_pc (Suc b)" "unat (write_ptr_q l) = b - t + 1" "b - t + 1 \<le> 16"
    "\<forall>j < b - t + 1. buffer l (word_of_nat j) = rom_word mem (t + j)"
    using assms(4) by (auto simp: buffered_def)
  have kt: "k - t < 16" "k - t < 2 ^ 30" using n(4) assms(5,6) by auto
  have idx: "read_idx l (word_pc k) = word_of_nat (k - t)"
  proof -
    have "(ucast (word_of_nat (k - t) :: u32w) :: 4 word) = word_of_nat (k - t)"
      by (rule bit_word_eqI) (auto simp: bit_simps)
    then show ?thesis using drop_word_pc [OF kt(2)] by (simp add: read_idx_def n(1) word_pc_diff assms(5))
  qed
  have "unat (ucast (word_of_nat (k - t) :: 4 word) :: 5 word) = k - t"
    using unat_nat4 [OF kt(1)] by (simp only: unat_ucast5)
  then have lt: "(ucast (read_idx l (word_pc k)) :: 5 word) < write_ptr_q l"
    using assms(5,6) by (simp add: idx word_less_nat_alt n(3))
  have "word_pc t \<le> word_pc k" "word_pc k < word_pc (Suc b)"
    using word_pc_near(3) [OF assms(1), of t k] word_pc_near(2) [OF assms(1), of k "Suc b"] assms(2,5,6) by auto
  with lt have "read_idx_valid l (word_pc k)" by (simp add: read_idx_valid_def loop_active_def assms(3) n)
  moreover have "k - t < b - t + 1" "t + (k - t) = k" using assms(5,6) by auto
  then have "buffer l (word_of_nat (k - t)) = rom_word mem k" using n(5) by metis
  ultimately show ?thesis unfolding instruction_out_def idx by simp
qed

lemma fetch_from_memory:
  assumes "state_q (lb c) \<noteq> STATE_LOOPING"
  shows "instr_if mem c = instruction_mem mem (pc_if c)" "instr_if_final mem c = instruction_mem mem (pc_if c)"
  using assms by (simp_all add: instr_if_final_def instr_if_def icache_addr_mux_def instruction_out_def
      read_idx_valid_def loop_active_def)

lemma lb_fetch_ok:
  assumes "replayable mem e" "lb_inv mem e c"
  shows "fetch_ok mem c"
proof (cases "state_q (lb c) = STATE_LOOPING")
  case True
  then obtain t b k where k: "tracks mem e c t b (b - t + 1)" "t \<le> k" "k \<le> b" "pc_if c = word_pc k"
    using assms(2) by (auto simp: lb_inv_def)
  then have "b \<le> e" "buffered mem t b (b - t + 1) (lb c)" by (auto simp: tracks_def)
  from buffer_read [OF assms(1) this(1) True this(2) k(2,3)] k(3,4) this(1)
  show ?thesis using instruction_mem_word [of k mem] replayable_bounds [OF assms(1), of k]
    by (simp add: fetch_ok_def instr_if_final_def)
qed (simp add: fetch_ok_def fetch_from_memory)

lemma loop_facts:
  assumes "replayable mem e" "b \<le> e" "t < b" "jumps_to mem b t"
  shows "straight_body mem t b" "k \<le> e \<Longrightarrow> \<not> jumps_to mem k (b - 1)" "k \<le> e \<Longrightarrow> \<not> jumps_to mem k b"
proof -
  have "b \<in> {0..e}" "t \<in> {0..<b}" using assms by auto
  then have "straight_body mem t b \<and> (\<forall>k \<in> {0..e}. \<not> jumps_to mem k (b - 1) \<and> \<not> jumps_to mem k b)"
    using assms(1,4) unfolding replayable_def by blast
  then show "straight_body mem t b" "k \<le> e \<Longrightarrow> \<not> jumps_to mem k (b - 1)" "k \<le> e \<Longrightarrow> \<not> jumps_to mem k b"
    by auto
qed

text \<open>In a tracked loop only its own branch trains the predictor, and without a flush it was taken.\<close>

lemma keep_prediction:
  assumes "replayable mem e" "pipe_inv mem c" "tracks mem e c t b n" "\<not> flush c"
  shows "predict_taken (bp (core_step mem outside c)) (word_pc b)"
proof (cases "is_control_flow_ex c")
  case True
  then have v: "idex_valid (id_ex_r c)" by (simp add: is_control_flow_ex_def)
  have t: "b \<le> e" "t < b" "jumps_to mem b t" "predict_taken (bp c) (word_pc b)"
    "in_loop t b (idex_pc (id_ex_r c)) (idex_pred_taken (id_ex_r c))"
    using assms(3) v by (auto simp: tracks_def pipe_in_loop_def)
  obtain k where k: "t \<le> k" "k \<le> b" "idex_pc (id_ex_r c) = word_pc k" "k = b \<longrightarrow> idex_pred_taken (id_ex_r c)"
    using t(5) by (auto simp: in_loop_def)
  have "control_flow (rom_word mem k)"
    using is_control_flow_in_EX [OF assms(2) v] True k(2,3) t(1) instruction_mem_word [of k mem]
      replayable_bounds [OF assms(1), of k] by simp
  then have "k = b" using loop_facts(1) [OF assms(1) t(1-3)] k(1,2) by (auto simp: straight_body_def)
  then have "actual_taken_ex c" using k(4) assms(4) True by (auto simp: flush_def)
  then show ?thesis
    using True t(4) sat_inc [of "bht (bp c) (pc_idx (word_pc b))"]
    by (auto simp: predict_taken_def bp_train_def k(3) \<open>k = b\<close> Let_def)
next
  case False
  then show ?thesis using assms(3) by (simp add: bp_train_def tracks_def)
qed

section \<open>Entering a loop\<close>

text \<open>
  When the branch at \<open>b\<close> is fetched and predicted backward, the two words before it are the only
  instructions that can be in ID and EX, so there is no stall and no training in that cycle.
\<close>

lemma before_branch:
  assumes "replayable mem e" "pipe_inv mem c" "path_inv mem e c" "\<not> flush c"
    and "b \<le> e" "t < b" "jumps_to mem b t" "pc_if c = word_pc b"
  shows "ifid_valid (if_id_r c) \<longrightarrow> ifid_pc (if_id_r c) = word_pc (b - 1)"
    "idex_valid (id_ex_r c) \<longrightarrow> idex_pc (id_ex_r c) = word_pc (b - 2)"
proof -
  note f = loop_facts [OF assms(1,5-7)]
  have b2: "t + 2 \<le> b" using f(1) by (simp add: straight_body_def)
  have step_back: "j = b' - 1"
    if "at_word mem e j p taken target" "j \<le> e" "word_pc b' = predicted_next taken target p"
      "b' \<le> e" "0 < b'" "\<And>k. k \<le> e \<Longrightarrow> \<not> jumps_to mem k b'" for j p taken target b'
  proof -
    have "\<not> taken"
      using that word_pc_near(1) [OF assms(1)] by (auto simp: at_word_def predicted_next_def)
    then have "word_pc b' = word_pc (Suc j)"
      using that(1,3) by (simp add: at_word_def predicted_next_def word_pc_Suc)
    then show ?thesis using word_pc_near(1) [OF assms(1), of b' "Suc j"] that(2,4) by simp
  qed
  have d: "ifid_pc (if_id_r c) = word_pc (b - 1)" if v: "ifid_valid (if_id_r c)"
  proof -
    obtain j where j: "j \<le> e" "at_word mem e j (ifid_pc (if_id_r c)) (ifid_pred_taken (if_id_r c)) (ifid_pred_target (if_id_r c))"
      using no_flush_ID [OF assms(1-4) v] by blast
    have "word_pc b = predicted_next (ifid_pred_taken (if_id_r c)) (ifid_pred_target (if_id_r c)) (ifid_pc (if_id_r c))"
      using assms(2,8) v by (simp add: pipe_inv_def if_id_ok_def)
    from step_back [OF j(2,1) this assms(5)] f(3) b2 j(2) show ?thesis by (auto simp: at_word_def)
  qed
  then show "ifid_valid (if_id_r c) \<longrightarrow> ifid_pc (if_id_r c) = word_pc (b - 1)" by simp
  show "idex_valid (id_ex_r c) \<longrightarrow> idex_pc (id_ex_r c) = word_pc (b - 2)"
  proof
    assume v: "idex_valid (id_ex_r c)"
    then have i: "ifid_valid (if_id_r c)"
      "ifid_pc (if_id_r c) = predicted_next (idex_pred_taken (id_ex_r c)) (idex_pred_target (id_ex_r c)) (idex_pc (id_ex_r c))"
      using assms(2) by (auto simp: pipe_inv_def id_ex_ok_def)
    obtain j where j: "j \<le> e" "at_word mem e j (idex_pc (id_ex_r c)) (idex_pred_taken (id_ex_r c)) (idex_pred_target (id_ex_r c))"
      using EX_word [OF assms(1,3) v] by metis
    have "j = (b - 1) - 1"
      by (rule step_back [OF j(2,1)]) (use i d [OF i(1)] assms(5) b2 f(2) in auto)
    then show "idex_pc (id_ex_r c) = word_pc (b - 2)" using j(2) by (simp add: at_word_def diff_diff_eq numeral_2_eq_2)
  qed
qed

lemma no_stall_at_branch:
  assumes "replayable mem e" "pipe_inv mem c" "path_inv mem e c" "\<not> flush c"
    and "b \<le> e" "t < b" "jumps_to mem b t" "pc_if c = word_pc b"
  shows "\<not> stall c"
proof
  assume s: "stall c"
  note v = stall_valid [OF assms(2) s]
  have i: "ifid_valid (if_id_r c)" using assms(2) v by (auto simp: pipe_inv_def id_ex_ok_def)
  have p: "idex_pc (id_ex_r c) = word_pc (b - 2)" "ifid_pc (if_id_r c) = word_pc (b - 1)"
    using before_branch [OF assms] v i by simp_all
  have w: "instruction_mem mem (word_pc (b - 2)) = rom_word mem (b - 2)"
    "instruction_mem mem (word_pc (b - 1)) = rom_word mem (b - 1)"
    using assms(5) replayable_bounds [OF assms(1)] by (simp_all add: instruction_mem_word)
  have "decoded (rom_word mem (b - 2)) (id_ex_r c)" "ifid_instr (if_id_r c) = rom_word mem (b - 1)"
    using assms(2) v i p w by (auto simp: pipe_inv_def id_ex_ok_def if_id_ok_def)
  then have "load_use (rom_word mem (b - 2)) (rom_word mem (b - 1))"
    using s by (auto simp: stall_def hazard_unit_def load_use_def decoded_def control_unit_def no_control_def
        split: if_splits)
  then show False using loop_facts(1) [OF assms(1,5-7)] by (simp add: straight_body_def)
qed

lemma next_if_id_valid:
  assumes "\<not> flush c" "\<not> stall c"
  shows "ifid_valid (if_id_r (core_step mem outside c))" "ifid_pc (if_id_r (core_step mem outside c)) = pc_if c"
    "ifid_pred_taken (if_id_r (core_step mem outside c)) = predict_taken_if c"
    "idex_valid (id_ex_r (core_step mem outside c)) = ifid_valid (if_id_r c)"
    "idex_pc (id_ex_r (core_step mem outside c)) = ifid_pc (if_id_r c)"
    "idex_pred_taken (id_ex_r (core_step mem outside c)) = ifid_pred_taken (if_id_r c)"
    "pc_if (core_step mem outside c) = predicted_next (predict_taken_if c) (predict_target_if c) (pc_if c)"
  using assms by (simp_all add: next_if_id_def next_id_ex_def next_pc_if_def pc_next_if_def predicted_next_def Let_def)

lemma start_recording:
  assumes "replayable mem e" "pipe_inv mem c" "path_inv mem e c" "pred_ok mem e (bp c)" "\<not> flush c"
    and "state_q (lb c) = STATE_IDLE"
    and "is_backward_prediction (predict_taken_if c) (predict_target_if c) (pc_if c)"
  shows "\<exists>t b. tracks mem e (core_step mem outside c) t b 0 \<and> pc_if (core_step mem outside c) = word_pc t"
proof -
  obtain b where b: "b \<le> e + 1" "pc_if c = word_pc b" using no_flush_IF [OF assms(1-3,5)] by metis
  have tk: "predict_taken_if c" "predict_target_if c < pc_if c"
    using assms(7) by (simp_all add: is_backward_prediction_def)
  obtain t where t: "b \<le> e" "t \<le> e" "jumps_to mem b t" "predict_target_if c = word_pc t"
    using predicted_word [OF assms(1,4), of b] tk(1) b
    by (auto simp: predict_taken_if_def predict_target_if_def at_word_def)
  have lt: "t < b" using tk(2) word_pc_near(2) [OF assms(1), of t b] b t by simp
  note pb = before_branch [OF assms(1-3,5) t(1) lt t(3) b(2)]
  have ns: "\<not> stall c" by (rule no_stall_at_branch [OF assms(1-3,5) t(1) lt t(3) b(2)])
  have body: "straight_body mem t b" by (rule loop_facts(1) [OF assms(1) t(1) lt t(3)])
  have "\<not> is_control_flow_ex c"
  proof
    assume cf: "is_control_flow_ex c"
    then have v: "idex_valid (id_ex_r c)" by (simp add: is_control_flow_ex_def)
    then have "control_flow (rom_word mem (b - 2))"
      using is_control_flow_in_EX [OF assms(2) v] cf pb(2) instruction_mem_word [of "b - 2" mem]
        replayable_bounds [OF assms(1), of "b - 2"] t(1) by simp
    moreover have "b - 2 \<in> {t ..< b}" using body by (auto simp: straight_body_def)
    ultimately show False using body unfolding straight_body_def by blast
  qed
  then have "predict_taken (bp (core_step mem outside c)) (word_pc b)"
    using tk(1) b(2) by (simp add: bp_train_def predict_taken_if_def)
  moreover have in_b: "in_loop t b (word_pc b) True"
    using lt by (auto simp: in_loop_def intro!: exI [of _ b])
  have in_b1: "in_loop t b (word_pc (b - 1)) taken" for taken
    using body by (auto simp: in_loop_def straight_body_def intro!: exI [of _ "b - 1"])
  have "pipe_in_loop t b (core_step mem outside c)"
    unfolding pipe_in_loop_def next_if_id_valid [OF assms(5) ns]
    using in_b in_b1 pb(1) tk(1) b(2) by auto
  moreover have "buffered mem t b 0 (lb (core_step mem outside c))"
    using assms(5-7) by (simp add: buffered_def lb_step_def lb_next_def b(2) t(4) word_pc_Suc)
  ultimately show ?thesis
    using t lt next_if_id_valid(7) [OF assms(5) ns, of mem outside] tk(1)
    by (intro exI [of _ t] exI [of _ b]) (simp add: tracks_def predicted_next_def)
qed

section \<open>Recording and looping\<close>

lemma stall_step_lb:
  assumes "pipe_inv mem c" "tracks mem e c t b n" "\<not> flush c" "stall c"
  shows "\<not> is_control_flow_ex c" "pipe_in_loop t b (core_step mem outside c)"
    "pc_if (core_step mem outside c) = pc_if c"
proof -
  have "mem_read (idex_ctl (id_ex_r c))" "idex_valid (id_ex_r c)"
    using assms(4) stall_valid [OF assms(1,4)] by (auto simp: stall_def hazard_unit_def)
  then show "\<not> is_control_flow_ex c"
    using assms(1) load_ctl(2) by (auto simp: is_control_flow_ex_def pipe_inv_def id_ex_ok_def decoded_def)
  show "pipe_in_loop t b (core_step mem outside c)" "pc_if (core_step mem outside c) = pc_if c"
    using assms(2-4) by (auto simp: tracks_def pipe_in_loop_def next_id_ex_def next_if_id_def id_ex_0_def next_pc_if_def)
qed

text \<open>The next fetch address inside a tracked loop.\<close>

lemma loop_fetch:
  assumes "replayable mem e" "pred_ok mem e (bp c)" "tracks mem e c t b n" "pc_if c = word_pc k" "t \<le> k" "k \<le> b"
    and "\<not> flush c" "\<not> stall c"
  shows "pc_if (core_step mem outside c) = word_pc (if k = b then t else Suc k)"
    "pipe_in_loop t b (core_step mem outside c)"
proof -
  have t: "b \<le> e" "t < b" "jumps_to mem b t" "pipe_in_loop t b c" "predict_taken (bp c) (word_pc b)"
    using assms(3) by (auto simp: tracks_def)
  have at: "predict_taken_if c \<Longrightarrow> at_word mem e k (word_pc k) True (predict_target_if c)"
    using predicted_word [OF assms(1,2), of k] assms(4,6) t(1) by (auto simp: predict_taken_if_def predict_target_if_def)
  have taken: "predict_taken_if c = (k = b)"
  proof (cases "k = b")
    case True
    then show ?thesis using t(5) assms(4) by (simp add: predict_taken_if_def)
  next
    case False
    then have "\<not> control_flow (rom_word mem k)"
      using loop_facts(1) [OF assms(1) t(1-3)] assms(5,6) by (auto simp: straight_body_def)
    then show ?thesis using False at by (auto simp: at_word_def jumps_to_def)
  qed
  have target: "predict_target_if c = word_pc t" if "k = b"
  proof -
    obtain t' where "jumps_to mem b t'" "predict_target_if c = word_pc t'"
      using at taken \<open>k = b\<close> by (auto simp: at_word_def)
    with t(3) show ?thesis by (simp add: jumps_to_def)
  qed
  show "pc_if (core_step mem outside c) = word_pc (if k = b then t else Suc k)"
    using next_if_id_valid(7) [OF assms(7,8), of mem outside] taken target assms(4)
    by (simp add: predicted_next_def word_pc_Suc)
  show "pipe_in_loop t b (core_step mem outside c)"
    unfolding pipe_in_loop_def next_if_id_valid [OF assms(7,8)]
    using t(4) assms(4-6) taken by (auto simp: pipe_in_loop_def in_loop_def)
qed

lemma tracks_step:
  assumes "replayable mem e" "pipe_inv mem c" "tracks mem e c t b n" "\<not> flush c"
    and "pipe_in_loop t b (core_step mem outside c)" "buffered mem t b m (lb (core_step mem outside c))"
  shows "tracks mem e (core_step mem outside c) t b m"
  using assms keep_prediction [OF assms(1-4)] by (auto simp: tracks_def)

lemma recording_step:
  assumes "replayable mem e" "pipe_inv mem c" "pred_ok mem e (bp c)" "\<not> flush c"
    and "state_q (lb c) = STATE_RECORDING" "tracks mem e c t b n" "t + n \<le> b" "pc_if c = word_pc (t + n)"
  shows "lb_inv mem e (core_step mem outside c)"
proof -
  let ?c = "core_step mem outside c"
  have b: "loop_start_q (lb c) = word_pc t" "loop_end_q (lb c) = word_pc (Suc b)" "unat (write_ptr_q (lb c)) = n" "n \<le> 16"
    "\<forall>j < n. buffer (lb c) (word_of_nat j) = rom_word mem (t + j)" "b \<le> e"
    using assms(6) by (auto simp: tracks_def buffered_def)
  consider "stall c" | "\<not> stall c" "n = 16" | "\<not> stall c" "n < 16" using b(4) by linarith
  then show ?thesis
  proof cases
    case 1
    note s = stall_step_lb(1) [OF assms(2,6,4) 1] stall_step_lb(2,3) [OF assms(2,6,4) 1, where outside = outside]
    have "lb ?c = lb c" using assms(4,5) 1 by (simp add: lb_step_def lb_next_def lb_capture_def)
    moreover have "buffered mem t b n (lb c)" using assms(6) by (simp add: tracks_def)
    ultimately show ?thesis
      using tracks_step [OF assms(1,2,6,4) s(2)] assms(5,7,8) s(3) by (auto simp: lb_inv_def)
  next
    case 2
    then have "state_q (lb ?c) = STATE_INVALID"
      using assms(4,5) b(3) by (simp add: lb_step_def lb_next_def word_le_nat_alt)
    then show ?thesis by (simp add: lb_inv_def)
  next
    case 3
    have w: "\<not> BUFFER_DEPTH \<le> write_ptr_q (lb c)" "write_ptr_q (lb c) < BUFFER_DEPTH"
      using b(3) 3(2) by (simp_all add: word_le_nat_alt word_less_nat_alt)
    have inc: "unat (write_ptr_q (lb c) + 1) = Suc n"
      using b(3) 3(2) by (simp add: unat_word_ariths take_bit_nat_eq_self unsigned_less)
    have i: "instr_if mem c = rom_word mem (t + n)"
      using fetch_from_memory(1) [of c mem] assms(5,7,8) instruction_mem_word [of "t + n" mem]
        replayable_bounds [OF assms(1), of "t + n"] b(6) by simp
    have last: "(pc_if c = loop_end_q (lb c) - 4) = (t + n = b)"
      using word_pc_near(1) [OF assms(1), of "t + n" b] assms(7,8) b(2,6) by (simp add: word_pc_pred)
    have l: "lb ?c = (lb c)\<lparr>write_ptr_q := write_ptr_q (lb c) + 1,
        state_q := (if t + n = b then STATE_LOOPING else STATE_RECORDING),
        buffer := (buffer (lb c))(word_of_nat n := rom_word mem (t + n))\<rparr>"
      using assms(4,5) 3(1) w last i ucast4_nat [OF b(3) 3(2)]
      by (simp add: lb_step_def lb_next_def lb_capture_def)
    have "(word_of_nat j :: 4 word) \<noteq> word_of_nat n" if "j < n" for j
      using that unat_nat4 [of j] unat_nat4 [OF 3(2)] 3(2) by auto
    then have "buffered mem t b (Suc n) (lb ?c)"
      unfolding l using b(1-5) inc 3(2) by (auto simp: buffered_def less_Suc_eq)
    note lf = loop_fetch [OF assms(1,3,6,8) le_add1 assms(7) assms(4) 3(1), of outside]
    have tr: "tracks mem e ?c t b (Suc n)"
      by (rule tracks_step [OF assms(1,2,6,4) lf(2)]) fact
    have s: "state_q (lb ?c) = (if t + n = b then STATE_LOOPING else STATE_RECORDING)" unfolding l by simp
    show ?thesis
    proof (cases "t + n = b")
      case True
      then have "Suc n = b - t + 1" by auto
      with True show ?thesis using tr s lf(1) by (intro lb_inv_looping [where t = t and b = b and k = t]) simp_all
    next
      case False
      then show ?thesis using tr s lf(1) assms(7)
        by (intro lb_inv_recording [where t = t and b = b and n = "Suc n"]) simp_all
    qed
  qed
qed

lemma looping_step:
  assumes "replayable mem e" "pipe_inv mem c" "pred_ok mem e (bp c)" "\<not> flush c"
    and "state_q (lb c) = STATE_LOOPING" "tracks mem e c t b (b - t + 1)" "t \<le> k" "k \<le> b" "pc_if c = word_pc k"
  shows "lb_inv mem e (core_step mem outside c)"
proof -
  let ?c = "core_step mem outside c"
  have b: "loop_start_q (lb c) = word_pc t" "loop_end_q (lb c) = word_pc (Suc b)" "b \<le> e" "t < b"
    "buffered mem t b (b - t + 1) (lb c)"
    using assms(6) by (auto simp: tracks_def buffered_def)
  have "\<not> pc_if c < loop_start_q (lb c)" "\<not> loop_end_q (lb c) \<le> pc_if c"
    using word_pc_near(2) [OF assms(1), of k t] word_pc_near(3) [OF assms(1), of "Suc b" k] b(3,4) assms(7,8)
    by (simp_all add: b(1,2) assms(9))
  then have l: "lb ?c = lb c" using assms(4,5) by (simp add: lb_step_def lb_next_def lb_capture_def)
  have "\<exists>j. t \<le> j \<and> j \<le> b \<and> pc_if ?c = word_pc j \<and> pipe_in_loop t b ?c"
  proof (cases "stall c")
    case True
    from stall_step_lb(2,3) [OF assms(2,6,4) True, where outside = outside] assms(7-9) show ?thesis by auto
  next
    case False
    from loop_fetch [OF assms(1,3,6,9,7,8,4) False, of outside] show ?thesis
      using assms(7,8) b(4) by (intro exI [of _ "if k = b then t else Suc k"]) auto
  qed
  then obtain j where j: "t \<le> j" "j \<le> b" "pc_if ?c = word_pc j" "pipe_in_loop t b ?c" by blast
  have "tracks mem e ?c t b (b - t + 1)"
    by (rule tracks_step [OF assms(1,2,6,4) j(4)]) (use b(5) l in simp)
  moreover have "state_q (lb ?c) = STATE_LOOPING" unfolding l by (rule assms(5))
  ultimately show ?thesis using j(1-3) by (intro lb_inv_looping)
qed

lemma lb_inv_step:
  assumes "replayable mem e" "pipe_inv mem c" "path_inv mem e c" "pred_ok mem e (bp c)" "lb_inv mem e c"
  shows "lb_inv mem e (core_step mem outside c)"
proof (cases "flush c")
  case True
  then have "state_q (lb (core_step mem outside c)) \<in> {STATE_IDLE, STATE_INVALID}"
    by (simp add: lb_step_def lb_next_def split: lb_state.splits)
  then show ?thesis by (auto simp: lb_inv_def)
next
  case nf: False
  show ?thesis
  proof (cases "state_q (lb c)")
    case STATE_IDLE
    show ?thesis
    proof (cases "is_backward_prediction (predict_taken_if c) (predict_target_if c) (pc_if c)")
      case True
      obtain t b where tb: "tracks mem e (core_step mem outside c) t b 0" "pc_if (core_step mem outside c) = word_pc t"
        using start_recording [OF assms(1-4) nf STATE_IDLE True] by blast
      moreover have "t + 0 \<le> b" using tb(1) by (simp add: tracks_def)
      moreover have "state_q (lb (core_step mem outside c)) = STATE_RECORDING"
        using STATE_IDLE True nf by (simp add: lb_step_def lb_next_def)
      ultimately show ?thesis using tb(2) by (intro lb_inv_recording [where t = t and n = 0]) simp_all
    next
      case False
      then have "state_q (lb (core_step mem outside c)) = STATE_IDLE"
        using STATE_IDLE by (simp add: lb_step_def lb_next_def)
      then show ?thesis by (simp add: lb_inv_def)
    qed
  next
    case STATE_RECORDING
    then obtain t b n where "tracks mem e c t b n" "t + n \<le> b" "pc_if c = word_pc (t + n)"
      using assms(5) by (auto simp: lb_inv_def)
    from recording_step [OF assms(1,2,4) nf STATE_RECORDING this] show ?thesis .
  next
    case STATE_LOOPING
    then obtain t b k where "tracks mem e c t b (b - t + 1)" "t \<le> k" "k \<le> b" "pc_if c = word_pc k"
      using assms(5) by (auto simp: lb_inv_def)
    from looping_step [OF assms(1,2,4) nf STATE_LOOPING this] show ?thesis .
  next
    case STATE_INVALID
    then have "state_q (lb (core_step mem outside c)) = STATE_IDLE"
      by (simp add: lb_step_def lb_next_def)
    then show ?thesis by (simp add: lb_inv_def)
  qed
qed

section \<open>The whole invariant\<close>

definition core_inv :: "rom \<Rightarrow> nat \<Rightarrow> core \<Rightarrow> bool" where
  "core_inv mem e c \<longleftrightarrow>
     pipe_inv mem c \<and> path_inv mem e c \<and> pred_ok mem e (bp c) \<and> lb_inv mem e c"

lemma core_inv_step:
  assumes "replayable mem e" "core_inv mem e c"
  shows "core_inv mem e (core_step mem outside c)" "fetch_ok mem c"
proof -
  have i: "pipe_inv mem c" "path_inv mem e c" "pred_ok mem e (bp c)" "lb_inv mem e c"
    using assms(2) by (simp_all add: core_inv_def)
  show f: "fetch_ok mem c" by (rule lb_fetch_ok [OF assms(1) i(4)])
  have "path_inv mem e (core_step mem outside c)"
    using path_inv_flush [OF assms(1) i(1,2)] path_inv_stall [OF assms(1) i(1,2)]
      path_inv_advance [OF assms(1) i(1-3)] by blast
  then show "core_inv mem e (core_step mem outside c)"
    using pipe_inv_step [OF i(1) f] pred_ok_step [OF assms(1) i(1-3)] lb_inv_step [OF assms(1) i]
    by (simp add: core_inv_def del: core_step_simps)
qed

lemma core_inv_reset: "core_inv mem e (reset_core ram0 buf0)"
proof -
  have "word_pc 0 = 0" by (simp add: word_pc_def)
  then show ?thesis
    using pipe_inv_reset [of mem ram0 buf0]
    by (auto simp: core_inv_def path_inv_def pred_ok_def lb_inv_def reset_core_def bp_reset_def id_ex_0_def
        if_id_0_def intro!: exI [of _ 0])
qed

lemma core_inv_run:
  "replayable mem e \<Longrightarrow> core_inv mem e c \<Longrightarrow> core_inv mem e ((core_step mem outside ^^ n) c)"
  by (induction n arbitrary: c) (auto simp: funpow_swap1 intro: core_inv_step)

text \<open>From reset, every fetch of a replayable program delivers the word in memory.\<close>

lemma replayable_fetch_ok:
  assumes "replayable mem e"
  shows "throughout (core_step mem outside) (fetch_ok mem) n (reset_core ram0 buf0)"
  unfolding throughout_def
  using core_inv_step(2) [OF assms core_inv_run [OF assms core_inv_reset]] by blast

end
