(* ===== verification/Trace.thy ===== *)
theory Trace
  imports Py_Text
begin

text \<open>
  What both log parsers share: the canonical retirement record, number parsing, and
  \<open>truncate_at_self_loop\<close>, which \<open>spike_log_parser.py\<close> (lines 146-162) and \<open>sv_log_parser.py\<close>
  (lines 68-81) define with the same body. The specification: the trace is cut behind the first
  record of the first run of \<open>repeat_threshold\<close> equal PCs.
\<close>

text \<open>A record of either side; \<open>instr\<close> is \<open>None\<close> in the records of the SV parser, which have no such key.\<close>

record retirement =
  idx :: int
  pc :: int
  instr :: "int option"
  reg :: "(int \<times> int) option"
  mem :: "(int \<times> int) option"

text \<open>\<open>int(s)\<close> and \<open>int(s, 16)\<close> on the digit strings the patterns capture.\<close>

definition parse_int :: "string \<Rightarrow> int" where
  "parse_int s = int (parse_digits 10 s)"

definition parse_int16 :: "string \<Rightarrow> int" where
  "parse_int16 s = int (parse_digits 16 s)"

lemma parse_printed [simp]:
  "parse_int (dec i) = int i" "parse_int16 (hex_pad k i) = int i"
  by (simp_all add: parse_int_def parse_int16_def)

section \<open>Cutting the self loop\<close>

text \<open>The loop from index \<open>i\<close>; the result is the bound of the slice returned from inside the loop.\<close>

fun scan :: "int \<Rightarrow> retirement list \<Rightarrow> int \<Rightarrow> int \<Rightarrow> int \<Rightarrow> int option" where
  "scan repeat_threshold [] i run_pc run_len = None"
| "scan repeat_threshold (r # rs) i run_pc run_len =
     (if pc r = run_pc then
        (if run_len + 1 \<ge> repeat_threshold then Some (i - repeat_threshold + 2)
         else scan repeat_threshold rs (i + 1) run_pc (run_len + 1))
      else scan repeat_threshold rs (i + 1) (pc r) 1)"

definition truncate_at_self_loop :: "int \<Rightarrow> retirement list \<Rightarrow> retirement list" where
  "truncate_at_self_loop repeat_threshold records =
     (case records of
        [] \<Rightarrow> records
      | r # rs \<Rightarrow> (case scan repeat_threshold rs 1 (pc r) 1 of
                    Some j \<Rightarrow> take (nat j) records
                  | None \<Rightarrow> records))"

section \<open>Specification\<close>

text \<open>\<open>t\<close> equal PCs from position \<open>k\<close> on.\<close>

definition run_at :: "nat \<Rightarrow> retirement list \<Rightarrow> nat \<Rightarrow> bool" where
  "run_at t rs k \<longleftrightarrow> k + t \<le> length rs \<and> (\<forall>j < t. pc (rs ! (k + j)) = pc (rs ! k))"

definition same_pc :: "nat \<Rightarrow> retirement list \<Rightarrow> bool" where
  "same_pc t rs \<longleftrightarrow> t \<le> length rs \<and> (\<forall>r \<in> set (take t rs). pc r = pc (hd rs))"

fun cut_run :: "nat \<Rightarrow> retirement list \<Rightarrow> retirement list" where
  "cut_run t [] = []"
| "cut_run t (r # rs) = (if same_pc t (r # rs) then [r] else r # cut_run t rs)"

lemma cut_short: "length rs < t \<Longrightarrow> cut_run t rs = rs"
  by (induction rs) (auto simp: same_pc_def)

lemma same_pc_append: "length ys = t \<Longrightarrow> ys \<noteq> [] \<Longrightarrow> same_pc t (ys @ zs) \<longleftrightarrow> (\<forall>y \<in> set ys. pc y = pc (hd ys))"
  by (simp add: same_pc_def)

lemma cut_past:
  "length ys < t \<Longrightarrow> \<forall>y \<in> set ys. pc y = p \<Longrightarrow> pc r \<noteq> p \<Longrightarrow> cut_run t (ys @ r # rs) = ys @ cut_run t (r # rs)"
proof (induction ys)
  case (Cons y ys)
  have "r \<in> set (take t (y # ys @ r # rs))" using Cons.prems(1) by (cases t) (auto simp: take_Cons')
  with Cons.prems(2,3) have "\<not> same_pc t (y # ys @ r # rs)" by (auto simp: same_pc_def)
  with Cons show ?case by (simp del: cut_run.simps(2)) (subst cut_run.simps(2), simp)
qed simp

lemma scan_bound: "scan t rs i p m = Some j \<Longrightarrow> 1 \<le> m \<Longrightarrow> m < t \<Longrightarrow> i - m < j"
  by (induction t rs i p m rule: scan.induct) (auto split: if_splits)

lemma scan_cut:
  "int (length ys) = m \<Longrightarrow> ys \<noteq> [] \<Longrightarrow> m < int t \<Longrightarrow> \<forall>y \<in> set ys. pc y = p \<Longrightarrow>
   (case scan (int t) rs i p m of Some j \<Rightarrow> take (nat (j - (i - m))) (ys @ rs) | None \<Rightarrow> ys @ rs) = cut_run t (ys @ rs)"
proof (induction rs arbitrary: ys i p m)
  case Nil
  then show ?case by (simp add: cut_short)
next
  case (Cons r rs)
  show ?case
  proof (cases "pc r = p")
    case True
    show ?thesis
    proof (cases "m + 1 \<ge> int t")
      case m: True
      then have "int t = m + 1" using Cons.prems(3) by simp
      then have "same_pc t ((ys @ [r]) @ rs)"
        using Cons.prems True by (subst same_pc_append) auto
      then have "cut_run t (ys @ r # rs) = [hd ys]" using Cons.prems(2) by (cases ys) auto
      moreover have "take 1 (ys @ r # rs) = [hd ys]" using Cons.prems(2) by (cases ys) auto
      ultimately show ?thesis using True m \<open>int t = m + 1\<close> by simp
    next
      case False
      then show ?thesis
        using True Cons.prems Cons.IH [of "ys @ [r]" "m + 1" p "i + 1"]
        by (simp cong: option.case_cong)
    qed
  next
    case False
    have t: "Suc 0 < t" using Cons.prems(1-3) by (cases ys) auto
    have c: "cut_run t (ys @ r # rs) = ys @ cut_run t (r # rs)"
      using Cons.prems(1,3,4) False by (intro cut_past) auto
    note ih = Cons.IH [of "[r]" 1 "pc r" "i + 1", simplified, OF t]
    show ?thesis
    proof (cases "scan (int t) rs (i + 1) (pc r) 1")
      case None
      with ih c False show ?thesis by simp
    next
      case (Some j)
      have "i < j" using scan_bound [OF Some] t by simp
      then have "nat (j - (i - m)) = length ys + nat (j - i)" using Cons.prems(1) by auto
      with ih c False Some show ?thesis by simp
    qed
  qed
qed

lemma truncate_cut: "2 \<le> t \<Longrightarrow> truncate_at_self_loop (int t) rs = cut_run t rs"
proof (cases rs)
  case (Cons r rs')
  assume "2 \<le> t"
  with Cons scan_cut [of "[r]" 1 t "pc r" rs' 1] show ?thesis
    by (simp add: truncate_at_self_loop_def cong: option.case_cong)
qed (simp add: truncate_at_self_loop_def)

lemma run_at_Suc: "run_at t (r # rs) (Suc k) \<longleftrightarrow> run_at t rs k"
  by (simp add: run_at_def)

lemma run_at_0:
  assumes "2 \<le> t"
  shows "run_at t rs 0 \<longleftrightarrow> same_pc t rs"
proof (cases "t \<le> length rs")
  case True
  have "(\<forall>r \<in> set (take t rs). pc r = pc (hd rs)) \<longleftrightarrow> (\<forall>j < t. pc (rs ! j) = pc (hd rs))"
    using True by (auto simp: all_set_conv_all_nth)
  moreover have "hd rs = rs ! 0" using True assms by (intro hd_conv_nth) auto
  ultimately show ?thesis using True by (simp add: run_at_def same_pc_def)
qed (simp add: run_at_def same_pc_def)

lemma cut_first:
  assumes "2 \<le> t"
  shows "cut_run t rs = (if \<exists>k. run_at t rs k then take (Suc (LEAST k. run_at t rs k)) rs else rs)"
proof (induction rs)
  case Nil
  then show ?case by simp
next
  case (Cons r rs)
  show ?case
  proof (cases "run_at t (r # rs) 0")
    case True
    then have "(LEAST k. run_at t (r # rs) k) = 0" by simp
    with True run_at_0 [OF assms] show ?thesis by auto
  next
    case False
    then have ex: "(\<exists>k. run_at t (r # rs) k) \<longleftrightarrow> (\<exists>k. run_at t rs k)"
      by (metis run_at_Suc not0_implies_Suc)
    show ?thesis
    proof (cases "\<exists>k. run_at t rs k")
      case True
      then obtain k where "run_at t (r # rs) k" using ex by blast
      from Least_Suc [of "run_at t (r # rs)", OF this False]
      have "(LEAST k. run_at t (r # rs) k) = Suc (LEAST k. run_at t rs k)" by (simp add: run_at_Suc)
      with True ex Cons run_at_0 [OF assms] False show ?thesis by simp
    next
      case none: False
      with ex Cons run_at_0 [OF assms] False show ?thesis by simp
    qed
  qed
qed

lemma truncate_at_first_repeat:
  assumes "m + 3 \<le> length rs" "\<And>j. m \<le> j \<Longrightarrow> j < length rs \<Longrightarrow> pc (rs ! j) = pc (rs ! m)"
    and "\<And>j. j < m \<Longrightarrow> pc (rs ! Suc j) \<noteq> pc (rs ! j)"
  shows "truncate_at_self_loop 3 rs = take (Suc m) rs"
proof -
  have "pc (rs ! (m + j)) = pc (rs ! m)" if "j < 3" for j
    by (rule assms(2)) (use assms(1) that in simp_all)
  then have at: "run_at 3 rs m" using assms(1) by (simp add: run_at_def)
  have "m \<le> k" if "run_at 3 rs k" for k
  proof (rule ccontr)
    assume "\<not> m \<le> k"
    moreover have "pc (rs ! (k + 1)) = pc (rs ! k)" using that unfolding run_at_def by (elim conjE allE [of _ 1]) simp
    ultimately show False using assms(3) [of k] by simp
  qed
  with at have least: "(LEAST k. run_at 3 rs k) = m" by (rule Least_equality)
  have "\<exists>k. run_at 3 rs k" using at by blast
  then have "cut_run 3 rs = take (Suc m) rs" using cut_first [of 3 rs] least by simp
  then show ?thesis using truncate_cut [of 3 rs] by simp
qed

text \<open>C31: \<open>truncate_at_self_loop\<close> keeps a trace without a run of \<open>t\<close> equal PCs, and otherwise cuts it
  behind the first record of the first such run (the slice \<open>records[: i - repeat_threshold + 2]\<close>).\<close>

theorem truncate_first_run:
  assumes "2 \<le> t"
  shows "truncate_at_self_loop (int t) rs
    = (if \<exists>k. run_at t rs k then take (Suc (LEAST k. run_at t rs k)) rs else rs)"
  using truncate_cut [OF assms] cut_first [OF assms] by simp

definition pc_only :: "int \<Rightarrow> retirement" where
  "pc_only p = \<lparr>idx = 0, pc = p, instr = None, reg = None, mem = None\<rparr>"

lemma truncate_first_run_witness:
  "truncate_at_self_loop (int 3) (map pc_only [0, 4, 4, 8, 8, 8, 8])
    = (if \<exists>k. run_at 3 (map pc_only [0, 4, 4, 8, 8, 8, 8]) k
       then take (Suc (LEAST k. run_at 3 (map pc_only [0, 4, 4, 8, 8, 8, 8]) k)) (map pc_only [0, 4, 4, 8, 8, 8, 8])
       else map pc_only [0, 4, 4, 8, 8, 8, 8])
   \<and> truncate_at_self_loop 3 (map pc_only [0, 4, 4, 8, 8, 8, 8]) = map pc_only [0, 4, 4, 8]"
proof -
  have "truncate_at_self_loop 3 (map pc_only [0, 4, 4, 8, 8, 8, 8]) = map pc_only [0, 4, 4, 8]"
    by (simp add: truncate_at_self_loop_def pc_only_def)
  then show ?thesis using truncate_first_run [of 3 "map pc_only [0, 4, 4, 8, 8, 8, 8]"] by simp
qed

end
