(* ===== verification/Py_Regex.thy ===== *)
theory Py_Regex
  imports Py_Text
begin

text \<open>
  The fragment of Python's \<open>re\<close> the log parsers use: sequences of literal characters, greedy
  repetitions of a character class, capture groups and the end anchor, matched by backtracking
  exactly as \<open>re\<close> does (the longest repetition first). \<open>match_at\<close> matches at the start of a string,
  \<open>search\<close> at the first position that works. The lemmas evaluate a match on printed text.
\<close>

datatype cclass = Space | NonSpace | Digit | Hex | AnyChar

fun in_class :: "cclass \<Rightarrow> char \<Rightarrow> bool" where
  "in_class Space c = is_space c"
| "in_class NonSpace c = (\<not> is_space c)"
| "in_class Digit c = is_digit c"
| "in_class Hex c = is_hex c"
| "in_class AnyChar c = (c \<noteq> LF)"

text \<open>One item of a pattern: a character, \<open>k*\<close>, \<open>k+\<close>, an opening or closing parenthesis, \<open>$\<close>.\<close>

datatype item = Lit char | Star cclass | Plus cclass | Open | Close | AtEnd

text \<open>
  \<open>run items s groups current\<close>: match the items at the start of \<open>s\<close>; \<open>groups\<close> are the groups closed so
  far, \<open>current\<close> the text of the open group, if any. Groups do not nest in the patterns modelled.
\<close>

definition grow :: "char \<Rightarrow> string option \<Rightarrow> string option" where
  "grow c cur = map_option (\<lambda>g. g @ [c]) cur"

fun run :: "item list \<Rightarrow> string \<Rightarrow> string list \<Rightarrow> string option \<Rightarrow> string list option" where
  "run [] s gs cur = Some gs"
| "run (Lit c # r) s gs cur =
     (case s of x # xs \<Rightarrow> if x = c then run r xs gs (grow x cur) else None | [] \<Rightarrow> None)"
| "run (Plus k # r) s gs cur =
     (case s of x # xs \<Rightarrow> if in_class k x then run (Star k # r) xs gs (grow x cur) else None | [] \<Rightarrow> None)"
| "run (Star k # r) s gs cur =
     (case s of
        x # xs \<Rightarrow>
          if in_class k x then
            (case run (Star k # r) xs gs (grow x cur) of Some res \<Rightarrow> Some res | None \<Rightarrow> run r s gs cur)
          else run r s gs cur
      | [] \<Rightarrow> run r [] gs cur)"
| "run (Open # r) s gs cur = run r s gs (Some [])"
| "run (Close # r) s gs cur = (case cur of Some g \<Rightarrow> run r s (gs @ [g]) None | None \<Rightarrow> None)"
| "run (AtEnd # r) s gs cur = (if s = [] \<or> s = [LF] then run r s gs cur else None)"

definition match_at :: "item list \<Rightarrow> string \<Rightarrow> string list option" where
  "match_at p s = run p s [] None"

fun search :: "item list \<Rightarrow> string \<Rightarrow> string list option" where
  "search p s =
     (case match_at p s of
        Some gs \<Rightarrow> Some gs
      | None \<Rightarrow> (case s of [] \<Rightarrow> None | c # s' \<Rightarrow> search p s'))"

declare search.simps [simp del]

definition lits :: "string \<Rightarrow> item list" where
  "lits s = map Lit s"

section \<open>Evaluating matches\<close>

lemma lits_simps [simp]: "lits [] = []" "lits (c # s) = Lit c # lits s"
  by (simp_all add: lits_def)

lemma grow_simps [simp]: "grow c None = None" "grow c (Some g) = Some (g @ [c])"
  by (simp_all add: grow_def)

definition grow_all :: "string \<Rightarrow> string option \<Rightarrow> string option" where
  "grow_all s cur = map_option (\<lambda>g. g @ s) cur"

lemma grow_all_simps [simp]: "grow_all s None = None" "grow_all s (Some g) = Some (g @ s)"
  by (simp_all add: grow_all_def)

lemma grow_grow_all: "grow_all s (grow c cur) = grow_all (c # s) cur" "grow_all [] cur = cur"
  by (cases cur; simp)+

text \<open>What follows a repetition of \<open>k\<close>: \<open>stops k s\<close> ends it at \<open>s\<close>, and \<open>rejects k r\<close> says that no
  shorter repetition can succeed, since the items \<open>r\<close> behind it cannot start with a \<open>k\<close>.\<close>

definition stops :: "cclass \<Rightarrow> string \<Rightarrow> bool" where
  "stops k s \<longleftrightarrow> s = [] \<or> \<not> in_class k (hd s)"

definition rejects :: "cclass \<Rightarrow> item list \<Rightarrow> bool" where
  "rejects k r \<longleftrightarrow> (\<forall>x xs gs cur. in_class k x \<longrightarrow> run r (x # xs) gs cur = None)"

definition disjoint :: "cclass \<Rightarrow> cclass \<Rightarrow> bool" where
  "disjoint k l \<longleftrightarrow> (\<forall>c. in_class k c \<longrightarrow> \<not> in_class l c)"

lemma space_not_hex: "is_hex c \<Longrightarrow> \<not> is_space c" "is_digit c \<Longrightarrow> \<not> is_space c" "is_digit c \<Longrightarrow> is_hex c"
  by (auto simp: is_hex_def is_digit_def is_space_def Let_def)

lemma disjoint_classes [simp]:
  "disjoint Space Digit" "disjoint Space Hex" "disjoint Space NonSpace"
  "disjoint Digit Space" "disjoint Hex Space" "disjoint NonSpace Space"
  by (auto simp: disjoint_def dest: space_not_hex)

lemma rejects_intros [simp]:
  "\<not> in_class k c \<Longrightarrow> rejects k (Lit c # r)"
  "disjoint k l \<Longrightarrow> rejects k (Plus l # r)"
  "rejects k r \<Longrightarrow> rejects k (Open # r)"
  "rejects k r \<Longrightarrow> rejects k (Close # r)"
  by (auto simp: rejects_def disjoint_def split: option.splits)

lemma run_star_stop: "stops k s \<Longrightarrow> run (Star k # r) s gs cur = run r s gs cur"
  by (cases s) (simp_all add: stops_def)

lemma run_star_det:
  "\<forall>c \<in> set xs. in_class k c \<Longrightarrow> stops k s \<Longrightarrow> rejects k r \<Longrightarrow>
   run (Star k # r) (xs @ s) gs cur = run r s gs (grow_all xs cur)"
proof (induction xs arbitrary: cur)
  case Nil
  then show ?case by (simp add: run_star_stop grow_grow_all del: run.simps)
next
  case (Cons x xs)
  then have "run r (x # xs @ s) gs cur = None" by (simp add: rejects_def)
  with Cons show ?case by (simp add: grow_grow_all split: option.splits)
qed

lemma run_plus_det:
  "xs \<noteq> [] \<Longrightarrow> \<forall>c \<in> set xs. in_class k c \<Longrightarrow> stops k s \<Longrightarrow> rejects k r \<Longrightarrow>
   run (Plus k # r) (xs @ s) gs cur = run r s gs (grow_all xs cur)"
  by (cases xs) (simp_all add: run_star_det grow_grow_all del: run.simps(4))

lemma run_plus_stop: "stops k s \<Longrightarrow> run (Plus k # r) s gs cur = None"
  by (cases s) (simp_all add: stops_def)

text \<open>A match that succeeds with the longest repetition is the one found.\<close>

lemma run_star_max:
  "\<forall>c \<in> set xs. in_class k c \<Longrightarrow> stops k s \<Longrightarrow> run r s gs (grow_all xs cur) = Some res \<Longrightarrow>
   run (Star k # r) (xs @ s) gs cur = Some res"
proof (induction xs arbitrary: cur)
  case Nil
  then show ?case by (simp add: run_star_stop grow_grow_all del: run.simps)
next
  case (Cons x xs)
  then show ?case by (simp add: grow_grow_all)
qed

lemma run_plus_max:
  "xs \<noteq> [] \<Longrightarrow> \<forall>c \<in> set xs. in_class k c \<Longrightarrow> stops k s \<Longrightarrow> run r s gs (grow_all xs cur) = Some res \<Longrightarrow>
   run (Plus k # r) (xs @ s) gs cur = Some res"
  by (cases xs) (simp_all add: run_star_max grow_grow_all del: run.simps(4))

lemma stops_simps [simp]:
  "stops k []" "stops k (c # s) \<longleftrightarrow> \<not> in_class k c"
  by (simp_all add: stops_def)

lemma stops_append: "xs \<noteq> [] \<Longrightarrow> stops k (xs @ s) \<longleftrightarrow> \<not> in_class k (hd xs)"
  by (cases xs) simp_all

lemma run_lits [simp]:
  "run (lits w @ r) (w @ s) gs cur = run r s gs (grow_all w cur)"
proof (induction w arbitrary: cur)
  case Nil
  show ?case by (cases cur) simp_all
next
  case (Cons c w)
  then show ?case by (simp add: grow_grow_all)
qed

section \<open>Searching\<close>

fun contains :: "string \<Rightarrow> string \<Rightarrow> bool" where
  "contains w s = (startswith s w \<or> (case s of [] \<Rightarrow> False | c # s' \<Rightarrow> contains w s'))"

declare contains.simps [simp del]

lemma run_lits_startswith: "run (lits w @ r) s gs cur \<noteq> None \<Longrightarrow> startswith s w"
proof (induction w arbitrary: s cur)
  case Nil
  show ?case by (cases s) simp_all
next
  case (Cons c w)
  then show ?case by (cases s) (auto split: if_splits)
qed

lemma run_lits_none: "\<not> startswith s w \<Longrightarrow> run (lits w @ r) s gs cur = None"
  using run_lits_startswith by blast

lemma search_none: "\<not> contains w s \<Longrightarrow> search (lits w @ r) s = None"
proof (induction s)
  case Nil
  then show ?case
    by (simp add: search.simps [of _ "[]"] match_at_def contains.simps [of _ "[]"] run_lits_none)
next
  case (Cons c s)
  then show ?case
    by (simp add: search.simps [of _ "c # s"] match_at_def contains.simps [of _ "c # s"] run_lits_none)
qed

lemma search_first:
  "\<not> contains w s \<Longrightarrow> search (lits w @ r) (c # s) = run (lits w @ r) (c # s) [] None"
  using search_none [of w s r]
  by (simp add: search.simps [of _ "c # s"] match_at_def split: option.splits)

lemma contains_char: "contains w s \<Longrightarrow> set w \<subseteq> set s"
proof (induction s)
  case Nil
  then show ?case by (cases w) (simp_all add: contains.simps)
next
  case (Cons c s)
  have "startswith t w \<Longrightarrow> set w \<subseteq> set t" for t
    by (induction t w rule: startswith.induct) auto
  from this [of "c # s"] Cons show ?case by (auto simp: contains.simps [of w "c # s"])
qed

end
