(* ===== verification/Sv_Log.thy ===== *)
theory Sv_Log
  imports Trace Py_Regex "HOL-Library.Mapping" "HOL-Library.AList_Mapping"
begin

text \<open>
  \<open>shared/spike/sv_log_parser.py\<close>: the parser of \<open>commit_log.txt\<close>, and the logger of
  \<open>rtl/tb_commit_log.sv\<close> (lines 79-92) that writes the file, with the theorem that the parser recovers
  exactly what the pipeline has retired.
\<close>

section \<open>The parser\<close>

text \<open>The patterns \<open>PC_RE\<close>, \<open>REG_RE\<close> and \<open>MEM_RE\<close>; \<open>^\<close> adds nothing to \<open>match\<close>.\<close>

definition number_items :: "cclass \<Rightarrow> item list" where
  "number_items k = [Plus Space, Open, Plus k, Close]"

definition PC_RE :: "item list" where
  "PC_RE = lits ''PC'' @ number_items Digit @ number_items Hex @ [AtEnd]"

definition REG_RE :: "item list" where
  "REG_RE = lits ''REG'' @ number_items Digit @ number_items Digit @ number_items Hex @ [AtEnd]"

definition MEM_RE :: "item list" where
  "MEM_RE = lits ''MEM'' @ number_items Digit @ number_items Hex @ number_items Hex @ [AtEnd]"

record sv_state =
  pc_by_idx :: "(int, int) mapping"
  reg_by_idx :: "(int, int \<times> int) mapping"
  mem_by_idx :: "(int, int \<times> int) mapping"
  unrecognized :: "(nat \<times> string) list"

definition sv_start :: sv_state where
  "sv_start = \<lparr>pc_by_idx = Mapping.empty, reg_by_idx = Mapping.empty, mem_by_idx = Mapping.empty,
     unrecognized = []\<rparr>"

text \<open>The body of the loop over the lines.\<close>

definition sv_line :: "nat \<times> string \<Rightarrow> sv_state \<Rightarrow> sv_state" where
  "sv_line nl s =
     (let line_no = fst nl; line = strip (snd nl)
      in if line = [] then s
         else case match_at PC_RE line of
           Some m \<Rightarrow>
             s\<lparr>pc_by_idx := Mapping.update (parse_int (m ! 0)) (parse_int16 (m ! 1)) (pc_by_idx s)\<rparr>
         | None \<Rightarrow>
           (case match_at REG_RE line of
              Some m \<Rightarrow>
                s\<lparr>reg_by_idx := Mapping.update (parse_int (m ! 0))
                    (parse_int (m ! 1), parse_int16 (m ! 2) AND 0xFFFFFFFF) (reg_by_idx s)\<rparr>
            | None \<Rightarrow>
              (case match_at MEM_RE line of
                 Some m \<Rightarrow>
                   s\<lparr>mem_by_idx := Mapping.update (parse_int (m ! 0))
                       (parse_int16 (m ! 1), parse_int16 (m ! 2) AND 0xFFFFFFFF) (mem_by_idx s)\<rparr>
               | None \<Rightarrow> s\<lparr>unrecognized := unrecognized s @ [(line_no, line)]\<rparr>)))"

definition sv_records :: "sv_state \<Rightarrow> retirement list" where
  "sv_records s =
     map (\<lambda>i. \<lparr>idx = i, pc = Mapping.lookup_default 0 (pc_by_idx s) i, instr = None,
               reg = Mapping.lookup (reg_by_idx s) i, mem = Mapping.lookup (mem_by_idx s) i\<rparr>)
       (Mapping.ordered_keys (pc_by_idx s))"

text \<open>\<open>parse_sv_log\<close> on the text of the file.\<close>

definition parse_sv_log :: "string \<Rightarrow> retirement list \<times> (nat \<times> string) list" where
  "parse_sv_log file =
     (let s = fold sv_line (numbered (file_lines file)) sv_start in (sv_records s, unrecognized s))"

text \<open>What the script prints (lines 84-93).\<close>

definition sv_script :: "(string \<Rightarrow> string) \<Rightarrow> string list \<Rightarrow> nat \<times> (nat \<times> (nat \<times> string) list) \<times> nat" where
  "sv_script files argv =
     (let path = (if length argv > 1 then argv ! 1 else ''commit_log.txt'');
          (records, unrecognized) = parse_sv_log (files path);
          truncated = truncate_at_self_loop 3 records
      in (length records, (length unrecognized, take 5 unrecognized), length truncated))"

section \<open>The logger\<close>

text \<open>A line of the log: what \<open>$fdisplay\<close> prints, \<open>%h\<close> of a 32-bit value being eight hex digits.\<close>

datatype log_event =
    PcLine nat "32 word"
  | RegLine nat "5 word" "32 word"
  | MemLine nat "32 word" "32 word"

fun show_event :: "log_event \<Rightarrow> string" where
  "show_event (PcLine i p) = ''PC '' @ dec i @ '' '' @ hex_pad 8 (unat p)"
| "show_event (RegLine i rd v) = ''REG '' @ dec i @ '' '' @ dec (unat rd) @ '' '' @ hex_pad 8 (unat v)"
| "show_event (MemLine i a d) = ''MEM '' @ dec i @ '' '' @ hex_pad 8 (unat a) @ '' '' @ hex_pad 8 (unat d)"

text \<open>
  What the logger samples at a clock edge: the instruction in EX/MEM, if valid (with address and data
  if it stores), and the one in MEM/WB, if valid (its PC, and destination and value if it writes a
  register).
\<close>

record edge =
  ex_mem :: "(32 word \<times> 32 word) option option"
  mem_wb :: "(32 word \<times> (5 word \<times> 32 word) option) option"

definition mem_events :: "edge \<Rightarrow> nat \<Rightarrow> log_event list" where
  "mem_events e mem_commit_idx =
     (case ex_mem e of Some (Some (a, d)) \<Rightarrow> [MemLine mem_commit_idx a d] | _ \<Rightarrow> [])"

definition wb_events :: "edge \<Rightarrow> nat \<Rightarrow> log_event list" where
  "wb_events e wb_commit_idx =
     (case mem_wb e of
        None \<Rightarrow> []
      | Some (p, r) \<Rightarrow>
          PcLine wb_commit_idx p
          # (case r of Some (rd, v) \<Rightarrow> [RegLine wb_commit_idx rd v] | None \<Rightarrow> []))"

text \<open>The always block, over the clock edges of the logged part of the simulation.\<close>

fun log_edges :: "nat \<Rightarrow> nat \<Rightarrow> edge list \<Rightarrow> log_event list" where
  "log_edges mem_commit_idx wb_commit_idx [] = []"
| "log_edges mem_commit_idx wb_commit_idx (e # es) =
     mem_events e mem_commit_idx @ wb_events e wb_commit_idx
     @ log_edges (if ex_mem e \<noteq> None then mem_commit_idx + 1 else mem_commit_idx)
                 (if mem_wb e \<noteq> None then wb_commit_idx + 1 else wb_commit_idx) es"

definition commit_log :: "edge list \<Rightarrow> string" where
  "commit_log es = unlines (map show_event (log_edges 0 0 es))"

section \<open>A logged line is parsed as what it says\<close>

lemma stops_digits: "ds \<noteq> [] \<Longrightarrow> \<forall>c \<in> set ds. is_hex c \<Longrightarrow> stops Space (ds @ s)"
  by (cases ds) (auto simp: space_not_hex)

lemma space_blank [simp]: "is_space (CHR '' '')" "\<not> is_hex (CHR '' '')" "\<not> is_digit (CHR '' '')"
  by (simp_all add: is_space_def is_hex_def is_digit_def)

lemma run_number:
  assumes "ds \<noteq> []" "\<forall>c \<in> set ds. in_class k c" "k = Digit \<or> k = Hex" "stops k s" "rejects k r"
  shows "run (number_items k @ r) (CHR '' '' # ds @ s) gs None = run r s (gs @ [ds]) None"
proof -
  have hex: "\<forall>c \<in> set ds. is_hex c" using assms(2,3) space_not_hex(3) by auto
  have "run (Plus Space # Open # Plus k # Close # r) ([CHR '' ''] @ ds @ s) gs None
      = run (Open # Plus k # Close # r) (ds @ s) gs (grow_all [CHR '' ''] None)"
    by (rule run_plus_det) (use assms(1,3) hex stops_digits in auto)
  moreover have "run (Plus k # Close # r) (ds @ s) gs (Some []) = run (Close # r) s gs (grow_all ds (Some []))"
    by (rule run_plus_det) (use assms in auto)
  ultimately show ?thesis by (simp add: number_items_def)
qed

lemma rejects_number [simp]: "disjoint k Space \<Longrightarrow> rejects k (number_items l @ r)"
  by (simp add: number_items_def)

lemma rejects_end [simp]: "rejects Hex (AtEnd # r)"
  by (auto simp: rejects_def is_hex_def is_digit_def LF_def)

lemma run_head: "run (Lit c # r) (x # xs) gs None = (if x = c then run r xs gs None else None)"
  by simp

lemma match_lits:
  "match_at (lits w @ r) (w @ s) = run r s [] None"
  by (simp add: match_at_def)

lemma digit_classes: "\<forall>c \<in> set (dec n). in_class Digit c" "\<forall>c \<in> set (hex_pad k n). in_class Hex c"
  by (auto dest: dec_chars hex_chars)

lemma run_two:
  assumes "ds \<noteq> []" "\<forall>c \<in> set ds. in_class k c" "k = Digit \<or> k = Hex"
    and "es \<noteq> []" "\<forall>c \<in> set es. in_class Hex c"
  shows "run (number_items k @ number_items Hex @ [AtEnd]) (CHR '' '' # ds @ CHR '' '' # es) gs None = Some (gs @ [ds, es])"
proof -
  have "run (number_items k @ number_items Hex @ [AtEnd]) (CHR '' '' # ds @ CHR '' '' # es) gs None
      = run (number_items Hex @ [AtEnd]) (CHR '' '' # es @ []) (gs @ [ds]) None"
    using assms by (subst run_number) auto
  also have "\<dots> = Some (gs @ [ds, es])"
    using assms by (subst run_number) auto
  finally show ?thesis .
qed

lemma run_three:
  assumes "\<forall>c \<in> set ds. in_class Digit c" "ds \<noteq> []"
    and "\<forall>c \<in> set es. in_class k c" "es \<noteq> []" "k = Digit \<or> k = Hex"
    and "\<forall>c \<in> set fs. in_class Hex c" "fs \<noteq> []"
  shows "run (number_items Digit @ number_items k @ number_items Hex @ [AtEnd])
    (CHR '' '' # ds @ CHR '' '' # es @ CHR '' '' # fs) gs None = Some (gs @ [ds, es, fs])"
proof -
  have "run (number_items Digit @ number_items k @ number_items Hex @ [AtEnd])
      (CHR '' '' # ds @ CHR '' '' # es @ CHR '' '' # fs) gs None
    = run (number_items k @ number_items Hex @ [AtEnd]) (CHR '' '' # es @ CHR '' '' # fs) (gs @ [ds]) None"
    using assms by (subst run_number) auto
  also have "\<dots> = Some (gs @ [ds, es, fs])"
    using run_two [OF assms(4,3,5,7,6), of "gs @ [ds]"] by simp
  finally show ?thesis .
qed

text \<open>What each pattern finds in each kind of line.\<close>

lemma match_events:
  "match_at PC_RE (show_event (PcLine i p)) = Some [dec i, hex_pad 8 (unat p)]"
  "match_at PC_RE (show_event (RegLine i rd v)) = None"
  "match_at PC_RE (show_event (MemLine i a d)) = None"
  "match_at REG_RE (show_event (RegLine i rd v)) = Some [dec i, dec (unat rd), hex_pad 8 (unat v)]"
  "match_at REG_RE (show_event (MemLine i a d)) = None"
  "match_at MEM_RE (show_event (MemLine i a d)) = Some [dec i, hex_pad 8 (unat a), hex_pad 8 (unat d)]"
proof -
  show "match_at PC_RE (show_event (PcLine i p)) = Some [dec i, hex_pad 8 (unat p)]"
    using run_two [OF printed_nonempty(2) digit_classes(1) _ printed_nonempty(3) digit_classes(2), of i 8 "unat p" "[]"]
    by (simp add: PC_RE_def match_at_def)
  show "match_at REG_RE (show_event (RegLine i rd v)) = Some [dec i, dec (unat rd), hex_pad 8 (unat v)]"
    using run_three [OF digit_classes(1) printed_nonempty(2) digit_classes(1) printed_nonempty(2) _
        digit_classes(2) printed_nonempty(3), of i "unat rd" 8 "unat v" "[]"]
    by (simp add: REG_RE_def match_at_def)
  show "match_at MEM_RE (show_event (MemLine i a d)) = Some [dec i, hex_pad 8 (unat a), hex_pad 8 (unat d)]"
    using run_three [OF digit_classes(1) printed_nonempty(2) digit_classes(2) printed_nonempty(3) _
        digit_classes(2) printed_nonempty(3), of i 8 "unat a" 8 "unat d" "[]"]
    by (simp add: MEM_RE_def match_at_def)
qed (simp_all add: PC_RE_def REG_RE_def match_at_def)

section \<open>The whole log\<close>

fun apply_event :: "log_event \<Rightarrow> sv_state \<Rightarrow> sv_state" where
  "apply_event (PcLine i p) s = s\<lparr>pc_by_idx := Mapping.update (int i) (uint p) (pc_by_idx s)\<rparr>"
| "apply_event (RegLine i rd v) s =
     s\<lparr>reg_by_idx := Mapping.update (int i) (uint rd, uint v) (reg_by_idx s)\<rparr>"
| "apply_event (MemLine i a d) s =
     s\<lparr>mem_by_idx := Mapping.update (int i) (uint a, uint d) (mem_by_idx s)\<rparr>"

lemma mask_u32 [simp]: "uint (v :: 32 word) AND 0xFFFFFFFF = uint v"
  using take_bit_int_eq_self [of "uint v" 32] uint_lt2p [of v] by (simp add: and_mask_take)

lemma strip_line:
  assumes "s \<noteq> []" "\<not> is_space (hd s)" "\<not> is_space (last s)"
  shows "strip (s @ [LF]) = s"
proof -
  have "lstrip (s @ [LF]) = s @ [LF]" using assms(1,2) by (cases s) (simp_all add: lstrip_def)
  moreover have "is_space LF" by (simp add: is_space_def LF_def)
  moreover have "dropWhile is_space (rev s) = rev s" using assms(1,3) by (cases s rule: rev_cases) simp_all
  ultimately show ?thesis by (simp add: strip_def)
qed

lemma show_event_ends:
  "show_event e \<noteq> []" "\<not> is_space (hd (show_event e))" "\<not> is_space (last (show_event e))"
proof -
  have h: "last (hex_pad 8 n) \<in> set (hex_pad 8 n)" for n by simp
  then have l: "\<not> is_space (last (hex_pad 8 n))" for n
    using hex_chars(2) space_not_hex(1) by blast
  show "show_event e \<noteq> []" by (cases e) simp_all
  show "\<not> is_space (hd (show_event e))" by (cases e) (simp_all add: is_space_def)
  show "\<not> is_space (last (show_event e))" by (cases e) (simp_all add: l)
qed

lemma show_event_chars: "c \<in> set (show_event e) \<Longrightarrow> c \<noteq> LF \<and> c \<noteq> CR"
proof -
  have h: "is_hex c \<Longrightarrow> c \<noteq> LF \<and> c \<noteq> CR" by (auto simp: is_hex_def is_digit_def LF_def CR_def)
  assume "c \<in> set (show_event e)"
  then show ?thesis
    by (cases e) (auto simp: LF_def CR_def dest!: dec_chars hex_chars(2) space_not_hex(3) h)
qed

lemma sv_line_event: "sv_line (n, show_event e @ [LF]) s = apply_event e s"
  by (cases e)
    (simp_all add: sv_line_def strip_line show_event_ends match_events del: show_event.simps)

lemma fold_lines:
  "fold sv_line (zip ns (map (\<lambda>e. show_event e @ [LF]) es)) s = fold apply_event es s"
  if "length ns = length es"
  using that by (induction ns es arbitrary: s rule: list_induct2) (simp_all add: sv_line_event)

lemma parse_events:
  "parse_sv_log (unlines (map show_event es))
     = (sv_records (fold apply_event es sv_start), unrecognized (fold apply_event es sv_start))"
proof -
  have "file_lines (unlines (map show_event es)) = map (\<lambda>e. show_event e @ [LF]) es"
    using show_event_chars by (subst file_lines_unlines) auto
  moreover have "fold sv_line (zip [1 ..< length es + 1] (map (\<lambda>e. show_event e @ [LF]) es)) sv_start
      = fold apply_event es sv_start"
    by (rule fold_lines) (simp del: upt_Suc)
  ultimately show ?thesis by (simp add: parse_sv_log_def numbered_def Let_def del: upt_Suc)
qed

text \<open>The instructions seen in MEM/WB and in EX/MEM, in order.\<close>

definition retired :: "edge list \<Rightarrow> (32 word \<times> (5 word \<times> 32 word) option) list" where
  "retired es = List.map_filter mem_wb es"

definition accessed :: "edge list \<Rightarrow> (32 word \<times> 32 word) option list" where
  "accessed es = List.map_filter ex_mem es"

definition reg_of :: "(5 word \<times> 32 word) option \<Rightarrow> (int \<times> int) option" where
  "reg_of r = map_option (\<lambda>(rd, v). (uint rd, uint v)) r"

definition mem_of :: "(32 word \<times> 32 word) option \<Rightarrow> (int \<times> int) option" where
  "mem_of m = map_option (\<lambda>(a, d). (uint a, uint d)) m"

text \<open>The records the parser should return.\<close>

definition sv_expected :: "edge list \<Rightarrow> retirement list" where
  "sv_expected es =
     map (\<lambda>k. \<lparr>idx = int k, pc = uint (fst (retired es ! k)), instr = None,
               reg = reg_of (snd (retired es ! k)),
               mem = (if k < length (accessed es) then mem_of (accessed es ! k) else None)\<rparr>)
       [0 ..< length (retired es)]"

text \<open>Entry \<open>j\<close> of a list whose first element has the number \<open>b\<close>.\<close>

definition nth_from :: "nat \<Rightarrow> 'a list \<Rightarrow> int \<Rightarrow> 'a option" where
  "nth_from b xs j = (if int b \<le> j \<and> j < int b + int (length xs) then Some (xs ! nat (j - int b)) else None)"

lemma nth_from_Cons:
  "nth_from b (x # xs) j = (if j = int b then Some x else nth_from (Suc b) xs j)"
proof -
  have "nat (j - int b) = Suc (nat (j - int (Suc b)))" if "int b < j" using that by simp
  then show ?thesis by (auto simp: nth_from_def)
qed

lemma nth_from_Nil [simp]: "nth_from b [] j = None"
  by (simp add: nth_from_def)

lemma retired_simps [simp]: "retired [] = []" "accessed [] = []"
  "retired (e # es) = (case mem_wb e of Some w \<Rightarrow> w # retired es | None \<Rightarrow> retired es)"
  "accessed (e # es) = (case ex_mem e of Some m \<Rightarrow> m # accessed es | None \<Rightarrow> accessed es)"
  by (simp_all add: retired_def accessed_def List.map_filter_simps split: option.splits)

lemma nth_from_below [simp]: "nth_from (Suc b) xs (int b) = None"
  by (simp add: nth_from_def)

lemma fold_log_pc:
  "Mapping.lookup (pc_by_idx (fold apply_event (log_edges mi wi es) s)) j
     = (case nth_from wi (retired es) j of Some w \<Rightarrow> Some (uint (fst w)) | None \<Rightarrow> Mapping.lookup (pc_by_idx s) j)"
proof (induction es arbitrary: mi wi s)
  case (Cons e es)
  then show ?case
    by (auto simp: mem_events_def wb_events_def nth_from_Cons lookup_update' split: option.splits prod.splits)
qed simp

lemma fold_log_reg:
  "Mapping.lookup (reg_by_idx (fold apply_event (log_edges mi wi es) s)) j
     = (case nth_from wi (retired es) j of Some w \<Rightarrow>
          (case snd w of Some (rd, v) \<Rightarrow> Some (uint rd, uint v) | None \<Rightarrow> Mapping.lookup (reg_by_idx s) j)
        | None \<Rightarrow> Mapping.lookup (reg_by_idx s) j)"
proof (induction es arbitrary: mi wi s)
  case (Cons e es)
  then show ?case
    by (auto simp: mem_events_def wb_events_def nth_from_Cons lookup_update' split: option.splits prod.splits)
qed simp

lemma fold_log_mem:
  "Mapping.lookup (mem_by_idx (fold apply_event (log_edges mi wi es) s)) j
     = (case nth_from mi (accessed es) j of Some m \<Rightarrow>
          (case m of Some (a, d) \<Rightarrow> Some (uint a, uint d) | None \<Rightarrow> Mapping.lookup (mem_by_idx s) j)
        | None \<Rightarrow> Mapping.lookup (mem_by_idx s) j)"
proof (induction es arbitrary: mi wi s)
  case (Cons e es)
  then show ?case
    by (auto simp: mem_events_def wb_events_def nth_from_Cons lookup_update' split: option.splits prod.splits)
qed simp

lemma fold_unrecognized [simp]: "unrecognized (fold apply_event evs s) = unrecognized s"
proof (induction evs arbitrary: s)
  case (Cons e evs)
  then show ?case by (cases e) simp_all
qed simp

lemma sorted_ints: "sorted_list_of_set (int ` {0 ..< n}) = map int [0 ..< n]"
  by (rule sorted_distinct_set_unique) (simp_all add: sorted_map distinct_map inj_on_def)

lemma parse_commit_log: "parse_sv_log (commit_log es) = (sv_expected es, [])"
proof -
  let ?s = "fold apply_event (log_edges 0 0 es) sv_start"
  have l: "Mapping.lookup (pc_by_idx ?s) j = map_option (uint \<circ> fst) (nth_from 0 (retired es) j)" for j
    by (simp add: fold_log_pc sv_start_def lookup_empty split: option.splits)
  have lr: "Mapping.lookup (reg_by_idx ?s) j
      = (case nth_from 0 (retired es) j of Some w \<Rightarrow> reg_of (snd w) | None \<Rightarrow> None)" for j
    by (simp add: fold_log_reg sv_start_def lookup_empty reg_of_def split: option.splits)
  have lm: "Mapping.lookup (mem_by_idx ?s) j
      = (case nth_from 0 (accessed es) j of Some m \<Rightarrow> mem_of m | None \<Rightarrow> None)" for j
    by (simp add: fold_log_mem sv_start_def lookup_empty mem_of_def split: option.splits)
  have "Mapping.keys (pc_by_idx ?s) = int ` {0 ..< length (retired es)}"
    by (auto simp: Mapping.keys_dom_lookup dom_def l nth_from_def image_iff intro!: bexI [of _ "nat _"])
  then have k: "Mapping.ordered_keys (pc_by_idx ?s) = map int [0 ..< length (retired es)]"
    by (simp add: Mapping.ordered_keys_def sorted_ints)
  have "sv_records ?s = sv_expected es"
    unfolding sv_records_def k sv_expected_def map_map
    by (rule map_cong [OF refl])
      (simp add: l lr lm nth_from_def lookup_default_def)
  then show ?thesis by (simp add: commit_log_def parse_events) (simp add: sv_start_def)
qed

text \<open>C17: Reading back \<open>commit_log.txt\<close>: for every sequence of clock edges the parser returns one record per
  instruction that reached MEM/WB, in order, with its PC, its register write and the store with the
  same number seen in EX/MEM, and recognises every line.\<close>

theorem parse_sv_log_commit_log:
  "parse_sv_log (commit_log es) = (sv_expected es, [])"
  by (rule parse_commit_log)

end
