(* ===== verification/Rtl_Commit.thy ===== *)
theory Rtl_Commit
  imports Rtl_Loop Sv_Log
begin

text \<open>
  From the core to the commit log: what \<open>rtl/tb_commit_log.sv\<close> samples at the clock edges of a run,
  and the parsed records. An instruction leaving EX is seen in EX/MEM (its store) one cycle later and
  in MEM/WB (its address and register write) two cycles later, so the records are the trace of the
  one-instruction-at-a-time machine, cut at the number of instructions issued.
\<close>

section \<open>What the logger samples\<close>

definition core_edge :: "core \<Rightarrow> edge" where
  "core_edge c =
     (let m = ex_mem_r c; w = mem_wb_r c
      in \<lparr>ex_mem = (if exmem_valid m
            then Some (if exmem_mem_write m then Some (exmem_alu_result m, exmem_store_data m) else None) else None),
          mem_wb = (if memwb_valid w
            then Some (memwb_pc w, if memwb_reg_write w then Some (memwb_rd_addr w, wb_write_data c) else None)
            else None)\<rparr>)"

definition core_edges :: "nat \<Rightarrow> rom \<Rightarrow> (u32w \<Rightarrow> u32w) \<Rightarrow> core \<Rightarrow> edge list" where
  "core_edges n im outside c = samples (core_step im outside) core_edge n c"

text \<open>The instruction that leaves EX in a cycle.\<close>

definition issued :: "rom \<Rightarrow> (u32w \<Rightarrow> u32w) \<Rightarrow> core \<Rightarrow> event option" where
  "issued im outside c =
     (if idex_valid (id_ex_r c) then Some (isa_event im outside (arch_of outside c)) else None)"

definition issues :: "nat \<Rightarrow> rom \<Rightarrow> (u32w \<Rightarrow> u32w) \<Rightarrow> core \<Rightarrow> event list" where
  "issues n im outside c = events (core_step im outside) (issued im outside) n c"

lemma map_filter_samples: "List.map_filter g (samples step f n c) = events step (g \<circ> f) n c"
  by (induction n arbitrary: c) (auto simp: List.map_filter_simps split: option.splits)

lemma events_shift:
  "throughout step (\<lambda>d. g ((step ^^ k) d) = map_option h (f d)) n c \<Longrightarrow>
   events step g n ((step ^^ k) c) = map h (events step f n c)"
proof (induction n arbitrary: c)
  case (Suc n)
  then have "events step g n ((step ^^ k) (step c)) = map h (events step f n (step c))" by simp
  moreover have "step ((step ^^ k) c) = (step ^^ k) (step c)" by (simp add: funpow_swap1)
  ultimately show ?case using Suc.prems by (simp split: option.splits)
qed simp

lemma issued_EX_MEM:
  assumes "pipe_inv im c"
  shows "ex_mem (core_edge (core_step im outside c)) = map_option (snd \<circ> snd) (issued im outside c)"
  using effect_in_EX(2) [OF assms, of outside]
  by (simp add: core_edge_def issued_def isa_event_def Let_def)

lemma issued_MEM_WB:
  assumes "pipe_inv im c"
  shows "mem_wb (core_edge (core_step im outside (core_step im outside c)))
    = map_option (\<lambda>ev. (fst ev, fst (snd ev))) (issued im outside c)"
  using effect_in_EX(3) [OF assms, of outside] wb_value_step [OF ex_mem_step [OF assms, of outside], of im outside]
  by (simp add: core_edge_def issued_def isa_event_def Let_def arch_of_def next_pc_def)

lemma retired_samples:
  assumes "throughout (core_step im outside) (pipe_inv im) n c"
    and "\<not> memwb_valid (mem_wb_r c)" "\<not> exmem_valid (ex_mem_r c)"
  shows "retired (core_edges (n + 2) im outside c) = map (\<lambda>ev. (fst ev, fst (snd ev))) (issues n im outside c)"
proof -
  let ?s = "core_step im outside"
  have "throughout ?s (\<lambda>d. (mem_wb \<circ> core_edge) ((?s ^^ 2) d) = map_option (\<lambda>ev. (fst ev, fst (snd ev))) (issued im outside d)) n c"
    using assms(1) issued_MEM_WB by (auto simp: throughout_def numeral_2_eq_2 simp del: core_step_simps)
  note sh = events_shift [OF this]
  have "(mem_wb \<circ> core_edge) c = None" "(mem_wb \<circ> core_edge) (?s c) = None"
    using assms(2,3) by (simp_all add: core_edge_def Let_def)
  then have "events ?s (mem_wb \<circ> core_edge) (n + 2) c = events ?s (mem_wb \<circ> core_edge) n ((?s ^^ 2) c)"
    by (simp add: numeral_2_eq_2 comp_apply [of ?s] del: o_apply)
  with sh show ?thesis unfolding retired_def core_edges_def map_filter_samples issues_def by (simp only:)
qed

lemma accessed_samples:
  assumes "throughout (core_step im outside) (pipe_inv im) n c" "\<not> exmem_valid (ex_mem_r c)"
  shows "accessed (core_edges (n + 1) im outside c) = map (snd \<circ> snd) (issues n im outside c)"
proof -
  let ?s = "core_step im outside"
  have "throughout ?s (\<lambda>d. (ex_mem \<circ> core_edge) ((?s ^^ 1) d) = map_option (snd \<circ> snd) (issued im outside d)) n c"
    using assms(1) issued_EX_MEM by (auto simp: throughout_def simp del: core_step_simps)
  note sh = events_shift [OF this]
  have "(ex_mem \<circ> core_edge) c = None" using assms(2) by (simp add: core_edge_def Let_def)
  then have "events ?s (ex_mem \<circ> core_edge) (n + 1) c = events ?s (ex_mem \<circ> core_edge) n ((?s ^^ 1) c)"
    by (simp del: o_apply)
  with sh show ?thesis unfolding accessed_def core_edges_def map_filter_samples issues_def by (simp only:)
qed

lemma issues_trace:
  assumes "pipe_inv im c" "throughout (core_step im outside) (fetch_ok im) n c"
  shows "issues n im outside c = isa_trace (length (issues n im outside c)) im outside (arch_of outside c)"
  unfolding issues_def isa_trace_def issued_def
  using pipeline.events_trace [OF assms, of "isa_event im outside"] .

lemma issues_prefix: "\<exists>l. issues (n + 1) im outside c = issues n im outside c @ l"
  unfolding issues_def using pipeline.events_append [of im outside "issued im outside" n 1 c] by blast

lemma issues_progress:
  assumes "pipe_inv im c" "throughout (core_step im outside) (fetch_ok im) (m * 3) c"
  shows "m \<le> length (issues (m * 3) im outside c)"
  unfolding issues_def issued_def
  using pipeline.events_progress [OF assms, of "\<lambda>c. isa_event im outside (arch_of outside c)"] .

lemma issues_longer: "length (issues n im outside c) \<le> length (issues (n + d) im outside c)"
  unfolding issues_def using pipeline.events_append [of im outside "issued im outside" n d c] by simp

lemma arch_of_reset: "arch_of outside (reset_core ram0 buf0) = \<lparr>apc = 0, aregs = \<lambda>_. 0, adata = ram0\<rparr>"
  by (simp add: arch_of_def next_pc_def committed_regs_def committed_ram_def reset_core_def id_ex_0_def
      if_id_0_def ex_mem_0_def mem_wb_0_def exmem_writes_def wb_reg_write_def write_port_def data_mem_write_def)

section \<open>The commit log\<close>

definition event_record :: "nat \<Rightarrow> event \<Rightarrow> retirement" where
  "event_record i ev = \<lparr>idx = int i, pc = uint (fst ev), instr = None, reg = reg_of (fst (snd ev)),
     mem = mem_of (snd (snd ev))\<rparr>"

definition number_events :: "event list \<Rightarrow> retirement list" where
  "number_events evs = map (\<lambda>i. event_record i (evs ! i)) [0 ..< length evs]"

text \<open>The two stages the logger samples; EX/MEM may be ahead.\<close>

definition edges_show :: "edge list \<Rightarrow> event list \<Rightarrow> bool" where
  "edges_show es evs \<longleftrightarrow> retired es = map (\<lambda>ev. (fst ev, fst (snd ev))) evs
     \<and> (\<exists>more. accessed es = map (snd \<circ> snd) (evs @ more))"

lemma core_edges_show:
  assumes "throughout (core_step im outside) (fetch_ok im) (n + 1) (reset_core ram0 buf0)"
  shows "edges_show (core_edges (n + 2) im outside (reset_core ram0 buf0)) (issues n im outside (reset_core ram0 buf0))"
proof -
  let ?c = "reset_core ram0 buf0" and ?s = "core_step im outside"
  have th: "throughout ?s (pipe_inv im) (n + 1) ?c" by (rule pipeline.inv_throughout [OF pipe_inv_reset assms])
  then have th': "throughout ?s (pipe_inv im) n ?c" by (simp add: throughout_def)
  have c: "\<not> memwb_valid (mem_wb_r ?c)" "\<not> exmem_valid (ex_mem_r ?c)"
    by (simp_all add: reset_core_def mem_wb_0_def ex_mem_0_def)
  obtain l where "issues (n + 1) im outside ?c = issues n im outside ?c @ l" using issues_prefix by blast
  with accessed_samples [OF th c(2)] retired_samples [OF th' c] show ?thesis
    unfolding edges_show_def by (simp add: numeral_2_eq_2) blast
qed

lemma edges_show_records:
  assumes "edges_show es evs"
  shows "sv_expected es = number_events evs"
proof -
  obtain more where r: "retired es = map (\<lambda>ev. (fst ev, fst (snd ev))) evs"
    "accessed es = map (snd \<circ> snd) (evs @ more)"
    using assms by (auto simp: edges_show_def)
  show ?thesis
    unfolding sv_expected_def number_events_def r
    by (rule map_cong) (auto simp: event_record_def nth_append)
qed

section \<open>The run of the testbench\<close>

text \<open>
  The initial block waits for clock edges until \<open>MAX_RETIRE\<close> instructions have reached WB. It tests the
  counter before the assignments of the edge take effect, so the edge at which it sees the limit may
  or may not still be logged (\<open>late\<close>). The fuel is the number of clock edges until the hard timeout;
  reaching it is \<open>None\<close>.
\<close>

definition MAX_RETIRE :: nat where "MAX_RETIRE = 20000"

definition HARD_TIMEOUT :: nat where "HARD_TIMEOUT = 4000000 div 20 - 1"

fun tb_edges :: "nat \<Rightarrow> bool \<Rightarrow> rom \<Rightarrow> (u32w \<Rightarrow> u32w) \<Rightarrow> nat \<Rightarrow> core \<Rightarrow> edge list option" where
  "tb_edges 0 late im outside wb_commit_idx c = None"
| "tb_edges (Suc edges) late im outside wb_commit_idx c =
     (if wb_commit_idx < MAX_RETIRE
      then map_option (Cons (core_edge c))
        (tb_edges edges late im outside
           (if mem_wb (core_edge c) \<noteq> None then wb_commit_idx + 1 else wb_commit_idx) (core_step im outside c))
      else Some (if late then [core_edge c] else []))"

lemma core_edges_simps [simp]:
  "core_edges 0 im outside c = []"
  "core_edges (Suc n) im outside c = core_edge c # core_edges n im outside (core_step im outside c)"
  by (simp_all add: core_edges_def)

lemma tb_edges_samples:
  "tb_edges f late im outside k c = Some es \<Longrightarrow> k \<le> MAX_RETIRE \<Longrightarrow>
   \<exists>m. es = core_edges m im outside c \<and> MAX_RETIRE \<le> k + length (retired es)
     \<and> k + length (retired es) \<le> MAX_RETIRE + 1"
proof (induction f late im outside k c arbitrary: es rule: tb_edges.induct)
  case (2 edges late im outside k c)
  show ?case
  proof (cases "k < MAX_RETIRE")
    case True
    then obtain es' where es: "es = core_edge c # es'"
      "tb_edges edges late im outside (if mem_wb (core_edge c) \<noteq> None then k + 1 else k) (core_step im outside c) = Some es'"
      using 2(2) by auto
    let ?k = "if mem_wb (core_edge c) \<noteq> None then k + 1 else k"
    have "?k \<le> MAX_RETIRE" using True by simp
    from 2(1) [OF True es(2) this] obtain m where "es' = core_edges m im outside (core_step im outside c)"
      "MAX_RETIRE \<le> ?k + length (retired es')" "?k + length (retired es') \<le> MAX_RETIRE + 1" by blast
    then show ?thesis using es(1) by (intro exI [of _ "Suc m"]) (auto split: option.splits)
  next
    case False
    then show ?thesis using 2(2,3)
      by (intro exI [of _ "if late then 1 else 0"]) (auto split: option.splits)
  qed
qed simp

lemma tb_edges_returns:
  "MAX_RETIRE \<le> k + length (retired (core_edges n im outside c)) \<Longrightarrow> n < f \<Longrightarrow>
   \<exists>es. tb_edges f late im outside k c = Some es"
proof (induction f late im outside k c arbitrary: n rule: tb_edges.induct)
  case (2 edges late im outside k c)
  then show ?case by (cases n) (auto split: option.splits)
qed simp

end
