(* ===== verification/Rtl_Theorems.thy ===== *)
theory Rtl_Theorems
  imports Rtl_Replay Rtl_Agree Rtl_Commit Gen_Theorems
begin

text \<open>
  The properties of the pipelined core under \<open>rtl/\<close>: it refines the one-instruction-at-a-time machine,
  makes progress, and on every generated program retires what the simulator \<open>src/main.cpp\<close> executes,
  up to the parsed commit log. The last section holds the behaviours that bound these properties.
\<close>

section \<open>The core on a generated program\<close>

lemma core_run_funpow: "core_run n im outside c = (core_step im outside ^^ n) c"
  by (induction n arbitrary: c) (simp_all add: funpow_swap1)

lemma events_length:
  assumes "\<And>c. f c = None \<longleftrightarrow> g c = None"
  shows "length (events step f n c) = length (events step g n c)"
proof (induction n arbitrary: c)
  case (Suc n)
  then show ?case using assms [of c] by (cases "f c"; cases "g c") auto
qed simp

text \<open>The state of the core after a run whose fetches all deliver the word in memory.\<close>

lemma core_abs_run:
  assumes "pipe_inv im c" "throughout (core_step im outside) (fetch_ok im) n c"
  shows "arch_of outside (core_run n im outside c)
    = (isa_step im outside ^^ length (issues n im outside c)) (arch_of outside c)"
proof -
  have "length (events (core_step im outside) (\<lambda>c. if idex_valid (id_ex_r c) then Some () else None) n c)
      = length (issues n im outside c)"
    unfolding issues_def by (rule events_length) (simp add: issued_def)
  then show ?thesis using pipeline.abs_run [OF assms] by (simp add: core_run_funpow)
qed

lemma throughout_le: "throughout step Q n c \<Longrightarrow> m \<le> n \<Longrightarrow> throughout step Q m c"
  by (simp add: throughout_def)

lemma issues_at_least:
  assumes "pipe_inv im c" "throughout (core_step im outside) (fetch_ok im) n c"
  shows "n div 3 \<le> length (issues n im outside c)"
proof -
  have m: "n = n div 3 * 3 + n mod 3" by simp
  have "throughout (core_step im outside) (fetch_ok im) (n div 3 * 3) c"
    by (rule throughout_le [OF assms(2)]) simp
  from issues_progress [OF assms(1) this] issues_longer [of "n div 3 * 3" im outside c "n mod 3"] m
  show ?thesis by simp
qed

text \<open>The simulator on a generated program, turn by turn beside the instruction machine.\<close>

lemma endless_safe_run:
  assumes "code P d" "tame P d" "sim_step d = Go d"
  shows "safe_run P k d d"
  by (induction k) (use assms in \<open>auto intro: safe_run.intros\<close>)

lemma built_endless:
  assumes "build_full_program n t = (Inr (map Some P, r), t')"
  obtains c m d where "load_words 0 (map word_of_int P) init_cpu = Some c" "same_state (length P) c start_arch"
    "\<forall>k. safe_run P (m + k) c d"
proof -
  obtain P' where P': "map Some P = map Some P'" "int (length P') = n + 32" "roomy P'" "last P' = EPILOGUE"
    using built_words [OF assms] by metis
  have "P' = P" using P'(1) by (metis map_injective option.inject injI)
  note P = P'(2-) [unfolded this]
  obtain c where c: "load_words 0 (map word_of_int P) init_cpu = Some c" "code P c" "cpu.pc c = 0" "out c = []"
    using load_words_code [OF P(2)] by (auto simp: init_cpu_def)
  obtain m d where d: "safe_run P m c d" "sim_step d = Go d" "cpu.pc d = addr (31 + n)"
    using built_program_reaches_end [OF assms c(2-4)] by blast
  have n: "1 \<le> n" using build_result [of n t] assms by simp
  have "nat (31 + n) = length P - 1" "P \<noteq> []" using P(1) n by auto
  then have "P ! nat (31 + n) = EPILOGUE" using P(3) by (simp add: last_conv_nth)
  then have "tame P d" unfolding tame_def
    by (intro exI [of _ "31 + n"] exI [of _ "OpBranch 0 0 0 0"]) (use P(1) n d(3) in \<open>simp add: EPILOGUE_def fits_def sfits_def BRANCHES_def\<close>)
  have "code P d" using safe_run_code [OF d(1)] by simp
  have "safe_run P (m + k) c d" for k
    by (rule safe_run_trans [OF d(1) endless_safe_run [OF \<open>code P d\<close> \<open>tame P d\<close> d(2)]])
  with that [OF c(1) same_start [OF P(2) c(1)]] show thesis by blast
qed

lemma built_simulation:
  assumes "build_full_program n t = (Inr (map Some P, r), t')"
  obtains c where "load_words 0 (map word_of_int P) init_cpu = Some c"
    "\<forall>k outside. \<exists>e. run_sim k c = Running e
       \<and> same_state (length P) e ((isa_step (program_rom P) outside ^^ k) start_arch)"
proof -
  obtain c m d where c: "load_words 0 (map word_of_int P) init_cpu = Some c" "same_state (length P) c start_arch"
    "\<forall>k. safe_run P (m + k) c d" by (rule built_endless [OF assms])
  have "\<exists>e. run_sim k c = Running e
      \<and> same_state (length P) e ((isa_step (program_rom P) outside ^^ k) start_arch)" for k outside
    using safe_run_same [OF c(3) [rule_format] c(2)] by (metis le_add2)
  with c(1) that show thesis by blast
qed

section \<open>Generated programs on the core\<close>

lemma built_fetch_ok:
  assumes "build_full_program n t = (Inr (map Some P, r), t')"
  shows "throughout (core_step (program_rom P) outside) (fetch_ok (program_rom P)) N (reset_core ram0 buf0)"
  by (rule replayable_fetch_ok [OF built_replayable [OF assms]])

lemma start_arch_reset: "arch_of outside (reset_core (\<lambda>_. 0) buf0) = start_arch"
  by (simp add: arch_of_reset start_arch_def)

lemma core_beside_simulator:
  assumes "build_full_program n t = (Inr (map Some P, r), t')"
    and "load_words 0 (map word_of_int P) init_cpu = Some c"
    and "\<forall>k outside. \<exists>e. run_sim k c = Running e
       \<and> same_state (length P) e ((isa_step (program_rom P) outside ^^ k) start_arch)"
  shows "\<exists>k e. N div 3 \<le> k \<and> run_sim k c = Running e
    \<and> same_state (length P) e (arch_of outside (core_run N (program_rom P) outside (reset_core (\<lambda>_. 0) buf0)))"
proof -
  note ok = built_fetch_ok [OF assms(1), of outside N "\<lambda>_. 0" buf0]
  have "N div 3 \<le> length (issues N (program_rom P) outside (reset_core (\<lambda>_. 0) buf0))"
    by (rule issues_at_least [OF pipe_inv_reset ok])
  then show ?thesis
    using core_abs_run [OF pipe_inv_reset ok] assms(3) by (metis start_arch_reset)
qed

text \<open>C2: The pipelined core and the single-cycle simulator agree on every generated program: after any
  number \<open>N\<close> of clock cycles from reset the architectural state of the core (registers with the
  writes still in the pipeline, program counter of the next instruction, data memory behind the
  program) is the state of \<open>src/main.cpp\<close> after some number of instructions, at least \<open>N div 3\<close>.
  Forwarding, load-use stalls, mispredicted branches and the loop buffer never show.\<close>

theorem core_matches_simulator:
  assumes "build_full_program n t = (Inr (map Some P, r), t')"
  shows "\<exists>c. load_words 0 (map word_of_int P) init_cpu = Some c
    \<and> (\<forall>N outside buf0. \<exists>k e. N div 3 \<le> k \<and> run_sim k c = Running e
         \<and> same_state (length P) e
             (arch_of outside (core_run N (program_rom P) outside (reset_core (\<lambda>_. 0) buf0))))"
proof -
  obtain c where c: "load_words 0 (map word_of_int P) init_cpu = Some c"
    "\<forall>k outside. \<exists>e. run_sim k c = Running e
       \<and> same_state (length P) e ((isa_step (program_rom P) outside ^^ k) start_arch)"
    by (rule built_simulation [OF assms])
  then show ?thesis using core_beside_simulator [OF assms c] by blast
qed

lemma core_matches_simulator_witness:
  "\<exists>c. load_words 0 (map word_of_int sample_words) init_cpu = Some c
    \<and> (\<forall>N outside buf0. \<exists>k e. N div 3 \<le> k \<and> run_sim k c = Running e
         \<and> same_state (length sample_words) e
             (arch_of outside (core_run N (program_rom sample_words) outside (reset_core (\<lambda>_. 0) buf0))))"
  by (rule core_matches_simulator [OF sample_build])

text \<open>C11: A generated program finishes on the core: three times the estimated number of retirements, and three
  cycles more, after reset the core is, and stays, in the state in which the simulator sits at the endless
  branch.\<close>

theorem core_finishes:
  assumes "build_full_program n t = (Inr (map Some P, r), t')"
  shows "\<exists>c d. load_words 0 (map word_of_int P) init_cpu = Some c
    \<and> (\<forall>k \<ge> nat (r + 1). run_sim k c = Running d) \<and> cpu.pc d = word_of_int (4 * (31 + n))
    \<and> (\<forall>N outside buf0. 3 * nat (r + 1) \<le> N \<longrightarrow>
         same_state (length P) d
           (arch_of outside (core_run N (program_rom P) outside (reset_core (\<lambda>_. 0) buf0))))"
proof -
  obtain c where c: "load_words 0 (map word_of_int P) init_cpu = Some c"
    "\<forall>k outside. \<exists>e. run_sim k c = Running e
       \<and> same_state (length P) e ((isa_step (program_rom P) outside ^^ k) start_arch)"
    by (rule built_simulation [OF assms])
  have "roomy P" using build_full_program_shape [OF assms] by (metis map_injective option.inject injI)
  then have "code P c" "cpu.pc c = 0" "out c = []"
    using load_words_code [of P] c(1) by (auto simp: init_cpu_def)
  from built_program_reaches_end [OF assms this] obtain m d where
    d: "safe_run P m c d" "int m \<le> r + 1" "sim_step d = Go d" "cpu.pc d = addr (31 + n)" by blast
  have fin: "run_sim k c = Running d" if "nat (r + 1) \<le> k" for k
  proof -
    have "k = m + (k - m)" using that d(2) by simp
    then show ?thesis using safe_run_fuel [OF d(1), of "k - m"] stuck_runs [OF d(3), of "k - m"] by simp
  qed
  moreover have "same_state (length P) d (arch_of outside (core_run N (program_rom P) outside (reset_core (\<lambda>_. 0) buf0)))"
    if "3 * nat (r + 1) \<le> N" for N outside buf0
  proof -
    obtain k e where e: "N div 3 \<le> k" "run_sim k c = Running e"
      "same_state (length P) e (arch_of outside (core_run N (program_rom P) outside (reset_core (\<lambda>_. 0) buf0)))"
      using core_beside_simulator [OF assms c] by blast
    have "nat (r + 1) \<le> k" using that e(1) by linarith
    then have "e = d" using fin e(2) by simp
    with e(3) show ?thesis by simp
  qed
  ultimately show ?thesis using c(1) d(4) by blast
qed

lemma core_finishes_witness:
  "\<exists>c d. load_words 0 (map word_of_int sample_words) init_cpu = Some c
    \<and> (\<forall>k \<ge> nat (51 + 1). run_sim k c = Running d) \<and> cpu.pc d = word_of_int (4 * (31 + 6))
    \<and> (\<forall>N outside buf0. 3 * nat (51 + 1) \<le> N \<longrightarrow>
         same_state (length sample_words) d
           (arch_of outside (core_run N (program_rom sample_words) outside (reset_core (\<lambda>_. 0) buf0))))"
  by (rule core_finishes [OF sample_build])

section \<open>The commit log of a generated program\<close>

text \<open>
  A record of the commit log explains a turn of the simulator from \<open>d\<close> to \<open>d'\<close>: its PC is that of the
  turn, and the registers and the words behind the program text change exactly as logged.
\<close>

definition explains :: "nat \<Rightarrow> retirement \<Rightarrow> cpu \<Rightarrow> cpu \<Rightarrow> bool" where
  "explains T r d d' \<longleftrightarrow>
     retirement.pc r = uint (cpu.pc d)
     \<and> (\<forall>x < 32. registers d' x =
          (case retirement.reg r of
             Some (rd, v) \<Rightarrow> if int x = rd \<and> rd \<noteq> 0 then word_of_int v else registers d x
           | None \<Rightarrow> registers d x))
     \<and> (\<forall>j. T \<le> j \<and> j < 1024 \<longrightarrow> word_at (memory d') (4 * j) =
          (case retirement.mem r of
             Some (a, v) \<Rightarrow> if a div 4 = int j then word_of_int v else word_at (memory d) (4 * j)
           | None \<Rightarrow> word_at (memory d) (4 * j)))"

lemma same_registers:
  assumes "same_state T d A" "x < 32"
  shows "registers d x = areg (aregs A) (word_of_nat x)"
proof -
  have "unat (word_of_nat x :: 5 word) = x" using assms(2) by (simp add: unsigned_of_nat take_bit_nat_eq_self)
  then show ?thesis using assms(1) by (auto simp: same_state_def areg_def word_unat_eq_iff)
qed

lemma word_index: "uint (a :: u32w) div 4 = int j \<longleftrightarrow> unat (drop_bit 2 a) = j"
proof -
  have "uint (drop_bit 2 a) = uint a div 4" unfolding unsigned_drop_bit_eq
    using take_bit_int_eq_self [of "uint a" 32] uint_lt2p [of a] by (simp add: drop_bit_eq_div)
  moreover have "uint (drop_bit 2 a) = int (unat (drop_bit 2 a))" by simp
  ultimately show ?thesis by linarith
qed

lemma register_index:
  assumes "x < 32"
  shows "int x = uint rd \<longleftrightarrow> word_of_nat x = (rd :: 5 word)"
proof -
  have "uint (word_of_nat x :: 5 word) = int x"
    using assms by (simp add: unsigned_of_nat take_bit_int_eq_self take_bit_nat_eq_self of_nat_take_bit)
  then show ?thesis by (metis word_uint_eq_iff)
qed

lemma event_registers:
  assumes "same_state T d A" "same_state T d' (isa_step im outside A)" "x < 32"
  shows "registers d' x = (case e_write (effect_at im outside A) of
      Some (rd, v) \<Rightarrow> if int x = uint rd \<and> uint rd \<noteq> 0 then v else registers d x | None \<Rightarrow> registers d x)"
proof -
  have "registers d' x = areg (case e_write (effect_at im outside A) of None \<Rightarrow> aregs A
      | Some (rd, v) \<Rightarrow> write_port True rd v (aregs A)) (word_of_nat x)"
    using same_registers [OF assms(2,3)] by (simp add: isa_step_def apply_effect_def)
  then show ?thesis using same_registers [OF assms(1,3)]
    by (cases "e_write (effect_at im outside A)")
      (auto simp: areg_def write_port_def register_index [OF assms(3)] uint_0_iff)
qed

lemma event_words:
  assumes "same_state T d A" "same_state T d' (isa_step im outside A)" "T \<le> j" "j < 1024"
  shows "word_at (memory d') (4 * j) = (case e_store (effect_at im outside A) of
      Some (a, v) \<Rightarrow> if uint a div 4 = int j then v else word_at (memory d) (4 * j)
    | None \<Rightarrow> word_at (memory d) (4 * j))"
proof -
  have "word_at (memory d') (4 * j) = adata (isa_step im outside A) j" "word_at (memory d) (4 * j) = adata A j"
    using assms by (simp_all add: same_state_def)
  then show ?thesis using assms(4)
    by (cases "e_store (effect_at im outside A)")
      (auto simp: isa_step_def apply_effect_def data_mem_write_def word_index)
qed

lemma event_explains:
  assumes "same_state T d A" "same_state T d' (isa_step im outside A)"
  shows "explains T (event_record k (isa_event im outside A)) d d'"
proof -
  have "apc A = cpu.pc d" using assms(1) by (simp add: same_state_def)
  then show ?thesis
    unfolding explains_def using event_registers [OF assms] event_words [OF assms]
    by (auto simp: event_record_def isa_event_def reg_of_def mem_of_def split: option.splits if_splits)
qed

text \<open>The log the testbench leaves: the trace of the instruction machine, cut at the limit.\<close>

lemma tb_log_trace:
  assumes "build_full_program n t = (Inr (map Some P, r), t')"
    and "tb_edges f late (program_rom P) outside 0 (reset_core (\<lambda>_. 0) buf0) = Some es"
  obtains l where "edges_show es (isa_trace l (program_rom P) outside start_arch)"
    "MAX_RETIRE \<le> l" "l \<le> MAX_RETIRE + 1"
proof -
  let ?c = "reset_core (\<lambda>_. 0) buf0" and ?im = "program_rom P"
  obtain m where m: "es = core_edges m ?im outside ?c" "MAX_RETIRE \<le> length (retired es)" "length (retired es) \<le> MAX_RETIRE + 1"
    using tb_edges_samples [OF assms(2)] by auto
  have "length (retired es) \<le> m"
    unfolding m(1) retired_def List.map_filter_def core_edges_def by (metis length_filter_le length_map samples_length)
  then obtain i where i: "m = i + 2" using m(2) nat_le_iff_add [of 2 m] by (auto simp: MAX_RETIRE_def add.commute)
  have e: "edges_show es (issues i ?im outside ?c)"
    unfolding m(1) i by (rule core_edges_show [OF built_fetch_ok [OF assms(1)]])
  then have "length (issues i ?im outside ?c) = length (retired es)" by (simp add: edges_show_def)
  moreover have "issues i ?im outside ?c = isa_trace (length (issues i ?im outside ?c)) ?im outside start_arch"
    using issues_trace [OF pipe_inv_reset built_fetch_ok [OF assms(1), of outside i "\<lambda>_. 0" buf0]]
    unfolding start_arch_reset .
  ultimately show thesis using that [of "length (retired es)"] e m(2,3) by simp
qed

lemma tb_returns:
  assumes "build_full_program n t = (Inr (map Some P, r), t')" "60002 < f"
  shows "\<exists>es. tb_edges f late (program_rom P) outside 0 (reset_core (\<lambda>_. 0) buf0) = Some es"
proof (rule tb_edges_returns [OF _ assms(2)])
  let ?c = "reset_core (\<lambda>_. 0) buf0" and ?im = "program_rom P"
  note ok = built_fetch_ok [OF assms(1)]
  have "edges_show (core_edges (60000 + 2) ?im outside ?c) (issues 60000 ?im outside ?c)"
    by (rule core_edges_show [OF ok])
  then have "length (retired (core_edges (60000 + 2) ?im outside ?c)) = length (issues 60000 ?im outside ?c)"
    unfolding edges_show_def by (elim conjE) (simp only: length_map)
  with issues_at_least [OF pipe_inv_reset ok, of 60000]
  show "MAX_RETIRE \<le> 0 + length (retired (core_edges 60002 ?im outside ?c))"
    by (simp add: MAX_RETIRE_def del: core_edges_simps)
qed

lemma tb_log:
  assumes "build_full_program n t = (Inr (map Some P, r), t')"
  obtains es l where "tb_edges HARD_TIMEOUT late (program_rom P) outside 0 (reset_core (\<lambda>_. 0) buf0) = Some es"
    "edges_show es (isa_trace l (program_rom P) outside start_arch)" "MAX_RETIRE \<le> l" "l \<le> MAX_RETIRE + 1"
proof -
  have "60002 < HARD_TIMEOUT" by (simp add: HARD_TIMEOUT_def)
  from tb_returns [OF assms this] obtain es where
    es: "tb_edges HARD_TIMEOUT late (program_rom P) outside 0 (reset_core (\<lambda>_. 0) buf0) = Some es" by metis
  from tb_log_trace [OF assms es] that [OF es] show thesis by metis
qed

text \<open>C3: The commit log the testbench writes for a generated program records the run of the simulator: the
  testbench stops by itself, before its hard timeout, and record \<open>k\<close> of the parsed log holds the PC,
  the register write and the store of turn \<open>k\<close> of \<open>src/main.cpp\<close>, for all 20000 records and the one
  that may follow.\<close>

theorem commit_log_matches_simulator:
  assumes "build_full_program n t = (Inr (map Some P, r), t')"
  shows "\<exists>c es. load_words 0 (map word_of_int P) init_cpu = Some c
    \<and> tb_edges HARD_TIMEOUT late (program_rom P) outside 0 (reset_core (\<lambda>_. 0) buf0) = Some es
    \<and> (case parse_sv_log (commit_log es) of (rs, unrecognised) \<Rightarrow>
         unrecognised = [] \<and> MAX_RETIRE \<le> length rs \<and> length rs \<le> MAX_RETIRE + 1
         \<and> (\<forall>k < length rs. \<exists>d d'. run_sim k c = Running d \<and> run_sim (Suc k) c = Running d'
              \<and> explains (length P) (rs ! k) d d'))"
proof -
  obtain c where c: "load_words 0 (map word_of_int P) init_cpu = Some c"
    "\<forall>k outside. \<exists>e. run_sim k c = Running e
       \<and> same_state (length P) e ((isa_step (program_rom P) outside ^^ k) start_arch)"
    by (rule built_simulation [OF assms])
  obtain es l where es: "tb_edges HARD_TIMEOUT late (program_rom P) outside 0 (reset_core (\<lambda>_. 0) buf0) = Some es"
    and e: "edges_show es (isa_trace l (program_rom P) outside start_arch)"
    and b: "MAX_RETIRE \<le> l" "l \<le> MAX_RETIRE + 1"
    by (rule tb_log [OF assms])
  note l = edges_show_records [OF e] b
  let ?A = "\<lambda>k. (isa_step (program_rom P) outside ^^ k) start_arch"
  have "\<exists>d d'. run_sim k c = Running d \<and> run_sim (Suc k) c = Running d' \<and> explains (length P) (sv_expected es ! k) d d'"
    if "k < l" for k
  proof -
    have "sv_expected es ! k = event_record k (isa_event (program_rom P) outside (?A k))"
      using that by (simp add: l(1) number_events_def isa_trace_def trace_of_nth)
    moreover obtain d d' where d: "run_sim k c = Running d" "same_state (length P) d (?A k)"
      "run_sim (Suc k) c = Running d'" "same_state (length P) d' (?A (Suc k))"
      using c(2) by metis
    ultimately have "explains (length P) (sv_expected es ! k) d d'"
      using event_explains [OF d(2), of d'] d(4) by simp
    with d(1,3) show ?thesis by blast
  qed
  moreover have "length (sv_expected es) = l" by (simp add: l(1) number_events_def isa_trace_def)
  ultimately show ?thesis using c(1) es l(2,3) by (intro exI [of _ c] exI [of _ es]) (simp add: parse_commit_log)
qed

lemma commit_log_matches_simulator_witness:
  "\<exists>c es. load_words 0 (map word_of_int sample_words) init_cpu = Some c
    \<and> tb_edges HARD_TIMEOUT True (program_rom sample_words) (\<lambda>_. 0) 0 (reset_core (\<lambda>_. 0) (\<lambda>_. 0)) = Some es
    \<and> (case parse_sv_log (commit_log es) of (rs, unrecognised) \<Rightarrow>
         unrecognised = [] \<and> MAX_RETIRE \<le> length rs \<and> length rs \<le> MAX_RETIRE + 1
         \<and> (\<forall>k < length rs. \<exists>d d'. run_sim k c = Running d \<and> run_sim (Suc k) c = Running d'
              \<and> explains (length sample_words) (rs ! k) d d'))"
  by (rule commit_log_matches_simulator [OF sample_build])

end
