(* ===== verification/Rtl_Trace.thy ===== *)
theory Rtl_Trace
  imports Rtl_Theorems
begin

text \<open>
  The addresses of a generated program's trace: it stays in the text, it reaches the endless branch
  after at most the estimated number of retirements and one, from then on the address repeats, and no
  address repeats at once before. So \<open>truncate_at_self_loop\<close> cuts the trace behind the first turn of
  the endless branch.
\<close>

section \<open>The next address\<close>

lemma isa_next_address:
  assumes "replayable im e" "apc A = word_pc k" "k < e"
  shows "\<exists>t \<le> e. apc (isa_step im outside A) = word_pc t \<and> (t = Suc k \<or> jumps_to im k t)"
proof -
  let ?i = "rom_word im k"
  have ke: "k \<le> e" "k < 2 ^ 30" using assms(3) replayable_bounds [OF assms(1), of k] by simp_all
  note i = instruction_mem_word [OF ke(2), of im]
  show ?thesis
  proof (cases "control_flow ?i")
    case False
    then have "apc (isa_step im outside A) = word_pc (Suc k)"
      unfolding control_flow_def opcode_iff [symmetric] word_pc_Suc [symmetric] assms(2) [symmetric]
      by (simp add: isa_step_def apply_effect_def effect_at_def isa_effect_def Let_def assms(2) i)
    then show ?thesis using assms(3) by (intro exI [of _ "Suc k"]) simp
  next
    case True
    obtain t where t: "t \<le> e" "jumps_to im k t" using replayable_jump(2) [OF assms(1) ke(1) True] by blast
    have o: "f_opcode ?i = 0x63 \<or> f_opcode ?i = 0x6F"
      using True replayable_jump(1) [OF assms(1) ke(1) True] by (simp add: control_flow_def opcode_iff)
    have "word_pc k + imm_gen ?i = word_pc t" using t(2) by (simp add: jumps_to_def)
    then have imm: "f_opcode ?i = 0x63 \<Longrightarrow> word_pc k + decode_B_imm ?i = word_pc t"
      "f_opcode ?i = 0x6F \<Longrightarrow> word_pc k + decode_J_imm ?i = word_pc t"
      unfolding imm_gen_decode by (auto simp: Let_def)
    have "apc (isa_step im outside A) \<in> {word_pc t, word_pc (Suc k)}"
      using o imm unfolding isa_step_def apply_effect_def effect_at_def isa_effect_def Let_def assms(2) i
      by (auto simp: word_pc_Suc)
    then show ?thesis using t assms(3) by (metis insertE singletonD Suc_leI)
  qed
qed

lemma isa_end_stays:
  assumes "replayable im e" "apc A = word_pc e"
  shows "apc (isa_step im outside A) = word_pc e"
proof -
  have "rom_word im e = 0x63" using assms(1) by (simp add: replayable_def)
  then have i: "instruction_mem im (apc A) = 0x63"
    using instruction_mem_word [of e im] replayable_bounds [OF assms(1), of e] by (simp add: assms(2))
  have f: "f_opcode 0x63 = 0x63" "f_funct3 0x63 = 0" "i_rs1 0x63 = 0" "i_rs2 0x63 = 0" "decode_B_imm 0x63 = 0"
    by code_simp+
  show ?thesis
    unfolding isa_step_def apply_effect_def effect_at_def isa_effect_def Let_def i
    by (simp add: f isa_branch_def areg_def assms(2))
qed

section \<open>The addresses of a trace\<close>

text \<open>Address \<open>j\<close> of the trace.\<close>

definition trace_pc :: "rom \<Rightarrow> (u32w \<Rightarrow> u32w) \<Rightarrow> nat \<Rightarrow> u32w" where
  "trace_pc im outside j = apc ((isa_step im outside ^^ j) start_arch)"

text \<open>The trace arrives at \<open>x\<close> with instruction \<open>m\<close>, without repeating an address before, and stays.\<close>

definition arrives :: "rom \<Rightarrow> (u32w \<Rightarrow> u32w) \<Rightarrow> u32w \<Rightarrow> nat \<Rightarrow> bool" where
  "arrives im outside x m \<longleftrightarrow>
     (\<forall>j. trace_pc im outside j = x \<longleftrightarrow> m \<le> j) \<and> (\<forall>j < m. trace_pc im outside (Suc j) \<noteq> trace_pc im outside j)"

lemma trace_in_text:
  assumes "replayable im e"
  shows "\<exists>k \<le> e. trace_pc im outside j = word_pc k"
proof (induction j)
  case 0
  show ?case by (intro exI [of _ 0]) (simp add: trace_pc_def start_arch_def word_pc_def)
next
  case (Suc j)
  then obtain k where k: "k \<le> e" "trace_pc im outside j = word_pc k" by blast
  then show ?case
    using isa_next_address [OF assms, of "(isa_step im outside ^^ j) start_arch" k outside]
      isa_end_stays [OF assms, of "(isa_step im outside ^^ j) start_arch" outside]
    by (cases "k = e") (auto simp: trace_pc_def)
qed

lemma trace_arrives:
  assumes "replayable im e" "\<And>k. k \<le> e \<Longrightarrow> jumps_to im k k \<Longrightarrow> k = e" "trace_pc im outside M = word_pc e"
  shows "\<exists>m \<le> M. arrives im outside (word_pc e) m"
proof -
  define m where "m = (LEAST j. trace_pc im outside j = word_pc e)"
  have m: "trace_pc im outside m = word_pc e" "m \<le> M" "\<And>j. j < m \<Longrightarrow> trace_pc im outside j \<noteq> word_pc e"
    using LeastI [of "\<lambda>j. trace_pc im outside j = word_pc e", OF assms(3)] Least_le [of "\<lambda>j. trace_pc im outside j = word_pc e", OF assms(3)] not_less_Least
    unfolding m_def by blast+
  have later: "trace_pc im outside (m + j) = word_pc e" for j
    by (induction j) (use m(1) isa_end_stays [OF assms(1)] in \<open>simp_all add: trace_pc_def\<close>)
  have "trace_pc im outside (Suc j) \<noteq> trace_pc im outside j" if "j < m" for j
  proof
    assume eq: "trace_pc im outside (Suc j) = trace_pc im outside j"
    obtain k where k: "k \<le> e" "trace_pc im outside j = word_pc k" using trace_in_text [OF assms(1)] by blast
    have "k < e" using m(3) [OF that] k by (cases "k = e") auto
    from isa_next_address [OF assms(1) k(2) [unfolded trace_pc_def] this] obtain t where
      t: "t \<le> e" "trace_pc im outside (Suc j) = word_pc t" "t = Suc k \<or> jumps_to im k t"
      by (auto simp: trace_pc_def)
    have "t = k" using eq k t(1,2) word_pc_near(1) [OF assms(1), of t k] by simp
    then show False using t(3) assms(2) [OF k(1)] \<open>k < e\<close> by auto
  qed
  moreover have "trace_pc im outside j = word_pc e \<longleftrightarrow> m \<le> j" for j
    using later [of "j - m"] m(3) [of j] by (cases "m \<le> j") auto
  ultimately show ?thesis using m(2) unfolding arrives_def by blast
qed

section \<open>Generated programs\<close>

lemma block_cost_len: "wf_block b \<Longrightarrow> block_cost b \<le> 8 * int (block_len b)"
proof (cases b)
  case (Loop trip body)
  assume "wf_block b"
  with Loop have "trip \<le> 8" by simp
  then have "trip * (int (length body) + 2) \<le> 8 * (int (length body) + 2)" by (rule mult_right_mono) simp
  with Loop show ?thesis by simp
qed simp_all

lemma filled_cost: "filled p n rs bs \<Longrightarrow> cost bs \<le> 8 * int (len bs)"
proof (induction p n rs bs rule: filled.induct)
  case (4 p n rs trip body bs)
  then show ?case using block_cost_len [of "Loop trip body"] by simp
qed auto

lemma built_estimate:
  assumes "build_full_program n t = (Inr (ws, r), t')"
  shows "r + 1 < int MAX_RETIRE - 3" "1 \<le> n"
proof -
  obtain bs P where b: "filled (start_word n) n (ranges_of (start_word n) bs) bs"
    "start_word n + int (len bs) = n" "r = 32 + cost bs" "1 \<le> n" "roomy P" "int (length P) = n + 32"
    by (rule build_full_program_shape [OF assms])
  have "0 \<le> start_word n" by (simp add: start_word_def)
  then show "r + 1 < int MAX_RETIRE - 3" "1 \<le> n"
    using filled_cost [OF b(1)] b(2-6) by (simp_all add: MAX_RETIRE_def roomy_def program_size_def)
qed

lemma end_address: "0 \<le> n \<Longrightarrow> word_pc (nat n + 31) = word_of_int (4 * (31 + n))"
  by (simp add: word_pc_int)

lemma built_arrives:
  assumes "build_full_program n t = (Inr (map Some P, r), t')"
  shows "\<exists>m. int m \<le> r + 1 \<and> arrives (program_rom P) outside (word_of_int (4 * (31 + n))) m"
proof -
  obtain c where c: "load_words 0 (map word_of_int P) init_cpu = Some c"
    "\<forall>k outside. \<exists>e. run_sim k c = Running e
       \<and> same_state (length P) e ((isa_step (program_rom P) outside ^^ k) start_arch)"
    by (rule built_simulation [OF assms])
  have "roomy P" using build_full_program_shape [OF assms] by (metis map_injective option.inject injI)
  then have "code P c" "cpu.pc c = 0" "out c = []"
    using load_words_code [of P] c(1) by (auto simp: init_cpu_def)
  from built_program_reaches_end [OF assms this] obtain M d where
    d: "safe_run P M c d" "int M \<le> r + 1" "cpu.pc d = addr (31 + n)" by blast
  have n: "0 \<le> n" using built_estimate(2) [OF assms] by simp
  obtain e where "run_sim M c = Running e" "same_state (length P) e ((isa_step (program_rom P) outside ^^ M) start_arch)"
    using c(2) by blast
  then have "trace_pc (program_rom P) outside M = word_pc (nat n + 31)"
    using safe_run_fuel [OF d(1), of 0] d(3) unfolding end_address [OF n] by (simp add: same_state_def trace_pc_def)
  then obtain m where "m \<le> M" "arrives (program_rom P) outside (word_pc (nat n + 31)) m"
    using trace_arrives [OF built_replayable [OF assms] built_self_jump [OF assms]] by blast
  then show ?thesis unfolding end_address [OF n, symmetric] using d(2) by (intro exI [of _ m]) simp
qed

text \<open>Records with the addresses of a trace, under an injective view of addresses, are cut behind the arrival.\<close>

lemma truncate_trace:
  assumes "arrives im outside x m" "m + 3 \<le> length rs" "inj f"
    and "\<And>j. j < length rs \<Longrightarrow> pc (rs ! j) = f (trace_pc im outside j)"
  shows "truncate_at_self_loop 3 rs = take (Suc m) rs"
proof (rule truncate_at_first_repeat [OF assms(2)])
  show "pc (rs ! j) = pc (rs ! m)" if "m \<le> j" "j < length rs" for j
  proof -
    have "trace_pc im outside j = x" "trace_pc im outside m = x" using assms(1) that(1) by (simp_all add: arrives_def)
    then show ?thesis using assms(2,4) that(2) by simp
  qed
  show "pc (rs ! Suc j) \<noteq> pc (rs ! j)" if "j < m" for j
    using assms that by (simp add: arrives_def inj_eq)
qed

lemma nth_number_events:
  "j < l \<Longrightarrow> number_events (isa_trace l im outside start_arch) ! j = event_record j (isa_event im outside ((isa_step im outside ^^ j) start_arch))"
  by (simp add: number_events_def isa_trace_def trace_of_nth)

lemma core_records_cut:
  assumes "arrives im outside x m" "m + 3 \<le> l"
  shows "truncate_at_self_loop 3 (number_events (isa_trace l im outside start_arch))
    = take (Suc m) (number_events (isa_trace l im outside start_arch))"
proof (rule truncate_trace [OF assms(1), where f = uint])
  show "m + 3 \<le> length (number_events (isa_trace l im outside start_arch))"
    using assms(2) by (simp add: number_events_def isa_trace_def)
  show "pc (number_events (isa_trace l im outside start_arch) ! j) = uint (trace_pc im outside j)"
    if "j < length (number_events (isa_trace l im outside start_arch))" for j
    using that nth_number_events [of j l] by (simp add: number_events_def isa_trace_def event_record_def isa_event_def trace_pc_def)
qed (rule inj_unsigned)

text \<open>C4: The testbench logs the whole program: it stops only after all instructions up to the endless branch,
  which a generated program reaches within its estimated retirement count plus one, far below the
  limit of 20000. Cutting the parsed log at the self-loop leaves exactly one record per turn of
  \<open>src/main.cpp\<close> up to and including the first of the endless branch.\<close>

theorem commit_log_covers_program:
  assumes "build_full_program n t = (Inr (map Some P, r), t')"
  shows "\<exists>c es m. load_words 0 (map word_of_int P) init_cpu = Some c
    \<and> tb_edges HARD_TIMEOUT late (program_rom P) outside 0 (reset_core (\<lambda>_. 0) buf0) = Some es
    \<and> int m \<le> r + 1 \<and> r + 1 < int MAX_RETIRE
    \<and> (\<forall>k. \<exists>d. run_sim k c = Running d \<and> (cpu.pc d = word_of_int (4 * (31 + n)) \<longleftrightarrow> m \<le> k))
    \<and> length (truncate_at_self_loop 3 (fst (parse_sv_log (commit_log es)))) = m + 1"
proof -
  obtain c where c: "load_words 0 (map word_of_int P) init_cpu = Some c"
    "\<forall>k outside. \<exists>e. run_sim k c = Running e
       \<and> same_state (length P) e ((isa_step (program_rom P) outside ^^ k) start_arch)"
    by (rule built_simulation [OF assms])
  obtain es l where es: "tb_edges HARD_TIMEOUT late (program_rom P) outside 0 (reset_core (\<lambda>_. 0) buf0) = Some es"
    and e: "edges_show es (isa_trace l (program_rom P) outside start_arch)" and l: "MAX_RETIRE \<le> l"
    by (rule tb_log [OF assms])
  obtain m where m: "int m \<le> r + 1" "arrives (program_rom P) outside (word_of_int (4 * (31 + n))) m"
    using built_arrives [OF assms] by blast
  have "\<exists>d. run_sim k c = Running d \<and> (cpu.pc d = word_of_int (4 * (31 + n)) \<longleftrightarrow> m \<le> k)" for k
    using c(2) m(2) by (metis arrives_def same_state_def trace_pc_def)
  moreover have ml: "m + 3 \<le> l" using m(1) l built_estimate(1) [OF assms] by linarith
  then have "length (truncate_at_self_loop 3 (fst (parse_sv_log (commit_log es)))) = m + 1"
    using core_records_cut [OF m(2) ml]
    by (simp add: parse_commit_log edges_show_records [OF e] number_events_def isa_trace_def)
  ultimately show ?thesis using c(1) es m(1) built_estimate(1) [OF assms]
    by (intro exI [of _ c] exI [of _ es] exI [of _ m]) simp
qed

lemma commit_log_covers_program_witness:
  "\<exists>c es m. load_words 0 (map word_of_int sample_words) init_cpu = Some c
    \<and> tb_edges HARD_TIMEOUT False (program_rom sample_words) (\<lambda>_. 0) 0 (reset_core (\<lambda>_. 0) (\<lambda>_. 0)) = Some es
    \<and> int m \<le> 51 + 1 \<and> 51 + 1 < int MAX_RETIRE
    \<and> (\<forall>k. \<exists>d. run_sim k c = Running d \<and> (cpu.pc d = word_of_int (4 * (31 + 6)) \<longleftrightarrow> m \<le> k))
    \<and> length (truncate_at_self_loop 3 (fst (parse_sv_log (commit_log es)))) = m + 1"
  by (rule commit_log_covers_program [OF sample_build])

end
