(* ===== verification/Relocation.thy ===== *)
theory Relocation
  imports Rv32_Agree Rtl_Trace
begin

text \<open>
  Position independence: a program that uses x31 as the base of its loads and stores only, after setting
  it from the program counter, runs alike at address 0 on the specification of the core and at
  0x80000000 on RV32I with code and data in one memory. The states are related by \<open>shifted\<close>, and
  \<open>beside\<close> is the relation of the lock-step simulation \<open>relocation\<close>.
\<close>

section \<open>Position-independent instructions\<close>

abbreviation base :: u32w where "base \<equiv> 0x80000000"

text \<open>x31 is an operand of loads and stores only, as their base, or is moved by a constant.\<close>

definition relocatable :: "u32w \<Rightarrow> bool" where
  "relocatable i \<longleftrightarrow>
     (let opcode = i_opcode i; rd = i_rd i; rs1 = i_rs1 i; rs2 = i_rs2 i
      in opcode = 0x33 \<and> rd \<noteq> 31 \<and> rs1 \<noteq> 31 \<and> rs2 \<noteq> 31
         \<or> opcode = 0x13 \<and> (rd \<noteq> 31 \<and> rs1 \<noteq> 31 \<or> rd = 31 \<and> rs1 = 31 \<and> i_funct3 i = 0)
         \<or> opcode = 0x03 \<and> rd \<noteq> 31 \<and> rs1 = 31
         \<or> opcode = 0x23 \<and> rs1 = 31 \<and> rs2 \<noteq> 31
         \<or> opcode = 0x63 \<and> rs1 \<noteq> 31 \<and> rs2 \<noteq> 31
         \<or> opcode = 0x6F \<and> rd = 0)"

text \<open>
  The state of the core at word \<open>k\<close> of the program and that of RV32I at the same word, behind the
  base. The registers the preamble has cleared agree, and from word 32 on x31 is ahead by the base.
\<close>

definition same_regs :: "nat \<Rightarrow> regs \<Rightarrow> regs \<Rightarrow> bool" where
  "same_regs k R R' \<longleftrightarrow>
     (\<forall>r. r \<noteq> 0 \<and> r \<noteq> 31 \<and> (k < 31 \<longrightarrow> unat r \<le> k) \<longrightarrow> R' r = R r)
     \<and> (31 \<le> k \<longrightarrow> R' 31 = R 31 + (if 32 \<le> k then base else 0))"

definition shifted :: "int list \<Rightarrow> nat \<Rightarrow> arch \<Rightarrow> rv \<Rightarrow> bool" where
  "shifted P k A S \<longleftrightarrow>
     apc A = word_pc k \<and> rv_pc S = word_pc k + base \<and> same_regs k (aregs A) (rv_regs S)
     \<and> (\<forall>j < 1024. word_of (rv_mem S) (word_pc j + base) = (if j < length P then word_of_int (P ! j) else adata A j))"

text \<open>An event of the core and the event of RV32I that stands for it.\<close>

definition event_moved :: "event \<Rightarrow> rv_event \<Rightarrow> bool" where
  "event_moved = (\<lambda>(p, w, s) f.
     ev_pc f = p + base
     \<and> (case w of None \<Rightarrow> ev_write f = None
        | Some (rd, v) \<Rightarrow> \<exists>v'. ev_write f = Some (rd, v') \<and> v' \<in> {v, v + base})
     \<and> (case s of None \<Rightarrow> \<forall>x v. ev_access f \<noteq> Stores x v | Some (x, v) \<Rightarrow> ev_access f = Stores (x + base) v))"

section \<open>One step\<close>

lemma aligned_base: "aligned 2 (word_pc k + base)"
proof -
  have "word_pc k + base = word_pc (k + 0x20000000)" by (simp add: word_pc_def algebra_simps)
  then show ?thesis by (simp add: aligned_word_pc)
qed

text \<open>The effects on both sides, when they agree, lead to states that agree.\<close>

lemma shifted_effects:
  assumes "shifted P k A S" "k < length P" "length P \<le> 1024" "core_legal i" "i = word_of_int (P ! k)"
    and e: "e = effect_at (program_rom P) outside A"
      "e' = isa_effect (word_of (rv_mem S)) i (word_pc k + base) (rv_reg S (i_rs1 i)) (rv_reg S (i_rs2 i))"
    and al: "\<And>x. rv_address i (rv_reg S (i_rs1 i)) = Some x \<Longrightarrow> aligned 2 x"
    and next_pc: "e_next e = word_pc k'" "e_next e' = word_pc k' + base"
    and regs: "same_regs k' (case e_write e of None \<Rightarrow> aregs A | Some (rd, v) \<Rightarrow> write_port True rd v (aregs A))
        (case e_write e' of None \<Rightarrow> rv_regs S | Some (rd, v) \<Rightarrow> write_port True rd v (rv_regs S))"
    and store: "e_store e = None \<and> e_store e' = None
        \<or> (\<exists>j v. e_store e = Some (word_pc j, v) \<and> e_store e' = Some (word_pc j + base, v) \<and> length P \<le> j \<and> j < 1024)"
    and writes: "case e_write e of None \<Rightarrow> e_write e' = None
        | Some (rd, v) \<Rightarrow> \<exists>v'. e_write e' = Some (rd, v') \<and> v' \<in> {v, v + base}"
  shows "\<exists>f S'. rv_step S = Some (f, S') \<and> ev_instr f = i \<and> event_moved (isa_event (program_rom P) outside A) f
    \<and> shifted P k' (isa_step (program_rom P) outside A) S'"
proof -
  have p: "apc A = word_pc k" "rv_pc S = word_pc k + base" using assms(1) by (simp_all add: shifted_def)
  have fetch: "word_of (rv_mem S) (rv_pc S) = i" using assms(1-3,5) by (simp add: shifted_def)
  let ?x = "access_of (rv_address i (rv_reg S (i_rs1 i))) e'"
  have x: "rv_execute i S = retire i (e_next e') (e_write e') ?x (memory_after e' (rv_mem S)) S"
    by (rule rv_execute_isa [OF assms(4) _ al]) (simp add: e(2) p(2))
  let ?f = "\<lparr>ev_pc = rv_pc S, ev_instr = i, ev_write = e_write e', ev_access = ?x\<rparr>"
  let ?S = "\<lparr>rv_pc = e_next e', rv_regs = (case e_write e' of None \<Rightarrow> rv_regs S | Some (rd, v) \<Rightarrow> write_port True rd v (rv_regs S)),
    rv_mem = memory_after e' (rv_mem S)\<rparr>"
  have "rv_step S = Some (?f, ?S)"
    using aligned_base [of k'] by (simp add: rv_step_def fetch x next_pc(2) write_port_def split: option.splits)
  moreover have "event_moved (isa_event (program_rom P) outside A) ?f"
    using writes store by (auto simp: event_moved_def isa_event_def e(1) [symmetric] p access_of_def split: option.splits)
  moreover have "shifted P k' (isa_step (program_rom P) outside A) ?S"
    using assms(1) store ram_word word_of_put word_of_put_other
    by (auto simp: shifted_def isa_step_def apply_effect_def e(1) [symmetric] next_pc regs memory_after_def data_mem_write_def)
  ultimately show ?thesis by (intro exI [of _ ?f] exI [of _ ?S]) simp
qed


text \<open>The effects of a position-independent instruction on operands of which x31 is ahead by the base.\<close>

definition moved_write :: "(5 word \<times> u32w) option \<Rightarrow> (5 word \<times> u32w) option \<Rightarrow> bool" where
  "moved_write w w' \<longleftrightarrow>
     (case w of None \<Rightarrow> w' = None
      | Some (rd, v) \<Rightarrow> \<exists>v'. w' = Some (rd, v') \<and> v' \<in> {v, v + base}
          \<and> (rd = 31 \<longrightarrow> v' = v + base) \<and> (rd \<noteq> 31 \<and> rd \<noteq> 0 \<longrightarrow> v' = v))"

lemma relocatable_effects:
  fixes i p :: u32w
  assumes "relocatable i" and a: "a' = (if i_rs1 i = 31 then a + base else a)"
    and b: "b' = (if i_rs2 i = 31 then b + base else b)"
    and load: "i_opcode i = 0x03 \<Longrightarrow> load' (a + imm_i i + base) = load (a + imm_i i)"
  defines "e \<equiv> isa_effect load i p a b" and "e' \<equiv> isa_effect load' i (p + base) a' b'"
  shows "e_next e' = e_next e + base \<and> moved_write (e_write e) (e_write e')
    \<and> e_store e' = map_option (\<lambda>(x, v). (x + base, v)) (e_store e)"
proof -
  from assms(1) consider "i_opcode i = 0x33" "i_rd i \<noteq> 31" "i_rs1 i \<noteq> 31" "i_rs2 i \<noteq> 31"
    | "i_opcode i = 0x13" "i_rd i \<noteq> 31" "i_rs1 i \<noteq> 31" | "i_opcode i = 0x13" "i_rd i = 31" "i_rs1 i = 31" "i_funct3 i = 0"
    | "i_opcode i = 0x03" "i_rd i \<noteq> 31" "i_rs1 i = 31" | "i_opcode i = 0x23" "i_rs1 i = 31" "i_rs2 i \<noteq> 31"
    | "i_opcode i = 0x63" "i_rs1 i \<noteq> 31" "i_rs2 i \<noteq> 31" | "i_opcode i = 0x6F" "i_rd i = 0"
    unfolding relocatable_def Let_def by blast
  then show ?thesis
  proof cases
    case 3
    then have "isa_alu (f_funct3 i) False (bit i 30) x y = x + y" for x y
      by (subst alu_i_rv) (simp_all add: rv_op_def)
    with 3 show ?thesis by (simp add: e_def e'_def isa_effect_opcode a moved_write_def algebra_simps)
  next
    case 4
    with load show ?thesis by (simp add: e_def e'_def isa_effect_opcode a moved_write_def algebra_simps)
  qed (simp_all add: e_def e'_def isa_effect_opcode a b moved_write_def algebra_simps)
qed

lemma relocatable_base: "relocatable i \<Longrightarrow> i_opcode i = 0x03 \<or> i_opcode i = 0x23 \<Longrightarrow> i_rs1 i = 31"
  by (elim disjE) (simp_all add: relocatable_def)

lemma moved_regs:
  assumes "same_regs k R R'" "32 \<le> k" "32 \<le> k'" "moved_write w w'"
  shows "same_regs k' (case w of None \<Rightarrow> R | Some (rd, v) \<Rightarrow> write_port True rd v R)
    (case w' of None \<Rightarrow> R' | Some (rd, v) \<Rightarrow> write_port True rd v R')"
  using assms by (auto simp: same_regs_def moved_write_def write_port_def split: option.splits)

section \<open>Position-independent programs\<close>

text \<open>
  The preamble clears x1 to x31, the word behind it sets x31 from the program counter, and the rest is
  position independent and does not jump back behind the setting of x31.
\<close>

definition relocatable_program :: "int list \<Rightarrow> nat \<Rightarrow> bool" where
  "relocatable_program P e \<longleftrightarrow>
     replayable (program_rom P) e \<and> length P = Suc e \<and> 32 \<le> e
     \<and> (\<forall>k < 31. P ! k = encode (OpI 0 (int k + 1) 0 0))
     \<and> (\<exists>hi. fits 20 hi \<and> P ! 31 = encode (OpAuipc 31 hi))
     \<and> (\<forall>k \<in> {32..e}. core_legal (word_of_int (P ! k)) \<and> relocatable (word_of_int (P ! k))
          \<and> (\<forall>t \<le> e. jumps_to (program_rom P) k t \<longrightarrow> 32 \<le> t))"

lemma relocatable_size:
  assumes "relocatable_program P e"
  shows "length P = Suc e" "length P \<le> 1022" "32 \<le> e" "replayable (program_rom P) e"
  using assms replayable_def [of "program_rom P" e] unfolding relocatable_program_def by simp_all

lemma relocatable_word:
  assumes "relocatable_program P e" "32 \<le> k" "k \<le> e"
  shows "core_legal (word_of_int (P ! k))" "relocatable (word_of_int (P ! k))"
    "t \<le> e \<Longrightarrow> jumps_to (program_rom P) k t \<Longrightarrow> 32 \<le> t"
proof -
  have "k \<in> {32..e}" using assms(2,3) by simp
  then have "core_legal (word_of_int (P ! k)) \<and> relocatable (word_of_int (P ! k))
      \<and> (\<forall>t \<le> e. jumps_to (program_rom P) k t \<longrightarrow> 32 \<le> t)"
    using assms(1) unfolding relocatable_program_def by blast
  then show "core_legal (word_of_int (P ! k))" "relocatable (word_of_int (P ! k))"
    "t \<le> e \<Longrightarrow> jumps_to (program_rom P) k t \<Longrightarrow> 32 \<le> t" by blast+
qed

lemma word_pc_4: "word_pc k + base + 4 = word_pc (Suc k) + base" "word_pc k + 4 = word_pc (Suc k)"
  by (simp_all add: word_pc_def algebra_simps)

lemma fields_5: "i_rd i = ucast (f_rd i)" "i_rs1 i = ucast (f_rs1 i)" "i_rs2 i = ucast (f_rs2 i)"
  unfolding f_ucast by (rule bit_word_eqI; auto simp: bit_simps)+

lemma write_port_nonzero: "rd \<noteq> 0 \<Longrightarrow> write_port True rd v R = R(rd := v)"
  by (simp add: write_port_def)

lemma write_port_31: "write_port True 31 v R = R(31 := v)"
  by (rule write_port_nonzero) (simp add: word_unat_eq_iff)


lemma clearing_word:
  assumes "k < 31"
  defines "i \<equiv> word_of_int (encode (OpI 0 (int k + 1) 0 0))"
  shows "i_opcode i = 0x13" "i_funct3 i = 0" "i_rs1 i = 0" "i_rd i = word_of_nat (Suc k)" "imm_i i = 0" "core_legal i"
proof -
  have f: "fits 5 (int k + 1)" using assms(1) by (simp add: fits_def)
  have *: "f_opcode i = 0x13" "f_funct3 i = 0" "f_rd i = word_of_nat (Suc k)" "f_rs1 i = 0"
    unfolding i_def using f by (simp_all add: fields_i reg_names_fit fits_def)
  then show o: "i_opcode i = 0x13" "i_funct3 i = 0" by (simp_all add: opcode_iff [symmetric] funct_iff [symmetric])
  have "(ucast (word_of_nat (Suc k) :: u32w) :: 5 word) = word_of_nat (Suc k)"
    by (rule bit_word_eqI) (simp add: bit_simps del: of_nat_Suc; auto)
  then show "i_rs1 i = 0" "i_rd i = word_of_nat (Suc k)" unfolding fields_5 * by simp_all
  show "imm_i i = 0" unfolding rv_imm_i i_def
    using imm_I [of "0x13" 0 "int k + 1" 0 0] f by (simp add: fits_def sfits_def)
  show "core_legal i" using o by (simp add: core_legal_def)
qed

lemma auipc_word:
  assumes "fits 20 hi"
  defines "i \<equiv> word_of_int (encode (OpAuipc 31 hi))"
  shows "i_opcode i = 0x17" "i_rd i = 31" "core_legal i"
proof -
  have *: "f_opcode i = 0x17" "f_rd i = 31"
    unfolding i_def using assms(1) by (simp_all add: fields_u reg_names_fit fits_def)
  then show o: "i_opcode i = 0x17" by (simp add: opcode_iff [symmetric])
  show "i_rd i = 31" unfolding fields_5 * by simp
  show "core_legal i" using o by (simp add: core_legal_def)
qed

text \<open>The setup: each word of the preamble clears one register on both sides, then x31 is set.\<close>

lemma shifted_preamble:
  assumes "shifted P k A S" "relocatable_program P e" "k < 31"
  shows "\<exists>f S'. rv_step S = Some (f, S') \<and> ev_instr f = word_of_int (P ! k) \<and> event_moved (isa_event (program_rom P) outside A) f
    \<and> shifted P (Suc k) (isa_step (program_rom P) outside A) S'"
proof -
  have P: "length P = Suc e" "length P \<le> 1024" "k < length P"
    using relocatable_size [OF assms(2)] assms(3) by simp_all
  have Pk: "P ! k = encode (OpI 0 (int k + 1) 0 0)" using assms(2,3) unfolding relocatable_program_def by blast
  let ?i = "word_of_int (P ! k) :: u32w"
  note w = clearing_word [OF assms(3), folded Pk]
  have pcs: "apc A = word_pc k" "rv_pc S = word_pc k + base" using assms(1) by (simp_all add: shifted_def)
  have im: "instruction_mem (program_rom P) (word_pc k) = ?i"
    using P(1-3) by (simp add: instruction_mem_word rom_word_program)
  have zero: "isa_alu (f_funct3 ?i) False (bit ?i 30) 0 0 = 0" by (subst alu_i_rv) (simp_all add: w rv_op_def)
  have e: "effect_at (program_rom P) outside A = \<lparr>e_write = Some (word_of_nat (Suc k), 0), e_store = None, e_next = word_pc (Suc k)\<rparr>"
    by (simp add: effect_at_def pcs im Let_def isa_effect_opcode w areg_def zero word_pc_4)
  have e': "isa_effect (word_of (rv_mem S)) ?i (word_pc k + base) (rv_reg S (i_rs1 ?i)) (rv_reg S (i_rs2 ?i))
      = \<lparr>e_write = Some (word_of_nat (Suc k), 0), e_store = None, e_next = word_pc (Suc k) + base\<rparr>"
    by (simp add: isa_effect_opcode w rv_reg_def zero word_pc_4)
  show ?thesis
  proof (rule shifted_effects [OF assms(1) P(3,2) w(6) refl e [symmetric] e' [symmetric]])
    show "rv_address ?i (rv_reg S (i_rs1 ?i)) = Some x \<Longrightarrow> aligned 2 x" for x by (simp add: rv_address_def w)
    have n: "unat (word_of_nat (Suc k) :: 5 word) = Suc k" using assms(3) by (simp add: unsigned_of_nat take_bit_nat_eq_self del: of_nat_Suc)
    then have nz: "word_of_nat (Suc k) \<noteq> (0 :: 5 word)" by (metis nat.distinct(1) unsigned_0)
    have r: "unat r < 32" "r = 31 \<longleftrightarrow> unat r = 31" "r = word_of_nat (Suc k) \<longleftrightarrow> unat r = Suc k" for r :: "5 word"
      using unsigned_less [of r, where ?'a = nat] n by (simp, simp add: word_unat_eq_iff, metis word_unat_eq_iff)
    have old: "rv_regs S r = aregs A r" if "r \<noteq> 0" "unat r \<le> k" for r
      using assms(1,3) that r(2) [of r] by (simp add: shifted_def same_regs_def)
    have "same_regs (Suc k) ((aregs A)(word_of_nat (Suc k) := 0)) ((rv_regs S)(word_of_nat (Suc k) := 0))"
      unfolding same_regs_def
    proof (intro conjI allI impI)
      fix r :: "5 word"
      assume a: "r \<noteq> 0 \<and> r \<noteq> 31 \<and> (Suc k < 31 \<longrightarrow> unat r \<le> Suc k)"
      then have "unat r \<le> Suc k" using r(1,2) [of r] assms(3) by linarith
      then show "((rv_regs S)(word_of_nat (Suc k) := 0)) r = ((aregs A)(word_of_nat (Suc k) := 0)) r"
        using old [of r] a r(3) [of r] by (cases "unat r = Suc k") simp_all
    next
      assume "31 \<le> Suc k"
      then have "word_of_nat (Suc k) = (31 :: 5 word)" using assms(3) r(2) n by simp
      then show "((rv_regs S)(word_of_nat (Suc k) := 0)) 31 = ((aregs A)(word_of_nat (Suc k) := 0)) 31 + (if 32 \<le> Suc k then base else 0)"
        using assms(3) by (simp del: of_nat_Suc)
    qed
    then show "same_regs (Suc k)
      (case e_write \<lparr>e_write = Some (word_of_nat (Suc k), 0), e_store = None, e_next = word_pc (Suc k)\<rparr> of None \<Rightarrow> aregs A
       | Some (rd, v) \<Rightarrow> write_port True rd v (aregs A))
      (case e_write \<lparr>e_write = Some (word_of_nat (Suc k), 0), e_store = None, e_next = word_pc (Suc k) + base\<rparr> of None \<Rightarrow> rv_regs S
       | Some (rd, v) \<Rightarrow> write_port True rd v (rv_regs S))"
      by (simp only: effect.simps option.case prod.case write_port_nonzero [OF nz])
  qed simp_all
qed

lemma shifted_auipc:
  assumes "shifted P 31 A S" "relocatable_program P e"
  shows "\<exists>f S'. rv_step S = Some (f, S') \<and> ev_instr f = word_of_int (P ! 31) \<and> event_moved (isa_event (program_rom P) outside A) f
    \<and> shifted P 32 (isa_step (program_rom P) outside A) S'"
proof -
  obtain hi where hi: "fits 20 hi" "P ! 31 = encode (OpAuipc 31 hi)" using assms(2) by (auto simp: relocatable_program_def)
  have P: "length P = Suc e" "length P \<le> 1024" "31 < length P"
    using relocatable_size [OF assms(2)] by simp_all
  let ?i = "word_of_int (P ! 31) :: u32w"
  note w = auipc_word [OF hi(1), folded hi(2)]
  have pcs: "apc A = word_pc 31" "rv_pc S = word_pc 31 + base" using assms(1) by (simp_all add: shifted_def)
  have im: "instruction_mem (program_rom P) (word_pc 31) = ?i"
    using P by (simp add: instruction_mem_word rom_word_program)
  have n: "Suc 31 = 32" by simp
  have e: "effect_at (program_rom P) outside A = \<lparr>e_write = Some (31, word_pc 31 + imm_u ?i), e_store = None, e_next = word_pc 32\<rparr>"
    by (simp add: effect_at_def pcs im Let_def isa_effect_opcode w word_pc_4 n)
  have e': "isa_effect (word_of (rv_mem S)) ?i (word_pc 31 + base) (rv_reg S (i_rs1 ?i)) (rv_reg S (i_rs2 ?i))
      = \<lparr>e_write = Some (31, word_pc 31 + base + imm_u ?i), e_store = None, e_next = word_pc 32 + base\<rparr>"
    by (simp add: isa_effect_opcode w word_pc_4 n)
  show ?thesis
  proof (rule shifted_effects [OF assms(1) P(3,2) w(3) refl e [symmetric] e' [symmetric]])
    show "rv_address ?i (rv_reg S (i_rs1 ?i)) = Some x \<Longrightarrow> aligned 2 x" for x by (simp add: rv_address_def w)
    have "same_regs 32 ((aregs A)(31 := v)) ((rv_regs S)(31 := v + base))" for v
      using assms(1) by (simp add: shifted_def same_regs_def)
    from this [of "word_pc 31 + imm_u ?i"] show "same_regs 32
      (case e_write \<lparr>e_write = Some (31, word_pc 31 + imm_u ?i), e_store = None, e_next = word_pc 32\<rparr> of None \<Rightarrow> aregs A
       | Some (rd, v) \<Rightarrow> write_port True rd v (aregs A))
      (case e_write \<lparr>e_write = Some (31, word_pc 31 + base + imm_u ?i), e_store = None, e_next = word_pc 32 + base\<rparr> of None \<Rightarrow> rv_regs S
       | Some (rd, v) \<Rightarrow> write_port True rd v (rv_regs S))"
      by (simp only: effect.simps option.case prod.case write_port_31 add.assoc add.commute [of base])
  qed (simp_all add: algebra_simps)
qed


text \<open>Behind the setup, every instruction has the same effect but for the base in x31.\<close>

lemma shifted_rest:
  assumes "shifted P k A S" "relocatable_program P e" "32 \<le> k" "k \<le> e"
    and data: "\<And>x. rv_address (word_of_int (P ! k)) (areg (aregs A) (i_rs1 (word_of_int (P ! k)))) = Some x \<Longrightarrow>
      \<exists>j. x = word_pc j \<and> length P \<le> j \<and> j < 1024"
  shows "\<exists>k' f S'. k' \<le> e \<and> rv_step S = Some (f, S') \<and> ev_instr f = word_of_int (P ! k)
    \<and> event_moved (isa_event (program_rom P) outside A) f \<and> shifted P k' (isa_step (program_rom P) outside A) S'"
proof -
  let ?i = "word_of_int (P ! k) :: u32w" and ?im = "program_rom P"
  have P: "length P = Suc e" "length P \<le> 1024" "k < length P" "replayable ?im e"
    using relocatable_size [OF assms(2)] assms(4) by simp_all
  note i = relocatable_word [OF assms(2-4)]
  have pcs: "apc A = word_pc k" "rv_pc S = word_pc k + base" and rg: "same_regs k (aregs A) (rv_regs S)"
    using assms(1) by (simp_all add: shifted_def)
  have im: "instruction_mem ?im (word_pc k) = ?i"
    using P(1-3) by (simp add: instruction_mem_word rom_word_program)
  have r: "rv_reg S x = (if x = 31 then areg (aregs A) x + base else areg (aregs A) x)" for x
    using rg assms(3) by (auto simp: rv_reg_def areg_def same_regs_def)
  let ?a = "areg (aregs A) (i_rs1 ?i)" and ?b = "areg (aregs A) (i_rs2 ?i)"
  let ?e = "effect_at ?im outside A"
  let ?e' = "isa_effect (word_of (rv_mem S)) ?i (word_pc k + base) (rv_reg S (i_rs1 ?i)) (rv_reg S (i_rs2 ?i))"
  have e: "?e = isa_effect (ram_read outside (adata A)) ?i (word_pc k) ?a ?b"
    by (simp add: effect_at_def pcs im Let_def)
  have mem: "word_of (rv_mem S) (x + base) = ram_read outside (adata A) x" if "x = word_pc j" "length P \<le> j" "j < 1024" for x j
    using assms(1) that ram_word [of j] by (simp add: shifted_def ram_read_def)
  have ld: "word_of (rv_mem S) (?a + imm_i ?i + base) = ram_read outside (adata A) (?a + imm_i ?i)" if "i_opcode ?i = 0x03"
    using data [of "?a + imm_i ?i"] mem that by (auto simp: rv_address_def)
  note eff = relocatable_effects [where i = ?i and p = "word_pc k" and load = "ram_read outside (adata A)"
      and load' = "word_of (rv_mem S)" and a = ?a and a' = "rv_reg S (i_rs1 ?i)" and b = ?b
      and b' = "rv_reg S (i_rs2 ?i)", OF i(2) r r ld, folded e]
  obtain k' where k': "k' \<le> e" "32 \<le> k'" "apc (isa_step ?im outside A) = word_pc k'"
  proof (cases "k = e")
    case True
    with that [of e] assms(3) isa_end_stays [OF P(4), of A outside] pcs(1) show ?thesis by simp
  next
    case False
    with isa_next_address [OF P(4) pcs(1), of outside] i(3) assms(3,4) that show ?thesis by force
  qed
  have n: "e_next ?e = word_pc k'" using k'(3) by (simp add: isa_step_def apply_effect_def)
  have addr: "rv_address ?i (rv_reg S (i_rs1 ?i)) = map_option (\<lambda>x. x + base) (rv_address ?i ?a)"
    using relocatable_base [OF i(2)] r [of "i_rs1 ?i"] by (simp add: rv_address_def algebra_simps)
  have store: "e_store ?e = Some (x, v) \<Longrightarrow> rv_address ?i ?a = Some x" for x v
    unfolding e isa_effect_def Let_def opcode_iff rv_address_def rv_imm_s by (auto split: if_splits)
  have "\<exists>f S'. rv_step S = Some (f, S') \<and> ev_instr f = ?i
    \<and> event_moved (isa_event ?im outside A) f \<and> shifted P k' (isa_step ?im outside A) S'"
  proof (rule shifted_effects [OF assms(1) P(3,2) i(1) refl refl refl])
    show "aligned 2 x" if "rv_address ?i (rv_reg S (i_rs1 ?i)) = Some x" for x
      using data that aligned_base unfolding addr by auto
    show "e_next ?e = word_pc k'" "e_next ?e' = word_pc k' + base" using n eff by simp_all
    show "same_regs k' (case e_write ?e of None \<Rightarrow> aregs A | Some (rd, v) \<Rightarrow> write_port True rd v (aregs A))
        (case e_write ?e' of None \<Rightarrow> rv_regs S | Some (rd, v) \<Rightarrow> write_port True rd v (rv_regs S))"
      using moved_regs [OF rg assms(3) k'(2)] eff by blast
    show "e_store ?e = None \<and> e_store ?e' = None
        \<or> (\<exists>j v. e_store ?e = Some (word_pc j, v) \<and> e_store ?e' = Some (word_pc j + base, v) \<and> length P \<le> j \<and> j < 1024)"
      using eff store data by (cases "e_store ?e") fastforce+
    show "case e_write ?e of None \<Rightarrow> e_write ?e' = None
        | Some (rd, v) \<Rightarrow> \<exists>v'. e_write ?e' = Some (rd, v') \<and> v' \<in> {v, v + base}"
      using eff by (auto simp: moved_write_def split: option.splits)
  qed
  then show ?thesis using k'(1) by blast
qed

section \<open>Runs\<close>

text \<open>Every load and store of the core on its way from \<open>A\<close> on is to an aligned word behind the program.\<close>

definition stays_in_window :: "int list \<Rightarrow> (u32w \<Rightarrow> u32w) \<Rightarrow> arch \<Rightarrow> bool" where
  "stays_in_window P outside A \<longleftrightarrow>
     (\<forall>N. let A' = (isa_step (program_rom P) outside ^^ N) A; i = instruction_mem (program_rom P) (apc A')
          in \<forall>x. rv_address i (areg (aregs A') (i_rs1 i)) = Some x \<longrightarrow> (\<exists>j. x = word_pc j \<and> length P \<le> j \<and> j < 1024))"

lemma stays_in_window_step: "stays_in_window P outside A \<Longrightarrow> stays_in_window P outside (isa_step (program_rom P) outside A)"
proof -
  assume s: "stays_in_window P outside A"
  show ?thesis unfolding stays_in_window_def
  proof
    fix N
    show "let A' = (isa_step (program_rom P) outside ^^ N) (isa_step (program_rom P) outside A); i = instruction_mem (program_rom P) (apc A')
      in \<forall>x. rv_address i (areg (aregs A') (i_rs1 i)) = Some x \<longrightarrow> (\<exists>j. x = word_pc j \<and> length P \<le> j \<and> j < 1024)"
      using s [unfolded stays_in_window_def, rule_format, of "Suc N"] unfolding funpow_Suc_right o_apply .
  qed
qed

definition beside :: "int list \<Rightarrow> (u32w \<Rightarrow> u32w) \<Rightarrow> arch \<Rightarrow> rv \<Rightarrow> bool" where
  "beside P outside A S \<longleftrightarrow> stays_in_window P outside A
     \<and> (\<exists>e k. relocatable_program P e \<and> k \<le> e \<and> shifted P k A S)"

text \<open>The event carries the instruction word at its address.\<close>

definition event_logged :: "int list \<Rightarrow> event \<Rightarrow> rv_event \<Rightarrow> bool" where
  "event_logged P ev f \<longleftrightarrow> event_moved ev f \<and> ev_instr f = instruction_mem (program_rom P) (fst ev)"

lemma beside_step:
  assumes "beside P outside A S"
  shows "\<exists>f S'. rv_step S = Some (f, S') \<and> event_logged P (isa_event (program_rom P) outside A) f
    \<and> beside P outside (isa_step (program_rom P) outside A) S'"
proof -
  obtain e k where k: "relocatable_program P e" "k \<le> e" "shifted P k A S" and w: "stays_in_window P outside A"
    using assms by (auto simp: beside_def)
  note len = relocatable_size [OF k(1)]
  have p: "apc A = word_pc k" using k(3) by (simp add: shifted_def)
  have im: "instruction_mem (program_rom P) (apc A) = word_of_int (P ! k)"
    using k(2) len by (simp add: p instruction_mem_word rom_word_program)
  have data: "\<exists>j. x = word_pc j \<and> length P \<le> j \<and> j < 1024"
    if "rv_address (word_of_int (P ! k)) (areg (aregs A) (i_rs1 (word_of_int (P ! k)))) = Some x" for x
    using w [unfolded stays_in_window_def Let_def, rule_format, of 0 x] that im by simp
  have "\<exists>k' f S'. k' \<le> e \<and> rv_step S = Some (f, S') \<and> ev_instr f = word_of_int (P ! k)
    \<and> event_moved (isa_event (program_rom P) outside A) f \<and> shifted P k' (isa_step (program_rom P) outside A) S'"
  proof -
    consider "k < 31" | "k = 31" | "32 \<le> k" by linarith
    then show ?thesis
    proof cases
      case 1
      then have "Suc k \<le> e" using len(3) by linarith
      with shifted_preamble [OF k(3,1) 1, of outside] show ?thesis by blast
    next
      case 2
      with shifted_auipc [OF k(3) [unfolded 2] k(1), of outside] len(3) show ?thesis unfolding 2 by blast
    next
      case 3
      from shifted_rest [OF k(3,1) 3 k(2) data] show ?thesis .
    qed
  qed
  then show ?thesis using k(1) stays_in_window_step [OF w] im
    unfolding beside_def event_logged_def by (auto simp: isa_event_def)
qed

text \<open>The program at the base keeps step with the program at zero.\<close>

interpretation relocation: lockstep "isa_step (program_rom P) outside" "isa_event (program_rom P) outside" rv_step
    "beside P outside" "event_logged P" for P outside
  by unfold_locales (rule beside_step)

end
