(* ===== verification/Relocated.thy ===== *)
theory Relocated
  imports Relocation
begin

text \<open>
  Every generated program is position independent (\<open>built_relocatable\<close>) and accesses memory behind
  itself only (\<open>built_stays\<close>).
\<close>

section \<open>Instructions\<close>

fun relocatable_op :: "op \<Rightarrow> bool" where
  "relocatable_op (OpR f3 f7 rd rs1 rs2) = (rd \<noteq> 31 \<and> rs1 \<noteq> 31 \<and> rs2 \<noteq> 31)"
| "relocatable_op (OpI f3 rd rs1 imm) = (rd \<noteq> 31 \<and> rs1 \<noteq> 31 \<or> rd = 31 \<and> rs1 = 31 \<and> f3 = 0)"
| "relocatable_op (OpShift f3 f7 rd rs1 sh) = (rd \<noteq> 31 \<and> rs1 \<noteq> 31)"
| "relocatable_op (OpLoad rd rs1 imm) = (rd \<noteq> 31 \<and> rs1 = 31)"
| "relocatable_op (OpStore rs1 rs2 imm) = (rs1 = 31 \<and> rs2 \<noteq> 31)"
| "relocatable_op (OpBranch f3 rs1 rs2 imm) = (rs1 \<noteq> 31 \<and> rs2 \<noteq> 31)"
| "relocatable_op (OpJal rd imm) = (rd = 0)"
| "relocatable_op (OpAuipc rd imm) = False"

lemma reg_31_iff:
  "i_rd i = 31 \<longleftrightarrow> f_rd i = 31" "i_rs1 i = 31 \<longleftrightarrow> f_rs1 i = 31" "i_rs2 i = 31 \<longleftrightarrow> f_rs2 i = 31" "i_rd i = 0 \<longleftrightarrow> f_rd i = 0"
  unfolding f_ucast ucast_up_iff(3) [symmetric] by simp_all

lemma fits_5_iff: "fits 5 r \<Longrightarrow> (word_of_int r :: u32w) = 31 \<longleftrightarrow> r = 31" "fits 5 r \<Longrightarrow> (word_of_int r :: u32w) = 0 \<longleftrightarrow> r = 0"
  by (auto simp: fits_def word_uint_eq_iff uint_word_of_int)

lemma relocatable_fields:
  "relocatable i \<longleftrightarrow>
     f_opcode i = 0x33 \<and> f_rd i \<noteq> 31 \<and> f_rs1 i \<noteq> 31 \<and> f_rs2 i \<noteq> 31
     \<or> f_opcode i = 0x13 \<and> (f_rd i \<noteq> 31 \<and> f_rs1 i \<noteq> 31 \<or> f_rd i = 31 \<and> f_rs1 i = 31 \<and> f_funct3 i = 0)
     \<or> f_opcode i = 0x03 \<and> f_rd i \<noteq> 31 \<and> f_rs1 i = 31
     \<or> f_opcode i = 0x23 \<and> f_rs1 i = 31 \<and> f_rs2 i \<noteq> 31
     \<or> f_opcode i = 0x63 \<and> f_rs1 i \<noteq> 31 \<and> f_rs2 i \<noteq> 31
     \<or> f_opcode i = 0x6F \<and> f_rd i = 0"
  unfolding relocatable_def Let_def reg_31_iff opcode_iff funct_iff by (rule refl)

lemma encode_relocatable:
  assumes "wf_op i" "relocatable_op i"
  shows "relocatable (word_of_int (encode i))"
proof (cases i)
  case (OpR f3 f7 rd rs1 rs2)
  then have "fits 3 f3" "fits 7 f7" using assms(1) by (auto simp: table_cases)
  with OpR assms show ?thesis by (simp add: relocatable_fields fields_r fits_5_iff)
next
  case (OpI f3 rd rs1 imm)
  then have "fits 3 f3" "(word_of_int f3 :: u32w) = 0 \<longleftrightarrow> f3 = 0" using assms(1) by (auto simp: table_cases)
  with OpI assms show ?thesis by (simp add: relocatable_fields fields_i fits_5_iff)
next
  case (OpShift f3 f7 rd rs1 sh)
  then have "fits 3 f3" "fits 7 f7" using assms(1) by (auto simp: table_cases)
  with OpShift assms show ?thesis by (simp add: relocatable_fields fields_shift fits_5_iff)
next
  case (OpBranch f3 rs1 rs2 imm)
  then have "fits 3 f3" using assms(1) by (auto simp: table_cases)
  with OpBranch assms show ?thesis by (simp add: relocatable_fields fields_b fits_5_iff)
qed (use assms in \<open>simp_all add: relocatable_fields fields_i fields_s fields_j fits_5_iff reg_names_fit\<close>)

lemma shift_funct7:
  assumes "fits 7 opc" "fits 3 f3" "fits 7 f7" "fits 5 rd" "fits 5 rs1" "fits 5 sh"
  shows "f_funct7 (word_of_int (enc_shift opc f3 f7 rd rs1 sh)) = word_of_int f7"
  unfolding field_woi [OF enc_fits(3)]
  using assms by (simp add: enc_shift_cat fits_take slice_simps del: cat.simps)

lemma core_legal_fields:
  "core_legal i \<longleftrightarrow>
     f_opcode i = 0x33 \<and> (f_funct7 i = 0 \<or> f_funct7 i = 0x20 \<and> (f_funct3 i = 0 \<or> f_funct3 i = 5))
     \<or> f_opcode i = 0x13 \<and> (f_funct3 i = 1 \<longrightarrow> f_funct7 i = 0) \<and> (f_funct3 i = 5 \<longrightarrow> f_funct7 i = 0 \<or> f_funct7 i = 0x20)
     \<or> (f_opcode i = 0x03 \<or> f_opcode i = 0x23) \<and> f_funct3 i = 2
     \<or> f_opcode i = 0x63 \<and> (f_funct3 i = 0 \<or> f_funct3 i = 1 \<or> f_funct3 i = 4 \<or> f_funct3 i = 5)
     \<or> f_opcode i = 0x67 \<and> f_funct3 i = 0
     \<or> f_opcode i = 0x6F \<or> f_opcode i = 0x37 \<or> f_opcode i = 0x17"
proof -
  have "f_funct7 i = 0 \<longleftrightarrow> i_funct7 i = 0" unfolding f_ucast ucast_up_iff [symmetric] by simp
  then show ?thesis unfolding core_legal_def Let_def opcode_iff funct_iff by simp
qed

lemma encode_legal:
  assumes "wf_op i"
  shows "core_legal (word_of_int (encode i))"
proof (cases i)
  case (OpR f3 f7 rd rs1 rs2)
  with assms have w: "(0x33, f3, f7) \<in> set R_TYPE" "fits 5 rd" "fits 5 rs1" "fits 5 rs2" by simp_all
  then have "core_legal (word_of_int (enc_r 0x33 f3 f7 rd rs1 rs2))"
    unfolding table_cases by (elim disjE conjE; simp add: core_legal_fields fields_r)
  with OpR show ?thesis by simp
next
  case (OpBranch f3 rs1 rs2 imm)
  with assms have w: "(0x63, f3) \<in> set BRANCHES" "fits 5 rs1" "fits 5 rs2" by simp_all
  then have "core_legal (word_of_int (enc_b 0x63 f3 rs1 rs2 imm))"
    unfolding table_cases by (elim disjE conjE; simp add: core_legal_fields fields_b)
  with OpBranch show ?thesis by simp
next
  case (OpI f3 rd rs1 imm)
  with assms have w: "(0x13, f3) \<in> set I_ARITH" "fits 5 rd" "fits 5 rs1" by simp_all
  then have "core_legal (word_of_int (enc_i 0x13 f3 rd rs1 imm))"
    unfolding table_cases by (elim disjE conjE; simp add: core_legal_fields fields_i)
  with OpI show ?thesis by simp
next
  case (OpShift f3 f7 rd rs1 sh)
  with assms have w: "(0x13, f3, f7) \<in> set I_SHIFT" "fits 5 rd" "fits 5 rs1" "fits 5 sh" by simp_all
  then have "core_legal (word_of_int (enc_shift 0x13 f3 f7 rd rs1 sh))"
    unfolding table_cases by (elim disjE conjE; simp add: core_legal_fields fields_shift shift_funct7)
  with OpShift show ?thesis by simp
qed (use assms in \<open>simp_all add: core_legal_fields fields_i fields_s fields_j fields_u\<close>)

section \<open>Programs\<close>

lemma plain_relocatable: "plain_op i \<Longrightarrow> relocatable_op i"
  by (cases i) (auto simp: gen_reg_ok_def)

lemma control_relocatable: "control_op d i \<Longrightarrow> relocatable_op i"
  by (cases i) (auto simp: gen_reg_ok_def)

lemma filled_relocatable: "filled p n rs bs \<Longrightarrow> \<forall>x \<in> set (ops_of bs). relocatable_op x"
proof (induction p n rs bs rule: filled.induct)
  case (4 p n rs trip body bs)
  then show ?case by (auto simp: loop_ops_def plain_relocatable)
qed (auto simp: slot_op_def plain_relocatable control_relocatable)

lemma ranges_from: "(a, b) \<in> set (ranges_of p bs) \<Longrightarrow> p \<le> a"
  by (induction p bs rule: ranges_of.induct) force+

text \<open>A jump of a built program does not go back behind the setting of x31.\<close>

lemma placed_above:
  assumes "jump_placed ops n (ranges_of (start_word n) bs) k imm" "op_jump (ops ! k) = Some imm" "imm = 4 * (int t - int k)" "32 \<le> k"
  shows "32 \<le> t"
proof -
  from assms(1) consider "imm = 0" | "forward_jump (int k - 31) n (ranges_of (start_word n) bs) imm"
    | "loop_jump ops k (int k - 31) (ranges_of (start_word n) bs) imm" unfolding jump_placed_def by blast
  then show ?thesis
  proof cases
    case 1
    then show ?thesis using assms(3,4) by simp
  next
    case 2
    then show ?thesis using assms(3,4) by (auto simp: forward_jump_def)
  next
    case 3
    then obtain l where l: "imm = - 4 * (int l + 1)" "(int k - 31 - int l - 2, int k - 31 + 1) \<in> set (ranges_of (start_word n) bs)"
      unfolding loop_jump_def by blast
    have "start_word n \<le> int k - 31 - int l - 2" using ranges_from [OF l(2)] .
    moreover have "1 \<le> start_word n" by (simp add: start_word_def)
    moreover have "int t - int k = - (int l + 1)" using l(1) assms(3) by simp
    ultimately have "32 \<le> int t" by linarith
    then show ?thesis by simp
  qed
qed


lemma base_ops_relocatable:
  assumes "1 \<le> n"
  obtains hi rest where "base_ops n = OpAuipc 31 hi # rest" "\<forall>x \<in> set rest. relocatable_op x"
  by (cases "split_offset ((31 + n + 1) * 4 - AUIPC_PC + LOAD_STORE_WINDOW)") (auto simp: base_ops_def Let_def intro: that)

lemma nth_behind: "\<forall>x \<in> set ys. Q x \<Longrightarrow> length xs \<le> k \<Longrightarrow> k < length (xs @ ys) \<Longrightarrow> Q ((xs @ ys) ! k)"
  by (simp add: nth_append)

lemma built_relocatable:
  assumes "build_full_program n t = (Inr (map Some P, r), t')"
  shows "relocatable_program P (nat n + 31)"
proof -
  let ?e = "nat n + 31"
  obtain bs where b: "P = map encode (program_ops n bs)" "filled (start_word n) n (ranges_of (start_word n) bs) bs" "1 \<le> n"
    "jumps_inside (program_ops n bs) ?e" "program_ops n bs ! ?e = OpBranch 0 0 0 0"
    "\<forall>k imm. k \<le> ?e \<and> op_jump (program_ops n bs ! k) = Some imm \<longrightarrow>
       jump_placed (program_ops n bs) n (ranges_of (start_word n) bs) k imm"
    by (rule built_program [OF assms])
  define ops where "ops = program_ops n bs"
  note b = b [folded ops_def]
  obtain hi rest where bo: "base_ops n = OpAuipc 31 hi # rest" "\<forall>x \<in> set rest. relocatable_op x"
    by (rule base_ops_relocatable [OF b(3)])
  let ?L = "map (\<lambda>r. OpI 0 r 0 0) [1..31]" and ?R = "rest @ ops_of bs @ [OpBranch 0 0 0 0]"
  have ops: "ops = (?L @ [OpAuipc 31 hi]) @ ?R" by (simp add: ops_def program_ops_def bo(1))
  have L: "length ?L = 31" by (simp add: length_upto)
  have len: "length ops = Suc ?e" and wf: "\<forall>x \<in> set ops. wf_op x" using b(4) by (simp_all add: jumps_inside_def)
  have auipc: "ops ! 31 = OpAuipc 31 hi" unfolding ops using L by (simp add: nth_append del: length_map)
  have clear: "ops ! k = OpI 0 (int k + 1) 0 0" if "k < 31" for k
  proof -
    have "ops ! k = ?L ! k" unfolding ops using L that by (simp add: nth_append del: length_map)
    also have "\<dots> = OpI 0 (int k + 1) 0 0" using that nth_upto [of 1 k 31] by (simp add: length_upto)
    finally show ?thesis .
  qed
  have "\<forall>x \<in> set ?R. relocatable_op x" using bo(2) filled_relocatable [OF b(2)] by auto
  then have rest: "relocatable_op (ops ! k)" if "32 \<le> k" "k \<le> ?e" for k
    using nth_behind [of ?R relocatable_op "?L @ [OpAuipc 31 hi]" k] len L that unfolding ops by simp
  have "core_legal (word_of_int (P ! k)) \<and> relocatable (word_of_int (P ! k))" if "32 \<le> k" "k \<le> ?e" for k
    using encode_legal encode_relocatable rest [OF that] wf that len by (simp add: b(1))
  moreover have "32 \<le> t" if k: "32 \<le> k" "k \<le> ?e" and t: "t \<le> ?e" "jumps_to (program_rom P) k t" for k t
  proof -
    have "program_jump ops k t" using ops_jumps_to [OF b(4) k(2) t(1)] t(2) by (simp add: b(1))
    then have j: "op_jump (ops ! k) = Some (4 * (int t - int k))" by (simp add: program_jump_def)
    then have "jump_placed ops n (ranges_of (start_word n) bs) k (4 * (int t - int k))" using b(6) k(2) by blast
    from placed_above [OF this j refl k(1)] show ?thesis .
  qed
  moreover have "fits 20 hi" using wf auipc len by (metis (no_types) le_add2 less_Suc_eq_le nth_mem wf_op.simps(8))
  moreover have "P ! k = encode (OpI 0 (int k + 1) 0 0)" if "k < 31" for k
    using clear [OF that] that len by (simp add: b(1) del: encode.simps)
  moreover have "P ! 31 = encode (OpAuipc 31 hi)" using auipc len by (simp add: b(1) del: encode.simps)
  moreover have "length P = Suc ?e" "32 \<le> ?e" using len b(1,3) by simp_all
  ultimately show ?thesis
    using built_replayable [OF assms] unfolding relocatable_program_def Ball_def atLeastAtMost_iff by blast
qed

section \<open>Accesses\<close>

lemma safe_run_tame:
  "safe_run P m c d \<Longrightarrow> same_state (length P) c A \<Longrightarrow> k < m \<Longrightarrow>
   \<exists>e. code P e \<and> tame P e \<and> same_state (length P) e ((isa_step (program_rom P) outside ^^ k) A)"
proof (induction arbitrary: k A rule: safe_run.induct)
  case (turn P c c1 m d)
  show ?case
  proof (cases k)
    case 0
    with turn show ?thesis by auto
  next
    case (Suc k')
    have "same_state (length P) c1 (isa_step (program_rom P) outside A)"
      by (rule tame_step) (use turn in auto)
    from turn.IH [OF this, of k'] Suc turn.prems(2) show ?thesis by (simp add: funpow_swap1)
  qed
qed simp

lemma data_address_rv: "data_address i c = rv_address i (Cpp_Sim.reg c (f_rs1 i))"
  by (simp add: data_address_def rv_address_def opcode_iff rv_immediates)

lemma tame_stays:
  assumes "code P c" "tame P c" "same_state (length P) c A"
    and "rv_address (instruction_mem (program_rom P) (apc A)) (areg (aregs A) (i_rs1 (instruction_mem (program_rom P) (apc A)))) = Some x"
  shows "\<exists>j. x = word_pc j \<and> length P \<le> j \<and> j < 1024"
proof -
  obtain j i where i: "0 \<le> j" "j < int (length P)" "cpu.pc c = addr j" "P ! nat j = encode i" "wf_op i" "window_op i"
    "accesses i \<longrightarrow> base_set P c"
    using assms(2) by (auto simp: tame_def)
  have "apc A = cpu.pc c" using assms(3) by (simp add: same_state_def)
  then have im: "instruction_mem (program_rom P) (apc A) = word_of_int (encode i)"
    using program_at [of P j] i(1-4) assms(1) by (simp add: code_def)
  have "data_address (word_of_int (encode i)) c = Some x"
    using assms(4) same_reg [OF assms(3)] unfolding im data_address_rv by (simp add: f_ucast)
  then show ?thesis by (rule tame_address [OF assms(1) i(5-7)])
qed

lemma built_stays:
  assumes "build_full_program n t = (Inr (map Some P, r), t')"
  shows "stays_in_window P outside start_arch"
proof -
  obtain c m d where c: "same_state (length P) c start_arch" "\<forall>k. safe_run P (m + k) c d"
    by (rule built_endless [OF assms])
  show ?thesis
    unfolding stays_in_window_def Let_def
  proof (intro allI impI)
    fix N x
    let ?A = "(isa_step (program_rom P) outside ^^ N) start_arch"
    assume x: "rv_address (instruction_mem (program_rom P) (apc ?A)) (areg (aregs ?A) (i_rs1 (instruction_mem (program_rom P) (apc ?A)))) = Some x"
    from safe_run_tame [OF c(2) [rule_format, of "Suc N"] c(1), of N outside] obtain e where
      "code P e" "tame P e" "same_state (length P) e ?A" by auto
    from tame_stays [OF this x] show "\<exists>j. x = word_pc j \<and> length P \<le> j \<and> j < 1024" .
  qed
qed

end
