(* ===== verification/Keyed_Fifo.thy ===== *)
theory Keyed_Fifo
  imports Prelude "HOL-Library.Mapping" "HOL-Library.AList_Mapping"
begin

text \<open>
  The two dictionaries of queues in \<open>spike_log_parser.py\<close> (\<open>reg_by_line_context\<close> and
  \<open>mem_by_line_context\<close>): \<open>setdefault(key, []).append(v)\<close> while the log is read, \<open>pop(0)\<close> while the
  retired instructions are walked. The locale states the contract of a FIFO queue per key and proves
  the correlation argument of the source's comment (lines 129-135): the pops return each
  instruction's own commit, provided instructions with the same key either all commit or none does.
\<close>

locale keyed_fifo =
  fixes queue :: "'m \<Rightarrow> 'k \<Rightarrow> 'v list"
    and push :: "'k \<Rightarrow> 'v \<Rightarrow> 'm \<Rightarrow> 'm"
    and pop :: "'k \<Rightarrow> 'm \<Rightarrow> 'v option \<times> 'm"
  assumes queue_push: "queue (push k v m) j = (if j = k then queue m k @ [v] else queue m j)"
    and pop_value: "fst (pop k m) = (case queue m k of [] \<Rightarrow> None | v # vs \<Rightarrow> Some v)"
    and queue_pop: "queue (snd (pop k m)) j = (if j = k then tl (queue m k) else queue m j)"

text \<open>Popping a list of keys in order, and pushing the commits that are present.\<close>

fun pop_all :: "('k \<Rightarrow> 'm \<Rightarrow> 'v option \<times> 'm) \<Rightarrow> 'k list \<Rightarrow> 'm \<Rightarrow> 'v option list" where
  "pop_all pop_one [] m = []"
| "pop_all pop_one (k # ks) m = (let (v, m') = pop_one k m in v # pop_all pop_one ks m')"

fun push_all :: "('k \<Rightarrow> 'v \<Rightarrow> 'm \<Rightarrow> 'm) \<Rightarrow> ('k \<times> 'v option) list \<Rightarrow> 'm \<Rightarrow> 'm" where
  "push_all push_one [] m = m"
| "push_all push_one ((k, v) # es) m =
     push_all push_one es (case v of Some x \<Rightarrow> push_one k x m | None \<Rightarrow> m)"

definition commits :: "'k \<Rightarrow> ('k \<times> 'v option) list \<Rightarrow> 'v list" where
  "commits k es = List.map_filter (\<lambda>e. if fst e = k then snd e else None) es"

definition uniform :: "('k \<times> 'v option) list \<Rightarrow> bool" where
  "uniform es \<longleftrightarrow> (\<forall>e \<in> set es. \<forall>f \<in> set es. fst e = fst f \<longrightarrow> (snd e = None) = (snd f = None))"

lemma commits_simps [simp]:
  "commits k [] = []"
  "commits k ((j, v) # es) = (if j = k then (case v of Some x \<Rightarrow> x # commits k es | None \<Rightarrow> commits k es)
                              else commits k es)"
  by (simp_all add: commits_def List.map_filter_simps split: option.splits)

lemma commits_none: "\<forall>e \<in> set es. fst e = k \<longrightarrow> snd e = None \<Longrightarrow> commits k es = []"
proof (induction es)
  case (Cons e es)
  then show ?case by (cases e) auto
qed simp

lemma uniform_rest: "uniform (e # es) \<Longrightarrow> uniform es"
  unfolding uniform_def by (meson list.set_intros(2))

lemma uniform_head:
  assumes "uniform ((j, v) # es)" "f \<in> set es" "fst f = j"
  shows "(snd f = None) = (v = None)"
proof -
  have "(snd f = None) = (snd (j, v) = None)"
    using assms unfolding uniform_def by (metis fst_conv list.set_intros(1,2))
  then show ?thesis by simp
qed

context keyed_fifo begin

lemma queue_push_all: "queue (push_all push es m) k = queue m k @ commits k es"
proof (induction es arbitrary: m)
  case (Cons e es)
  obtain j v where e: "e = (j, v)" by (cases e)
  show ?case unfolding e by (cases v) (simp_all add: Cons.IH queue_push)
qed simp

lemma pop_all_commits:
  "\<forall>k. queue m k = commits k es \<Longrightarrow> uniform es \<Longrightarrow> pop_all pop (map fst es) m = map snd es"
proof (induction es arbitrary: m)
  case (Cons e es)
  obtain j v where e: "e = (j, v)" by (cases e)
  obtain x m' where p: "pop j m = (x, m')" by (cases "pop j m")
  have q: "queue m k = commits k ((j, v) # es)" for k using Cons.prems(1) e by blast
  have u: "uniform es" "\<And>f. f \<in> set es \<Longrightarrow> fst f = j \<Longrightarrow> (snd f = None) = (v = None)"
    using Cons.prems(2) unfolding e by (rule uniform_rest, rule uniform_head)
  have x: "x = (case queue m j of [] \<Rightarrow> None | y # ys \<Rightarrow> Some y)"
    "queue m' k = (if k = j then tl (queue m j) else queue m k)" for k
    using pop_value [of j m] queue_pop [of j m k] p by simp_all
  have "x = v \<and> (\<forall>k. queue m' k = commits k es)"
  proof (cases v)
    case None
    then have "commits j es = []" using u(2) by (intro commits_none) blast
    then show ?thesis using None by (simp add: x q)
  next
    case (Some y)
    then show ?thesis by (simp add: x q)
  qed
  with Cons.IH [of m'] u(1) e p show ?case by simp
qed simp

lemma correlation:
  "\<forall>k. queue m k = [] \<Longrightarrow> uniform es \<Longrightarrow> pop_all pop (map fst es) (push_all push es m) = map snd es"
  by (rule pop_all_commits) (simp_all add: queue_push_all)

end

section \<open>The dictionaries of the source\<close>

text \<open>\<open>d.setdefault(key, []).append(v)\<close> and \<open>d[key].pop(0) if d.get(key) else None\<close>.\<close>

definition setdefault_append :: "'k \<Rightarrow> 'v \<Rightarrow> ('k, 'v list) mapping \<Rightarrow> ('k, 'v list) mapping" where
  "setdefault_append key v d = Mapping.update key (Mapping.lookup_default [] d key @ [v]) d"

definition pop_first :: "'k \<Rightarrow> ('k, 'v list) mapping \<Rightarrow> 'v option \<times> ('k, 'v list) mapping" where
  "pop_first key d =
     (case Mapping.lookup d key of
        Some (v # vs) \<Rightarrow> (Some v, Mapping.update key vs d)
      | _ \<Rightarrow> (None, d))"

definition dict_queue :: "('k, 'v list) mapping \<Rightarrow> 'k \<Rightarrow> 'v list" where
  "dict_queue d key = Mapping.lookup_default [] d key"

interpretation context_dict: keyed_fifo dict_queue setdefault_append pop_first
proof
  fix k j :: 'k and v :: 'v and m :: "('k, 'v list) mapping"
  show "dict_queue (setdefault_append k v m) j
      = (if j = k then dict_queue m k @ [v] else dict_queue m j)"
    by (simp add: dict_queue_def setdefault_append_def lookup_default_def lookup_update')
  show "fst (pop_first k m) = (case dict_queue m k of [] \<Rightarrow> None | v # vs \<Rightarrow> Some v)"
    by (auto simp: dict_queue_def pop_first_def lookup_default_def split: option.splits list.splits)
  show "dict_queue (snd (pop_first k m)) j = (if j = k then tl (dict_queue m k) else dict_queue m j)"
    by (auto simp: dict_queue_def pop_first_def lookup_default_def lookup_update' split: option.splits list.splits)
qed

lemma empty_queues: "dict_queue Mapping.empty k = []"
  by (simp add: dict_queue_def lookup_default_def lookup_empty)

end
