(* ===== verification/Spike_Log.thy ===== *)
theory Spike_Log
  imports Trace Py_Regex Keyed_Fifo
begin

text \<open>
  \<open>shared/spike/spike_log_parser.py\<close>: the six patterns, the loop over the lines, the correlation of
  commits with retired instructions, and the proof that the parser recovers every instruction from
  the log format its docstring describes: per instruction a disassembly line and a commit line.
\<close>

section \<open>The patterns\<close>

definition core_items :: "item list" where
  "core_items = lits ''core'' @ [Plus Space, Plus Digit, Lit (CHR '':''), Plus Space]"

definition hex_group :: "item list" where
  "hex_group = lits ''0x'' @ [Open, Plus Hex, Close]"

definition pc_instr :: "item list" where
  "pc_instr = hex_group @ [Plus Space, Lit (CHR ''('')] @ hex_group @ [Lit (CHR '')'')]"

definition PLAIN_RE :: "item list" where
  "PLAIN_RE = core_items @ pc_instr @ [Plus Space, Open, Plus NonSpace, Star AnyChar, Close, AtEnd]"

definition commit_items :: "item list" where
  "commit_items = core_items @ [Plus Digit, Plus Space] @ pc_instr"

definition REG_RE :: "item list" where
  "REG_RE = commit_items @ [Plus Space, Lit (CHR ''x''), Star Space, Open, Plus Digit, Close, Plus Space] @ hex_group"

definition mem_items :: "item list" where
  "mem_items = [Plus Space] @ lits ''mem'' @ [Plus Space] @ hex_group"

definition MEM_RE :: "item list" where
  "MEM_RE = commit_items @ mem_items @ [Plus Space] @ hex_group"

definition MEM_READ_RE :: "item list" where
  "MEM_READ_RE = commit_items @ mem_items @ [Star Space, AtEnd]"

definition BARE_COMMIT_RE :: "item list" where
  "BARE_COMMIT_RE = commit_items @ [Star Space, AtEnd]"

definition EXCEPTION_RE :: "item list" where
  "EXCEPTION_RE = core_items @ lits ''exception'' @ [Plus Space, Open, Plus NonSpace, Close]"

section \<open>The parser\<close>

type_synonym key = "int \<times> int"

record spike_state =
  records_by_pc_seq :: "key list"
  reg_by_line_context :: "(key, (int \<times> int) list) mapping"
  mem_by_line_context :: "(key, (int \<times> int) list) mapping"
  unrecognized :: "(nat \<times> string) list"
  exceptions :: "(nat \<times> string \<times> string) list"

definition spike_start :: spike_state where
  "spike_start = \<lparr>records_by_pc_seq = [], reg_by_line_context = Mapping.empty,
     mem_by_line_context = Mapping.empty, unrecognized = [], exceptions = []\<rparr>"

definition mask32 :: "int \<Rightarrow> int" where
  "mask32 v = v AND 0xFFFFFFFF"

definition spike_line :: "nat \<times> string \<Rightarrow> spike_state \<Rightarrow> spike_state" where
  "spike_line nl s =
     (let line_no = fst nl; line = rstrip_LF (snd nl)
      in if strip line = [] then s
         else if startswith (strip line) ''warning:'' then s
         else case search EXCEPTION_RE line of
           Some m \<Rightarrow> s\<lparr>exceptions := exceptions s @ [(line_no, m ! 0, line)]\<rparr>
         | None \<Rightarrow>
         (case search REG_RE line of
            Some m \<Rightarrow>
              s\<lparr>reg_by_line_context :=
                  setdefault_append (parse_int16 (m ! 0), parse_int16 (m ! 1))
                    (parse_int (m ! 2), mask32 (parse_int16 (m ! 3))) (reg_by_line_context s)\<rparr>
          | None \<Rightarrow>
         (case search MEM_RE line of
            Some m \<Rightarrow>
              s\<lparr>mem_by_line_context :=
                  setdefault_append (parse_int16 (m ! 0), parse_int16 (m ! 1))
                    (parse_int16 (m ! 2), mask32 (parse_int16 (m ! 3))) (mem_by_line_context s)\<rparr>
          | None \<Rightarrow>
         (case search MEM_READ_RE line of
            Some _ \<Rightarrow> s
          | None \<Rightarrow>
         (case search BARE_COMMIT_RE line of
            Some _ \<Rightarrow> s
          | None \<Rightarrow>
         (case search PLAIN_RE line of
            Some m \<Rightarrow>
              s\<lparr>records_by_pc_seq := records_by_pc_seq s
                  @ [(mask32 (parse_int16 (m ! 0)), mask32 (parse_int16 (m ! 1)))]\<rparr>
          | None \<Rightarrow> s\<lparr>unrecognized := unrecognized s @ [(line_no, line)]\<rparr>))))))"

text \<open>The walk over \<open>records_by_pc_seq\<close> (lines 136-141).\<close>

fun correlate ::
    "int \<Rightarrow> key list \<Rightarrow> (key, (int \<times> int) list) mapping \<Rightarrow> (key, (int \<times> int) list) mapping
     \<Rightarrow> retirement list" where
  "correlate i [] regs mems = []"
| "correlate i (key # keys) regs mems =
     (let (r, regs') = pop_first key regs; (m, mems') = pop_first key mems
      in \<lparr>idx = i, pc = fst key, instr = Some (snd key), reg = r, mem = m\<rparr>
         # correlate (i + 1) keys regs' mems')"

definition parse_spike_log ::
    "string \<Rightarrow> retirement list \<times> (nat \<times> string) list \<times> (nat \<times> string \<times> string) list" where
  "parse_spike_log file =
     (let s = fold spike_line (numbered (file_lines file)) spike_start
      in (correlate 0 (records_by_pc_seq s) (reg_by_line_context s) (mem_by_line_context s),
          unrecognized s, exceptions s))"

text \<open>What the script prints (lines 165-178): the number of records, the exceptions and unrecognised lines
  (their number and the first five), and the number of records left by \<open>truncate_at_self_loop\<close>.\<close>

definition spike_script :: "(string \<Rightarrow> string) \<Rightarrow> string list
    \<Rightarrow> nat \<times> (nat \<times> (nat \<times> string \<times> string) list) \<times> (nat \<times> (nat \<times> string) list) \<times> nat" where
  "spike_script files argv =
     (let path = (if length argv > 1 then argv ! 1 else ''spike_trace.log'');
          (records, unrecognized, exceptions) = parse_spike_log (files path);
          truncated = truncate_at_self_loop 3 records
      in (length records, (length exceptions, take 5 exceptions),
          (length unrecognized, take 5 unrecognized), length truncated))"

section \<open>The log format\<close>

text \<open>
  One retired instruction in Spike's log: its PC and encoding, its disassembly, the register it
  writes, and the memory access it commits (a load shows its address only). \<open>w\<close> is the number of
  digits of an address (8 or 16).
\<close>

datatype access = NoAccess | ReadAt nat | WriteAt nat nat

record spike_event =
  at_pc :: nat
  encoding :: nat
  disassembly :: string
  written :: "(nat \<times> nat) option"
  accessed :: access

definition pc_text :: "nat \<Rightarrow> spike_event \<Rightarrow> string" where
  "pc_text w e = ''0x'' @ hex_pad w (at_pc e) @ '' (0x'' @ hex_pad 8 (encoding e) @ '')''"

definition plain_line :: "nat \<Rightarrow> spike_event \<Rightarrow> string" where
  "plain_line w e = ''core   0: '' @ pc_text w e @ '' '' @ disassembly e"

definition reg_text :: "nat \<Rightarrow> spike_event \<Rightarrow> string" where
  "reg_text w e =
     (case written e of
        Some (rd, v) \<Rightarrow> '' x'' @ dec rd @ (if rd < 10 then '' '' else []) @ '' 0x'' @ hex_pad w v
      | None \<Rightarrow> [])"

definition mem_text :: "nat \<Rightarrow> spike_event \<Rightarrow> string" where
  "mem_text w e =
     (case accessed e of
        NoAccess \<Rightarrow> []
      | ReadAt a \<Rightarrow> '' mem 0x'' @ hex_pad w a
      | WriteAt a v \<Rightarrow> '' mem 0x'' @ hex_pad w a @ '' 0x'' @ hex_pad 8 v)"

definition commit_line :: "nat \<Rightarrow> spike_event \<Rightarrow> string" where
  "commit_line w e = ''core   0: 3 '' @ pc_text w e @ reg_text w e @ mem_text w e"

definition spike_log :: "nat \<Rightarrow> spike_event list \<Rightarrow> string" where
  "spike_log w es = unlines (concat (map (\<lambda>e. [plain_line w e, commit_line w e]) es))"

text \<open>
  A disassembly is a non-empty text on one line that starts with a visible character and does not
  contain the word core; a store writes no register.
\<close>

definition wf_event :: "spike_event \<Rightarrow> bool" where
  "wf_event e \<longleftrightarrow> disassembly e \<noteq> [] \<and> \<not> is_space (hd (disassembly e))
     \<and> LF \<notin> set (disassembly e) \<and> CR \<notin> set (disassembly e) \<and> \<not> contains ''core'' (disassembly e)
     \<and> (case accessed e of WriteAt a v \<Rightarrow> written e = None | _ \<Rightarrow> True)"

section \<open>Matching the lines\<close>

lemma blank [simp]: "is_space (CHR '' '')" "\<not> is_hex (CHR '' '')" "\<not> is_digit (CHR '' '')"
  by (simp_all add: is_space_def is_hex_def is_digit_def)

lemma no_space [simp]: "\<not> is_space (CHR ''0'')" "\<not> is_space (CHR ''x'')" "\<not> is_space (CHR ''('')" "\<not> is_space (CHR '')'')"
  "\<not> is_space (CHR ''3'')" "\<not> is_space (CHR ''m'')" "\<not> is_space (CHR ''e'')" "\<not> is_space (CHR ''c'')"
  "is_digit (CHR ''0'')" "is_digit (CHR ''3'')" "\<not> is_digit (CHR '':'')" "\<not> is_digit (CHR ''x'')"
  "\<not> is_hex (CHR '')'')"
  by (simp_all add: is_space_def is_digit_def is_hex_def)

lemma run_space:
  "stops Space s \<Longrightarrow> rejects Space r \<Longrightarrow> run (Plus Space # r) (CHR '' '' # s) gs None = run r s gs None"
  using run_plus_det [of "'' ''" Space s r gs None] by simp

lemma run_core:
  assumes "stops Space s" "rejects Space r"
  shows "run (core_items @ r) (''core   0: '' @ s) gs None = run r s gs None"
proof -
  have "run (core_items @ r) (''core   0: '' @ s) gs None
      = run (Plus Space # Plus Digit # Lit (CHR '':'') # Plus Space # r) (''   '' @ ''0: '' @ s) gs None"
    by (simp add: core_items_def del: run.simps(3))
  also have "\<dots> = run (Plus Digit # Lit (CHR '':'') # Plus Space # r) (''0'' @ '': '' @ s) gs None"
    by (subst run_plus_det) simp_all
  also have "\<dots> = run (Lit (CHR '':'') # Plus Space # r) ('': '' @ s) gs None"
    by (subst run_plus_det) simp_all
  also have "\<dots> = run r s gs None"
    using run_space [OF assms] by (simp del: run.simps(3))
  finally show ?thesis .
qed

lemma run_hex_group:
  assumes "h \<noteq> []" "\<forall>c \<in> set h. is_hex c" "stops Hex s" "rejects Hex r"
  shows "run (hex_group @ r) (''0x'' @ h @ s) gs None = run r s (gs @ [h]) None"
proof -
  have "run (hex_group @ r) (''0x'' @ h @ s) gs None = run (Plus Hex # Close # r) (h @ s) gs (Some [])"
    by (simp add: hex_group_def del: run.simps(3))
  also have "\<dots> = run (Close # r) s gs (Some h)"
    using assms by (subst run_plus_det) simp_all
  finally show ?thesis by simp
qed

lemma run_hex_group_max:
  assumes "h \<noteq> []" "\<forall>c \<in> set h. is_hex c" "stops Hex s" "run r s (gs @ [h]) None = Some res"
  shows "run (hex_group @ r) (''0x'' @ h @ s) gs None = Some res"
proof -
  have "run (hex_group @ r) (''0x'' @ h @ s) gs None = run (Plus Hex # Close # r) (h @ s) gs (Some [])"
    by (simp add: hex_group_def del: run.simps(3))
  also have "\<dots> = Some res"
    using assms by (intro run_plus_max) simp_all
  finally show ?thesis .
qed

lemma hex_pad_hex [simp]: "\<forall>c \<in> set (hex_pad k n). is_hex c"
  using hex_chars(2) by blast

lemma run_pc_instr:
  "run (pc_instr @ r) (pc_text w e @ s) gs None
     = run r s (gs @ [hex_pad w (at_pc e), hex_pad 8 (encoding e)]) None"
proof -
  have "run (pc_instr @ r) (pc_text w e @ s) gs None
      = run (Plus Space # Lit (CHR ''('') # hex_group @ Lit (CHR '')'') # r)
          ('' '' @ ''('' @ ''0x'' @ hex_pad 8 (encoding e) @ '')'' @ s) (gs @ [hex_pad w (at_pc e)]) None"
    unfolding pc_instr_def pc_text_def append_assoc by (subst run_hex_group) simp_all
  also have "\<dots> = run (hex_group @ Lit (CHR '')'') # r) (''0x'' @ hex_pad 8 (encoding e) @ '')'' @ s)
      (gs @ [hex_pad w (at_pc e)]) None"
    using run_space [of "CHR ''('' # ''0x'' @ hex_pad 8 (encoding e) @ '')'' @ s"] by (simp del: run.simps(3))
  also have "\<dots> = run r s (gs @ [hex_pad w (at_pc e), hex_pad 8 (encoding e)]) None"
    by (subst run_hex_group) simp_all
  finally show ?thesis .
qed

abbreviation pcw :: "nat \<Rightarrow> spike_event \<Rightarrow> string list" where
  "pcw w e \<equiv> [hex_pad w (at_pc e), hex_pad 8 (encoding e)]"

lemma pc_text_start: "pc_text w e @ s = CHR ''0'' # CHR ''x'' # (hex_pad w (at_pc e) @ '' (0x'' @ hex_pad 8 (encoding e) @ '')'' @ s)"
  by (simp add: pc_text_def)

lemma rejects_pc_instr [simp]: "rejects Space (pc_instr @ r)"
  by (simp add: pc_instr_def hex_group_def)

lemma run_commit:
  "run (commit_items @ r) (''core   0: 3 '' @ pc_text w e @ s) [] None = run r s (pcw w e) None"
proof -
  have "run (commit_items @ r) (''core   0: 3 '' @ pc_text w e @ s) [] None
      = run (Plus Digit # Plus Space # pc_instr @ r) (''3'' @ '' '' @ pc_text w e @ s) [] None"
    unfolding commit_items_def append_assoc
    using run_core [of "''3 '' @ pc_text w e @ s" "Plus Digit # Plus Space # pc_instr @ r" "[]"]
    by (simp del: run.simps(3))
  also have "\<dots> = run (Plus Space # pc_instr @ r) ('' '' @ pc_text w e @ s) [] None"
    by (subst run_plus_det) simp_all
  also have "\<dots> = run (pc_instr @ r) (pc_text w e @ s) [] None"
    using run_space [of "pc_text w e @ s" "pc_instr @ r" "[]"] by (simp add: pc_text_start del: run.simps(3))
  finally show ?thesis by (simp add: run_pc_instr)
qed

lemma run_commit_plain:
  "run (commit_items @ r) (''core   0: '' @ pc_text w e @ s) gs None = None"
proof -
  have "run (commit_items @ r) (''core   0: '' @ pc_text w e @ s) gs None
      = run (Plus Digit # Plus Space # pc_instr @ r) (pc_text w e @ s) gs None"
    unfolding commit_items_def append_assoc
    by (subst run_core) (simp_all add: pc_text_start)
  also have "\<dots> = run (Plus Space # pc_instr @ r) (CHR ''x'' # hex_pad w (at_pc e) @ '' (0x'' @ hex_pad 8 (encoding e) @ '')'' @ s) gs None"
    unfolding pc_text_start
    using run_plus_det [of "''0''" Digit "CHR ''x'' # hex_pad w (at_pc e) @ '' (0x'' @ hex_pad 8 (encoding e) @ '')'' @ s"
        "Plus Space # pc_instr @ r" gs None]
    by (simp del: run.simps(3))
  also have "\<dots> = None" by simp
  finally show ?thesis .
qed

lemma run_exception:
  "run EXCEPTION_RE (''core   0: '' @ pc_text w e @ s) gs None = None"
  "run EXCEPTION_RE (''core   0: 3 '' @ s) gs None = None"
  unfolding EXCEPTION_RE_def
  using run_core [of "pc_text w e @ s" "lits ''exception'' @ [Plus Space, Open, Plus NonSpace, Close]" gs]
    run_core [of "''3 '' @ s" "lits ''exception'' @ [Plus Space, Open, Plus NonSpace, Close]" gs]
  by (simp_all add: pc_text_start)

lemma run_text:
  assumes "d \<noteq> []" "\<not> is_space (hd d)" "LF \<notin> set d"
  shows "run [Open, Plus NonSpace, Star AnyChar, Close, AtEnd] d gs None = Some (gs @ [d])"
proof -
  let ?x = "takeWhile (\<lambda>c. \<not> is_space c) d" and ?y = "dropWhile (\<lambda>c. \<not> is_space c) d"
  have x: "?x \<noteq> []" using assms(1,2) by (cases d) simp_all
  have y: "stops NonSpace ?y" using hd_dropWhile [of "\<lambda>c. \<not> is_space c" d] by (auto simp: stops_def)
  have l: "\<forall>c \<in> set ?y. in_class AnyChar c" using assms(3) by (auto dest: set_dropWhileD)
  have "run (Star AnyChar # [Close, AtEnd]) (?y @ []) gs (Some ?x) = Some (gs @ [?x @ ?y])"
    by (rule run_star_max) (use l in simp_all)
  then have "run (Plus NonSpace # [Star AnyChar, Close, AtEnd]) (?x @ ?y) gs (Some []) = Some (gs @ [?x @ ?y])"
    by (intro run_plus_max) (use x y in \<open>auto dest: set_takeWhileD\<close>)
  then show ?thesis by (simp del: run.simps(3))
qed

lemma run_plain:
  assumes "wf_event e"
  shows "run PLAIN_RE (plain_line w e) [] None = Some [hex_pad w (at_pc e), hex_pad 8 (encoding e), disassembly e]"
proof -
  let ?t = "[Open, Plus NonSpace, Star AnyChar, Close, AtEnd]"
  have d: "disassembly e \<noteq> []" "\<not> is_space (hd (disassembly e))" "LF \<notin> set (disassembly e)"
    using assms by (simp_all add: wf_event_def)
  have st: "stops Space (disassembly e)" using d by (simp add: stops_def)
  have rj: "rejects Space ?t" by simp
  have "run PLAIN_RE (plain_line w e) [] None = run (pc_instr @ Plus Space # ?t) (pc_text w e @ '' '' @ disassembly e) [] None"
    unfolding PLAIN_RE_def plain_line_def by (subst run_core) (simp_all add: pc_text_start)
  also have "\<dots> = run (Plus Space # ?t) ('' '' @ disassembly e) (pcw w e) None"
    by (simp add: run_pc_instr del: run.simps(3))
  also have "\<dots> = run ?t (disassembly e) (pcw w e) None"
    using run_space [OF st rj] by (simp del: run.simps)
  finally show ?thesis using run_text [OF d] by simp
qed

lemma rejects_tail [simp]: "rejects Hex (Star Space # AtEnd # r)"
  by (auto simp: rejects_def space_not_hex is_hex_def is_digit_def LF_def)

lemma run_mem_items:
  assumes "stops Hex u" "rejects Hex r"
  shows "run (mem_items @ r) ('' mem 0x'' @ hex_pad w a @ u) gs None = run r u (gs @ [hex_pad w a]) None"
proof -
  have "run (mem_items @ r) ('' mem 0x'' @ hex_pad w a @ u) gs None
      = run (lits ''mem'' @ Plus Space # hex_group @ r) (''mem'' @ '' 0x'' @ hex_pad w a @ u) gs None"
    using run_space [of "''mem 0x'' @ hex_pad w a @ u" "lits ''mem'' @ Plus Space # hex_group @ r" gs]
    by (simp add: mem_items_def del: run.simps(3))
  also have "\<dots> = run (Plus Space # hex_group @ r) ('' '' @ ''0x'' @ hex_pad w a @ u) gs None"
    unfolding run_lits by simp
  also have "\<dots> = run (hex_group @ r) (''0x'' @ hex_pad w a @ u) gs None"
    using run_space [of "''0x'' @ hex_pad w a @ u" "hex_group @ r" gs]
    by (simp add: hex_group_def del: run.simps(3))
  finally show ?thesis using run_hex_group [OF printed_nonempty(3) hex_pad_hex assms] by simp
qed

lemma run_reg_items:
  assumes "stops Hex u"
  shows "run ([Plus Space, Lit (CHR ''x''), Star Space, Open, Plus Digit, Close, Plus Space] @ hex_group)
      ('' x'' @ dec rd @ (if rd < 10 then '' '' else []) @ '' 0x'' @ hex_pad w v @ u) gs None
    = Some (gs @ [dec rd, hex_pad w v])"
proof -
  let ?b = "(if rd < 10 then '' '' else []) @ '' ''"
  let ?u = "?b @ ''0x'' @ hex_pad w v @ u"
  have d: "dec rd \<noteq> []" "\<forall>c \<in> set (dec rd). in_class Digit c" using dec_chars by auto
  have sd: "stops Space (dec rd @ ?u)" using d space_not_hex(2) by (cases "dec rd") auto
  have st: "stops Digit ?u" by simp
  have "run ([Plus Space, Lit (CHR ''x''), Star Space, Open, Plus Digit, Close, Plus Space] @ hex_group)
      ('' '' @ ''x'' @ dec rd @ ?u) gs None
    = run ([Lit (CHR ''x''), Star Space, Open, Plus Digit, Close, Plus Space] @ hex_group) (''x'' @ dec rd @ ?u) gs None"
    using run_space [of "''x'' @ dec rd @ ?u" "[Lit (CHR ''x''), Star Space, Open, Plus Digit, Close, Plus Space] @ hex_group" gs]
    by (simp del: run.simps(3))
  also have "\<dots> = run ([Star Space, Open, Plus Digit, Close, Plus Space] @ hex_group) (dec rd @ ?u) gs None"
    by (simp del: run.simps(3-4))
  also have "\<dots> = run ([Plus Digit, Close, Plus Space] @ hex_group) (dec rd @ ?u) gs (Some [])"
    using run_star_stop [OF sd] by (simp del: run.simps(3-4))
  also have "\<dots> = run (Plus Space # hex_group) ?u (gs @ [dec rd]) None"
    using run_plus_det [OF d st, of "Close # Plus Space # hex_group" gs "Some []"] by (simp del: run.simps(3-4))
  also have "\<dots> = run hex_group (''0x'' @ hex_pad w v @ u) (gs @ [dec rd]) None"
    using run_plus_det [of ?b Space "''0x'' @ hex_pad w v @ u" hex_group "gs @ [dec rd]" None]
    by (simp add: hex_group_def del: run.simps(3-4))
  also have "\<dots> = Some (gs @ [dec rd, hex_pad w v])"
    using run_hex_group_max [OF printed_nonempty(3) hex_pad_hex assms, of "[]" "gs @ [dec rd]"] by simp
  finally show ?thesis by simp
qed

lemma stops_mem_text [simp]: "stops Hex (mem_text w e)"
  by (simp add: mem_text_def split: access.splits)

lemma run_hex_group_end: "run hex_group (''0x'' @ hex_pad k d) gs None = Some (gs @ [hex_pad k d])"
  using run_hex_group_max [OF printed_nonempty(3) hex_pad_hex stops_simps(1), of "[]" gs] by simp

text \<open>The outcome of every commit pattern on what follows the instruction in a commit line.\<close>

abbreviation reg_items :: "item list" where
  "reg_items \<equiv> [Plus Space, Lit (CHR ''x''), Star Space, Open, Plus Digit, Close, Plus Space] @ hex_group"

lemma run_rest:
  "written e = Some (rd, v) \<Longrightarrow> run reg_items (reg_text w e @ mem_text w e) gs None = Some (gs @ [dec rd, hex_pad w v])"
  "written e = None \<Longrightarrow> run reg_items (reg_text w e @ mem_text w e) gs None = None"
  "written e = None \<Longrightarrow> accessed e = WriteAt a d \<Longrightarrow>
     run (mem_items @ [Plus Space] @ hex_group) (reg_text w e @ mem_text w e) gs None = Some (gs @ [hex_pad w a, hex_pad 8 d])"
  "written e = None \<Longrightarrow> accessed e = ReadAt a \<Longrightarrow>
     run (mem_items @ [Plus Space] @ hex_group) (reg_text w e @ mem_text w e) gs None = None"
  "written e = None \<Longrightarrow> accessed e = NoAccess \<Longrightarrow> run (mem_items @ r) (reg_text w e @ mem_text w e) gs None = None"
  "written e = None \<Longrightarrow> accessed e = ReadAt a \<Longrightarrow>
     run (mem_items @ [Star Space, AtEnd]) (reg_text w e @ mem_text w e) gs None = Some (gs @ [hex_pad w a])"
  "written e = None \<Longrightarrow> accessed e = NoAccess \<Longrightarrow>
     run [Star Space, AtEnd] (reg_text w e @ mem_text w e) gs None = Some gs"
proof -
  show "written e = Some (rd, v) \<Longrightarrow> run reg_items (reg_text w e @ mem_text w e) gs None = Some (gs @ [dec rd, hex_pad w v])"
    using run_reg_items [OF stops_mem_text, of rd w v w e gs] by (simp add: reg_text_def del: run.simps)
  show "written e = None \<Longrightarrow> run reg_items (reg_text w e @ mem_text w e) gs None = None"
    using run_space [of "''mem 0x'' @ s" "tl reg_items" gs for s]
    by (auto simp: reg_text_def mem_text_def split: access.splits)
  show "written e = None \<Longrightarrow> accessed e = WriteAt a d \<Longrightarrow>
     run (mem_items @ [Plus Space] @ hex_group) (reg_text w e @ mem_text w e) gs None = Some (gs @ [hex_pad w a, hex_pad 8 d])"
    using run_mem_items [of "'' 0x'' @ hex_pad 8 d" "[Plus Space] @ hex_group" w a gs]
      run_space [of "''0x'' @ hex_pad 8 d" hex_group "gs @ [hex_pad w a]"]
      run_hex_group_end [of 8 d "gs @ [hex_pad w a]"]
    by (simp add: reg_text_def mem_text_def hex_group_def del: run.simps(3-4))
  show "written e = None \<Longrightarrow> accessed e = ReadAt a \<Longrightarrow>
     run (mem_items @ [Plus Space] @ hex_group) (reg_text w e @ mem_text w e) gs None = None"
    using run_mem_items [of "[]" "[Plus Space] @ hex_group" w a gs]
    by (simp add: reg_text_def mem_text_def)
  show "written e = None \<Longrightarrow> accessed e = NoAccess \<Longrightarrow> run (mem_items @ r) (reg_text w e @ mem_text w e) gs None = None"
    by (simp add: reg_text_def mem_text_def mem_items_def)
  show "written e = None \<Longrightarrow> accessed e = ReadAt a \<Longrightarrow>
     run (mem_items @ [Star Space, AtEnd]) (reg_text w e @ mem_text w e) gs None = Some (gs @ [hex_pad w a])"
    using run_mem_items [of "[]" "[Star Space, AtEnd]" w a gs]
    by (simp add: reg_text_def mem_text_def)
  show "written e = None \<Longrightarrow> accessed e = NoAccess \<Longrightarrow>
     run [Star Space, AtEnd] (reg_text w e @ mem_text w e) gs None = Some gs"
    by (simp add: reg_text_def mem_text_def)
qed

section \<open>Searching the lines\<close>

lemma no_core: "CHR ''o'' \<notin> set t \<Longrightarrow> \<not> contains ''core'' (''ore'' @ t)"
proof -
  assume "CHR ''o'' \<notin> set t"
  then have "\<not> contains ''core'' t" using contains_char [of "''core''" t] by auto
  then show ?thesis by (simp add: contains.simps [of "''core''" "_ # _"])
qed

lemma no_core_text:
  "CHR ''o'' \<notin> set a \<Longrightarrow> \<not> contains ''core'' d \<Longrightarrow> \<not> contains ''core'' (a @ CHR '' '' # d)"
proof (induction a)
  case Nil
  then show ?case by (simp add: contains.simps [of _ "_ # _"])
next
  case (Cons c a)
  then show ?case by (cases a) (auto simp: contains.simps [of _ "_ # _"])
qed

lemma search_core:
  "\<not> contains ''core'' (''ore'' @ t) \<Longrightarrow> search (core_items @ r) (''core'' @ t) = run (core_items @ r) (''core'' @ t) [] None"
  using search_first [of "''core''" "''ore'' @ t"] by (simp add: core_items_def)

lemma hex_0 [simp]: "is_hex (CHR ''0'')"
  by (simp add: is_hex_def is_digit_def)

lemma pc_text_chars: "c \<in> set (pc_text w e) \<Longrightarrow> is_hex c \<or> c \<in> set ''x ()''"
  by (auto simp: pc_text_def dest: hex_chars(2))

lemma reg_text_chars: "c \<in> set (reg_text w e) \<Longrightarrow> is_hex c \<or> c \<in> set ''x ''"
  by (auto simp: reg_text_def dest: hex_chars(2) dec_chars space_not_hex(3) split: option.splits if_splits)

lemma mem_text_chars: "c \<in> set (mem_text w e) \<Longrightarrow> is_hex c \<or> c \<in> set ''x me''"
  by (auto simp: mem_text_def dest: hex_chars(2) split: access.splits)

lemma not_hex_o: "\<not> is_hex (CHR ''o'')" "\<not> is_hex LF" "\<not> is_hex CR"
  by (simp_all add: is_hex_def is_digit_def LF_def CR_def)

lemma text_chars:
  assumes "c = CHR ''o'' \<or> c = LF \<or> c = CR"
  shows "c \<notin> set (pc_text w e)" "c \<notin> set (reg_text w e)" "c \<notin> set (mem_text w e)"
proof -
  have n: "\<not> is_hex c" using assms not_hex_o by blast
  have m: "c \<notin> set ''x ()''" "c \<notin> set ''x ''" "c \<notin> set ''x me''"
    using assms by (elim disjE; simp add: LF_def CR_def)+
  show "c \<notin> set (pc_text w e)" "c \<notin> set (reg_text w e)" "c \<notin> set (mem_text w e)"
    using n m pc_text_chars reg_text_chars mem_text_chars by blast+
qed

lemma search_commit_line:
  "search (core_items @ r) (commit_line w e) = run (core_items @ r) (commit_line w e) [] None"
  using search_core [of "''   0: 3 '' @ pc_text w e @ reg_text w e @ mem_text w e" r] no_core text_chars
  by (simp add: commit_line_def)

lemma search_plain_line:
  assumes "wf_event e"
  shows "search (core_items @ r) (plain_line w e) = run (core_items @ r) (plain_line w e) [] None"
proof -
  have "\<not> contains ''core'' (''ore   0: '' @ pc_text w e @ '' '' @ disassembly e)"
  proof -
    have "CHR ''o'' \<notin> set (''re   0: '' @ pc_text w e)" using text_chars(1) by auto
    from no_core_text [OF this, of "disassembly e"] assms show ?thesis
      by (simp add: wf_event_def contains.simps [of _ "CHR ''o'' # _"])
  qed
  with search_core [of "''   0: '' @ pc_text w e @ '' '' @ disassembly e" r] show ?thesis
    by (simp add: plain_line_def)
qed

lemmas as_core = EXCEPTION_RE_def REG_RE_def MEM_RE_def MEM_READ_RE_def BARE_COMMIT_RE_def PLAIN_RE_def
  commit_items_def append_assoc

lemma search_commit_items:
  "search (commit_items @ r) (commit_line w e) = run r (reg_text w e @ mem_text w e) (pcw w e) None"
  unfolding commit_items_def append_assoc search_commit_line
  using run_commit [of r w e "reg_text w e @ mem_text w e"]
  by (simp only: commit_line_def commit_items_def append_assoc)

lemma search_commit_items_plain:
  "wf_event e \<Longrightarrow> search (commit_items @ r) (plain_line w e) = None"
  unfolding commit_items_def append_assoc search_plain_line
  using run_commit_plain [of r w e "'' '' @ disassembly e" "[]"]
  by (simp only: plain_line_def commit_items_def append_assoc)

lemma search_exception:
  "search EXCEPTION_RE (commit_line w e) = None" "wf_event e \<Longrightarrow> search EXCEPTION_RE (plain_line w e) = None"
  unfolding EXCEPTION_RE_def search_commit_line search_plain_line
  using run_exception(2) [of "pc_text w e @ reg_text w e @ mem_text w e" "[]"]
    run_exception(1) [of w e "'' '' @ disassembly e" "[]"]
  by (simp_all only: EXCEPTION_RE_def commit_line_def plain_line_def append_assoc)

lemma search_plain:
  "wf_event e \<Longrightarrow> search PLAIN_RE (plain_line w e)
     = Some [hex_pad w (at_pc e), hex_pad 8 (encoding e), disassembly e]"
  using run_plain [of e w] by (simp only: PLAIN_RE_def search_plain_line)

section \<open>One line\<close>

lemma strip_hd: "\<not> is_space c \<Longrightarrow> \<exists>t. strip (c # s) = c # t"
  by (simp add: strip_def lstrip_def dropWhile_append3)

lemma line_guards:
  assumes "LF \<notin> set t"
  shows "rstrip_LF (CHR ''c'' # t @ [LF]) = CHR ''c'' # t" "strip (CHR ''c'' # t) \<noteq> []"
    "\<not> startswith (strip (CHR ''c'' # t)) ''warning:''"
proof -
  show "rstrip_LF (CHR ''c'' # t @ [LF]) = CHR ''c'' # t"
    using rstrip_LF_line [of "CHR ''c'' # t"] assms by (simp add: LF_def)
  obtain u where "strip (CHR ''c'' # t) = CHR ''c'' # u"
    using strip_hd [of "CHR ''c''" t] by auto
  then show "strip (CHR ''c'' # t) \<noteq> []" "\<not> startswith (strip (CHR ''c'' # t)) ''warning:''"
    by simp_all
qed

definition key_of :: "spike_event \<Rightarrow> key" where
  "key_of e = (int (at_pc e), int (encoding e))"

definition masked_key :: "key \<Rightarrow> key" where
  "masked_key k = (mask32 (fst k), mask32 (snd k))"

definition reg_commit :: "spike_event \<Rightarrow> (int \<times> int) option" where
  "reg_commit e = map_option (\<lambda>(rd, v). (int rd, mask32 (int v))) (written e)"

definition mem_commit :: "spike_event \<Rightarrow> (int \<times> int) option" where
  "mem_commit e = (case accessed e of WriteAt a v \<Rightarrow> Some (int a, mask32 (int v)) | _ \<Rightarrow> None)"

definition note_commit :: "key \<Rightarrow> (int \<times> int) option \<Rightarrow> (key, (int \<times> int) list) mapping \<Rightarrow> (key, (int \<times> int) list) mapping" where
  "note_commit k v d = (case v of Some x \<Rightarrow> setdefault_append k x d | None \<Rightarrow> d)"

lemma spike_line_plain:
  assumes "wf_event e"
  shows "spike_line (n, plain_line w e @ [LF]) s
    = s\<lparr>records_by_pc_seq := records_by_pc_seq s @ [masked_key (key_of e)]\<rparr>"
proof -
  have "LF \<notin> set (''ore   0: '' @ pc_text w e @ '' '' @ disassembly e)"
    using assms text_chars(1) by (auto simp: wf_event_def LF_def)
  note g = line_guards [OF this]
  have l: "plain_line w e = CHR ''c'' # ''ore   0: '' @ pc_text w e @ '' '' @ disassembly e"
    by (simp add: plain_line_def)
  have "rstrip_LF (plain_line w e @ [LF]) = plain_line w e" "strip (plain_line w e) \<noteq> []"
    "\<not> startswith (strip (plain_line w e)) ''warning:''"
    using g unfolding l by simp_all
  then show ?thesis
    using assms
    by (simp add: spike_line_def search_exception search_commit_items_plain REG_RE_def MEM_RE_def
        MEM_READ_RE_def BARE_COMMIT_RE_def search_plain masked_key_def key_of_def)
qed

lemma spike_line_commit:
  assumes "wf_event e"
  shows "spike_line (n, commit_line w e @ [LF]) s
    = s\<lparr>reg_by_line_context := note_commit (key_of e) (reg_commit e) (reg_by_line_context s),
        mem_by_line_context := note_commit (key_of e) (mem_commit e) (mem_by_line_context s)\<rparr>"
proof -
  have "LF \<notin> set (''ore   0: 3 '' @ pc_text w e @ reg_text w e @ mem_text w e)"
    using text_chars by (auto simp: LF_def)
  note g = line_guards [OF this]
  have l: "commit_line w e = CHR ''c'' # ''ore   0: 3 '' @ pc_text w e @ reg_text w e @ mem_text w e"
    by (simp add: commit_line_def)
  have g: "rstrip_LF (commit_line w e @ [LF]) = commit_line w e" "strip (commit_line w e) \<noteq> []"
    "\<not> startswith (strip (commit_line w e)) ''warning:''"
    using g unfolding l by simp_all
  note res = g search_exception(1) search_commit_items REG_RE_def MEM_RE_def MEM_READ_RE_def BARE_COMMIT_RE_def
  note out = key_of_def reg_commit_def mem_commit_def note_commit_def
  show ?thesis
  proof (cases "written e")
    case (Some p)
    obtain rd v where "written e = Some (rd, v)" using Some by (cases p) simp
    then show ?thesis
      using assms run_rest(1) [where e = e and w = w]
      by (auto simp: spike_line_def res out wf_event_def Let_def split: access.splits)
  next
    case None
    show ?thesis
    proof (cases "accessed e")
      case NoAccess
      with None show ?thesis
        using run_rest(2,5,7) [where e = e and w = w]
        by (simp add: spike_line_def res out Let_def)
    next
      case (ReadAt a)
      with None show ?thesis
        using run_rest(2,4,6) [where e = e and w = w]
        by (simp add: spike_line_def res out Let_def)
    next
      case (WriteAt a v)
      with None show ?thesis
        using run_rest(2) [where e = e and w = w] run_rest(3) [where e = e and w = w and a = a and d = v]
        by (simp add: spike_line_def res out Let_def)
    qed
  qed
qed

section \<open>The whole log\<close>

definition reg_commits :: "spike_event list \<Rightarrow> (key \<times> (int \<times> int) option) list" where
  "reg_commits es = map (\<lambda>e. (key_of e, reg_commit e)) es"

definition mem_commits :: "spike_event list \<Rightarrow> (key \<times> (int \<times> int) option) list" where
  "mem_commits es = map (\<lambda>e. (key_of e, mem_commit e)) es"

fun log_lines :: "nat \<Rightarrow> spike_event list \<Rightarrow> string list" where
  "log_lines w [] = []"
| "log_lines w (e # es) = plain_line w e # commit_line w e # log_lines w es"

lemma spike_log_lines: "spike_log w es = unlines (log_lines w es)"
proof -
  have "concat (map (\<lambda>e. [plain_line w e, commit_line w e]) es) = log_lines w es"
    by (induction es) simp_all
  then show ?thesis by (simp add: spike_log_def)
qed

lemma log_line_chars:
  "\<forall>e \<in> set es. wf_event e \<Longrightarrow> l \<in> set (log_lines w es) \<Longrightarrow> CR \<notin> set l \<and> LF \<notin> set l"
proof (induction es)
  case (Cons e es)
  have "CR \<notin> set (plain_line w e) \<and> LF \<notin> set (plain_line w e)"
    using Cons.prems(1) text_chars(1) by (auto simp: plain_line_def wf_event_def LF_def CR_def)
  moreover have "CR \<notin> set (commit_line w e) \<and> LF \<notin> set (commit_line w e)"
    using text_chars by (auto simp: commit_line_def LF_def CR_def)
  ultimately show ?case using Cons by auto
qed simp

lemma fold_log_lines:
  "\<forall>e \<in> set es. wf_event e \<Longrightarrow> length ns = length (log_lines w es) \<Longrightarrow>
   fold spike_line (zip ns (map (\<lambda>l. l @ [LF]) (log_lines w es))) s
     = s\<lparr>records_by_pc_seq := records_by_pc_seq s @ map (masked_key \<circ> key_of) es,
         reg_by_line_context := push_all setdefault_append (reg_commits es) (reg_by_line_context s),
         mem_by_line_context := push_all setdefault_append (mem_commits es) (mem_by_line_context s)\<rparr>"
proof (induction es arbitrary: ns s)
  case Nil
  then show ?case by (simp add: reg_commits_def mem_commits_def)
next
  case (Cons e es)
  then obtain n1 n2 ns' where ns: "ns = n1 # n2 # ns'" "length ns' = length (log_lines w es)"
    by (auto simp: length_Suc_conv)
  have "wf_event e" using Cons.prems(1) by simp
  then show ?case
    using Cons.IH [OF _ ns(2)] Cons.prems(1) ns(1)
    by (simp add: spike_line_plain spike_line_commit note_commit_def reg_commits_def mem_commits_def)
qed

fun spike_expected :: "int \<Rightarrow> spike_event list \<Rightarrow> retirement list" where
  "spike_expected i [] = []"
| "spike_expected i (e # es) =
     \<lparr>idx = i, pc = int (at_pc e), instr = Some (int (encoding e)), reg = reg_commit e, mem = mem_commit e\<rparr>
     # spike_expected (i + 1) es"

lemma correlate_pops:
  "pop_all pop_first (map key_of es) regs = map reg_commit es \<Longrightarrow>
   pop_all pop_first (map key_of es) mems = map mem_commit es \<Longrightarrow>
   correlate i (map key_of es) regs mems = spike_expected i es"
  by (induction es arbitrary: i regs mems) (auto simp: key_of_def split: prod.splits)

lemma parse_spike_lines:
  assumes "\<forall>e \<in> set es. wf_event e"
  shows "parse_spike_log (spike_log w es)
    = (correlate 0 (map (masked_key \<circ> key_of) es)
         (push_all setdefault_append (reg_commits es) Mapping.empty)
         (push_all setdefault_append (mem_commits es) Mapping.empty), [], [])"
proof -
  have "file_lines (spike_log w es) = map (\<lambda>l. l @ [LF]) (log_lines w es)"
    unfolding spike_log_lines using log_line_chars [OF assms] by (intro file_lines_unlines) blast
  moreover have "fold spike_line (zip [1 ..< length (log_lines w es) + 1] (map (\<lambda>l. l @ [LF]) (log_lines w es))) spike_start
     = spike_start\<lparr>records_by_pc_seq := records_by_pc_seq spike_start @ map (masked_key \<circ> key_of) es,
         reg_by_line_context := push_all setdefault_append (reg_commits es) (reg_by_line_context spike_start),
         mem_by_line_context := push_all setdefault_append (mem_commits es) (mem_by_line_context spike_start)\<rparr>"
    by (rule fold_log_lines [OF assms]) (simp del: upt_Suc)
  ultimately show ?thesis
    by (simp add: parse_spike_log_def numbered_def Let_def spike_start_def del: upt_Suc)
qed

lemma masked_small: "fits 32 (fst k) \<Longrightarrow> fits 32 (snd k) \<Longrightarrow> masked_key k = k"
  by (cases k) (simp add: masked_key_def mask32_def and_mask_take fits_take)

text \<open>The instructions of a log the parser is meant for: 32-bit PCs and encodings, and a given
  instruction at a given PC either always commits a register (a store) or never does.\<close>

definition regular :: "spike_event list \<Rightarrow> bool" where
  "regular es \<longleftrightarrow> (\<forall>e \<in> set es. wf_event e \<and> at_pc e < 2 ^ 32 \<and> encoding e < 2 ^ 32)
     \<and> uniform (reg_commits es) \<and> uniform (mem_commits es)"

lemma parse_regular:
  assumes "regular es"
  shows "parse_spike_log (spike_log w es) = (spike_expected 0 es, [], [])"
proof -
  have e: "\<forall>e \<in> set es. wf_event e" "\<forall>e \<in> set es. masked_key (key_of e) = key_of e"
    using assms by (auto simp: regular_def key_of_def fits_def intro!: masked_small)
  have k: "map (masked_key \<circ> key_of) es = map key_of es" using e(2) by simp
  have f: "map fst (reg_commits es) = map key_of es" "map fst (mem_commits es) = map key_of es"
    "map snd (reg_commits es) = map reg_commit es" "map snd (mem_commits es) = map mem_commit es"
    by (simp_all add: reg_commits_def mem_commits_def)
  have "pop_all pop_first (map key_of es) (push_all setdefault_append (reg_commits es) Mapping.empty) = map reg_commit es"
    using context_dict.correlation [of Mapping.empty "reg_commits es"] assms f
    by (simp add: regular_def empty_queues)
  moreover have "pop_all pop_first (map key_of es) (push_all setdefault_append (mem_commits es) Mapping.empty) = map mem_commit es"
    using context_dict.correlation [of Mapping.empty "mem_commits es"] assms f
    by (simp add: regular_def empty_queues)
  ultimately show ?thesis
    unfolding parse_spike_lines [OF e(1)] k by (simp add: correlate_pops)
qed

text \<open>C12: Reading back a Spike log: for every sequence of retired instructions in the documented format
  (loops that revisit a PC included) the parser returns one record per instruction, in order, with its
  own register write and its own store, and neither an unrecognised line nor an exception.\<close>

theorem parse_spike_log_round_trip:
  assumes "regular es"
  shows "parse_spike_log (spike_log w es) = (spike_expected 0 es, [], [])"
  using assms by (rule parse_regular)

text \<open>A loop body visited twice, a load and a store.\<close>

definition sample_events :: "spike_event list" where
  "sample_events =
     [\<lparr>at_pc = 0x80000000, encoding = 0x00138393, disassembly = ''addi    t2, t2, 1'',
        written = Some (7, 1), accessed = NoAccess\<rparr>,
      \<lparr>at_pc = 0x80000004, encoding = 0xfe039ee3, disassembly = ''bnez    t2, pc - 4'',
        written = None, accessed = NoAccess\<rparr>,
      \<lparr>at_pc = 0x80000000, encoding = 0x00138393, disassembly = ''addi    t2, t2, 1'',
        written = Some (7, 2), accessed = NoAccess\<rparr>,
      \<lparr>at_pc = 0x80000008, encoding = 0x000fa503, disassembly = ''lw      a0, 0(t6)'',
        written = Some (10, 0xffffffff), accessed = ReadAt 0x80000100\<rparr>,
      \<lparr>at_pc = 0x8000000c, encoding = 0x00afa223, disassembly = ''sw      a0, 4(t6)'',
        written = None, accessed = WriteAt 0x80000104 0xffffffff\<rparr>]"

lemma wf_concrete:
  "wf_event \<lparr>at_pc = p, encoding = i, disassembly = d, written = r, accessed = a\<rparr>
   \<longleftrightarrow> d \<noteq> [] \<and> \<not> is_space (hd d) \<and> LF \<notin> set d \<and> CR \<notin> set d \<and> \<not> contains ''core'' d
     \<and> (case a of WriteAt a v \<Rightarrow> r = None | _ \<Rightarrow> True)"
  by (simp add: wf_event_def split: access.splits)

lemmas contains_eval = contains.simps [of _ "_ # _"] contains.simps [of _ "[]"]

lemma sample_regular: "regular sample_events"
  unfolding regular_def
proof (intro conjI)
  show "\<forall>e \<in> set sample_events. wf_event e \<and> at_pc e < 2 ^ 32 \<and> encoding e < 2 ^ 32"
    by (simp add: sample_events_def wf_concrete contains_eval is_space_def LF_def CR_def)
  show "uniform (reg_commits sample_events)" "uniform (mem_commits sample_events)"
    by (simp_all add: sample_events_def uniform_def reg_commits_def mem_commits_def key_of_def
        reg_commit_def mem_commit_def)
qed

lemma parse_spike_log_round_trip_witness:
  "parse_spike_log (spike_log 16 sample_events) = (spike_expected 0 sample_events, [], [])"
  by (rule parse_spike_log_round_trip [OF sample_regular])



end
