(* ===== verification/Compare.thy ===== *)
theory Compare
  imports Spike_Log Sv_Log
begin

text \<open>
  \<open>shared/spike/compare_accuracy.py\<close>: alignment of Spike's trace with the commit log of the core, the
  comparison of each pair of records, and the report. Every \<open>print\<close> is a component of the result: its
  values, not its wording.
\<close>

definition BASE_OFFSET :: int where "BASE_OFFSET = 0x80000000"
definition MASK32 :: int where "MASK32 = 0xFFFFFFFF"

definition values_match_allowing_pc_base :: "int \<Rightarrow> int \<Rightarrow> bool" where
  "values_match_allowing_pc_base sv_val spike_val =
     (if sv_val = spike_val then True
      else if (sv_val + BASE_OFFSET) AND MASK32 = spike_val then True
      else if sv_val = (spike_val + BASE_OFFSET) AND MASK32 then True
      else False)"

text \<open>\<open>trim_rest\<close> is the loop; its result is \<open>None\<close> when it runs through.\<close>

fun trim_rest :: "retirement list \<Rightarrow> int \<Rightarrow> retirement list option" where
  "trim_rest [] entry_addr = None"
| "trim_rest (r # rs) entry_addr = (if pc r = entry_addr then Some (r # rs) else trim_rest rs entry_addr)"

definition trim_boot_stub :: "retirement list \<Rightarrow> int \<Rightarrow> retirement list" where
  "trim_boot_stub records entry_addr =
     (case trim_rest records entry_addr of Some rs \<Rightarrow> rs | None \<Rightarrow> records)"

section \<open>One pair of records\<close>

type_synonym commit = "(int \<times> int) option"

datatype reason =
    PcDelta int int
  | RegPresence commit commit
  | RegRd int int
  | RegValue int int
  | MemPresence commit commit
  | MemMismatch int int int int

definition pc_reasons :: "int \<Rightarrow> int \<Rightarrow> retirement \<Rightarrow> retirement \<Rightarrow> reason list" where
  "pc_reasons spike_base_pc sv_base_pc sp sv =
     (let sp_delta = (pc sp - spike_base_pc) AND MASK32; sv_delta = (pc sv - sv_base_pc) AND MASK32
      in if sp_delta \<noteq> sv_delta then [PcDelta sp_delta sv_delta] else [])"

definition is_x0 :: "commit \<Rightarrow> bool" where
  "is_x0 w = (case w of Some (rd, _) \<Rightarrow> rd = 0 | None \<Rightarrow> False)"

definition reg_reasons :: "commit \<Rightarrow> commit \<Rightarrow> reason list" where
  "reg_reasons sp_reg0 sv_reg0 =
     (let sv_reg = (if sp_reg0 = None \<and> is_x0 sv_reg0 then None else sv_reg0);
          sp_reg = (if sv_reg = None \<and> is_x0 sp_reg0 then None else sp_reg0)
      in if (sp_reg = None) \<noteq> (sv_reg = None) then [RegPresence sp_reg sv_reg]
         else (case (sp_reg, sv_reg) of
                 (Some (sp_rd, sp_val0), Some (sv_rd, sv_val0)) \<Rightarrow>
                   (let sp_val = (if sp_rd = 0 then 0 else sp_val0);
                        sv_val = (if sv_rd = 0 then 0 else sv_val0)
                    in if sp_rd \<noteq> sv_rd then [RegRd sp_rd sv_rd]
                       else if \<not> values_match_allowing_pc_base sv_val sp_val then [RegValue sp_val sv_val]
                       else [])
               | _ \<Rightarrow> []))"

definition mem_reasons :: "commit \<Rightarrow> commit \<Rightarrow> reason list" where
  "mem_reasons sp_mem sv_mem =
     (if (sp_mem = None) \<noteq> (sv_mem = None) then [MemPresence sp_mem sv_mem]
      else (case (sp_mem, sv_mem) of
              (Some (sp_addr, sp_val), Some (sv_addr, sv_val)) \<Rightarrow>
                (let addr_ok = values_match_allowing_pc_base sv_addr sp_addr; val_ok = (sv_val = sp_val)
                 in if \<not> (addr_ok \<and> val_ok) then [MemMismatch sp_addr sp_val sv_addr sv_val] else [])
            | _ \<Rightarrow> []))"

text \<open>\<open>ok\<close> is cleared exactly when a reason is appended.\<close>

definition reasons_of :: "int \<Rightarrow> int \<Rightarrow> retirement \<Rightarrow> retirement \<Rightarrow> reason list" where
  "reasons_of spike_base_pc sv_base_pc sp sv =
     pc_reasons spike_base_pc sv_base_pc sp sv @ reg_reasons (reg sp) (reg sv) @ mem_reasons (mem sp) (mem sv)"

section \<open>The comparison loop\<close>

record mismatch =
  m_idx :: nat
  m_spike :: retirement
  m_sv :: retirement
  m_reasons :: "reason list"

record tally =
  total :: nat
  passed :: nat
  mismatches :: "mismatch list"

fun compare_loop :: "int \<Rightarrow> int \<Rightarrow> nat \<Rightarrow> (retirement \<times> retirement) list \<Rightarrow> tally \<Rightarrow> tally" where
  "compare_loop spike_base_pc sv_base_pc i [] t = t"
| "compare_loop spike_base_pc sv_base_pc i ((sp, sv) # ps) t =
     (let reasons = reasons_of spike_base_pc sv_base_pc sp sv;
          t1 = t\<lparr>total := total t + 1\<rparr>;
          t2 = (if reasons = [] then t1\<lparr>passed := passed t1 + 1\<rparr>
                else if length (mismatches t1) < 15 then
                  t1\<lparr>mismatches := mismatches t1
                      @ [\<lparr>m_idx = i, m_spike = sp, m_sv = sv, m_reasons = reasons\<rparr>]\<rparr>
                else t1)
      in compare_loop spike_base_pc sv_base_pc (i + 1) ps t2)"

text \<open>The report: the record counts printed first, the warnings, whether the lengths differ, and the
  final tally (\<open>None\<close> when there are no comparable records).\<close>

record report =
  counts :: "nat \<times> nat \<times> nat \<times> nat \<times> nat"
  spike_warning :: "(nat \<times> string) list"
  exception_warning :: "(nat \<times> string \<times> string) option"
  sv_warning :: "(nat \<times> string) list"
  lengths_differ :: bool
  result :: "tally option"

definition compare :: "string \<Rightarrow> string \<Rightarrow> report" where
  "compare spike_file sv_file =
     (let (spike_records_raw, spike_unrec, spike_exc) = parse_spike_log spike_file;
          (sv_records_raw, sv_unrec) = parse_sv_log sv_file;
          spike_records_trimmed = trim_boot_stub spike_records_raw 0x80000000;
          spike_records = truncate_at_self_loop 3 spike_records_trimmed;
          sv_records = truncate_at_self_loop 3 sv_records_raw;
          n = min (length spike_records) (length sv_records)
      in \<lparr>counts = (length spike_records_raw, length spike_records_raw - length spike_records_trimmed,
                    length spike_records, length sv_records_raw, length sv_records),
          spike_warning = take 3 spike_unrec,
          exception_warning = (case spike_exc of e # _ \<Rightarrow> Some e | [] \<Rightarrow> None),
          sv_warning = take 3 sv_unrec,
          lengths_differ = (length spike_records \<noteq> length sv_records),
          result =
            (if n = 0 then None
             else Some (compare_loop (pc (spike_records ! 0)) (pc (sv_records ! 0)) 0
                          (zip (take n spike_records) (take n sv_records))
                          \<lparr>total = 0, passed = 0, mismatches = []\<rparr>))\<rparr>)"

text \<open>The script: two file names are required; \<open>files\<close> is the contents of the files.\<close>

definition compare_script :: "(string \<Rightarrow> string) \<Rightarrow> string list \<Rightarrow> report py" where
  "compare_script files argv =
     (if length argv \<noteq> 3 then Inl (SystemExit 1) else Inr (compare (files (argv ! 1)) (files (argv ! 2))))"

section \<open>What a match means\<close>

text \<open>The specification: x0 writes do not count, values agree up to the base offset.\<close>

definition drop_x0 :: "commit \<Rightarrow> commit" where
  "drop_x0 w = (if is_x0 w then None else w)"

definition writes_agree :: "(int \<Rightarrow> int \<Rightarrow> bool) \<Rightarrow> (int \<Rightarrow> int \<Rightarrow> bool) \<Rightarrow> commit \<Rightarrow> commit \<Rightarrow> bool" where
  "writes_agree p q a b =
     (case (a, b) of
        (None, None) \<Rightarrow> True
      | (Some (x, v), Some (y, w)) \<Rightarrow> p x y \<and> q v w
      | _ \<Rightarrow> False)"

definition records_agree :: "int \<Rightarrow> int \<Rightarrow> retirement \<Rightarrow> retirement \<Rightarrow> bool" where
  "records_agree spike_base_pc sv_base_pc sp sv \<longleftrightarrow>
     (pc sp - spike_base_pc) mod 2 ^ 32 = (pc sv - sv_base_pc) mod 2 ^ 32
     \<and> writes_agree (=) (\<lambda>v w. values_match_allowing_pc_base w v) (drop_x0 (reg sp)) (drop_x0 (reg sv))
     \<and> writes_agree (\<lambda>a b. values_match_allowing_pc_base b a) (=) (mem sp) (mem sv)"

lemma mask_mod: "x AND MASK32 = x mod 2 ^ 32"
  by (simp add: MASK32_def and_mask_take take_bit_eq_mod)

lemma match_refl [simp]: "values_match_allowing_pc_base v v"
  by (simp add: values_match_allowing_pc_base_def)

lemma pc_reasons_none:
  "pc_reasons b b' sp sv = [] \<longleftrightarrow> (pc sp - b) mod 2 ^ 32 = (pc sv - b') mod 2 ^ 32"
  by (simp add: pc_reasons_def mask_mod Let_def)

lemma reg_reasons_none:
  "reg_reasons sp sv = []
     \<longleftrightarrow> writes_agree (=) (\<lambda>v w. values_match_allowing_pc_base w v) (drop_x0 sp) (drop_x0 sv)"
  by (cases sp; cases sv)
    (auto simp: reg_reasons_def writes_agree_def drop_x0_def is_x0_def Let_def split: prod.splits if_splits)

lemma mem_reasons_none:
  "mem_reasons sp sv = [] \<longleftrightarrow> writes_agree (\<lambda>a b. values_match_allowing_pc_base b a) (=) sp sv"
  by (cases sp; cases sv) (auto simp: mem_reasons_def writes_agree_def Let_def split: prod.splits if_splits)

lemma reasons_none: "reasons_of b b' sp sv = [] \<longleftrightarrow> records_agree b b' sp sv"
  by (simp add: reasons_of_def records_agree_def pc_reasons_none reg_reasons_none mem_reasons_none)

lemma values_match_mod:
  assumes "fits 32 a" "fits 32 b"
  shows "values_match_allowing_pc_base a b \<longleftrightarrow> a mod 2 ^ 31 = b mod 2 ^ 31"
proof -
  have v: "values_match_allowing_pc_base a b
      \<longleftrightarrow> a = b \<or> (a + 2 ^ 31) mod 2 ^ 32 = b \<or> a = (b + 2 ^ 31) mod 2 ^ 32"
    by (simp add: values_match_allowing_pc_base_def mask_mod BASE_OFFSET_def)
  have s: "(x + 2 ^ 31) mod 2 ^ 32 = (if x < 2 ^ 31 then x + 2 ^ 31 else x - 2 ^ 31)"
    "x mod 2 ^ 31 = (if x < 2 ^ 31 then x else x - 2 ^ 31)" if "fits 32 x" for x :: int
    using that int_mod_pos_eq [of "x + 2 ^ 31" "2 ^ 32" 1 "x - 2 ^ 31"] int_mod_pos_eq [of x "2 ^ 31" 1 "x - 2 ^ 31"]
    by (auto simp: fits_def)
  show ?thesis
    using assms unfolding v s [OF assms(1)] s [OF assms(2)] by (auto simp: fits_def)
qed

section \<open>The tally\<close>

lemma loop_total: "total (compare_loop b b' i ps t) = total t + length ps"
  by (induction b b' i ps t rule: compare_loop.induct) (simp_all add: Let_def)

lemma loop_passed:
  "passed (compare_loop b b' i ps t) = passed t + length (filter (\<lambda>(sp, sv). records_agree b b' sp sv) ps)"
  by (induction b b' i ps t rule: compare_loop.induct) (simp_all add: Let_def reasons_none)

text \<open>The positions of the pairs that do not agree.\<close>

fun failing :: "int \<Rightarrow> int \<Rightarrow> nat \<Rightarrow> (retirement \<times> retirement) list \<Rightarrow> nat list" where
  "failing b b' i [] = []"
| "failing b b' i ((sp, sv) # ps) = (if records_agree b b' sp sv then [] else [i]) @ failing b b' (i + 1) ps"

lemma loop_mismatches:
  "length (mismatches t) \<le> 15 \<Longrightarrow>
   map m_idx (mismatches (compare_loop b b' i ps t)) = take 15 (map m_idx (mismatches t) @ failing b b' i ps)"
proof (induction b b' i ps t rule: compare_loop.induct)
  case (2 b b' i sp sv ps t)
  show ?case
  proof (cases "records_agree b b' sp sv")
    case True
    with 2 show ?thesis by (simp add: Let_def reasons_none)
  next
    case False
    with 2 show ?thesis
      by (cases "length (mismatches t) < 15") (simp_all add: Let_def reasons_none)
  qed
qed simp

lemma failing_positions: "failing b b' i ps = filter (\<lambda>j. \<not> (case ps ! (j - i) of (sp, sv) \<Rightarrow> records_agree b b' sp sv)) [i ..< i + length ps]"
proof (induction b b' i ps rule: failing.induct)
  case (2 b b' i sp sv ps)
  have "[i ..< i + length ((sp, sv) # ps)] = i # [Suc i ..< Suc i + length ps]"
    by (subst upt_rec) (simp del: upt_Suc)
  moreover have "filter (\<lambda>j. \<not> (case ((sp, sv) # ps) ! (j - i) of (sp, sv) \<Rightarrow> records_agree b b' sp sv)) [Suc i ..< Suc i + length ps]
      = filter (\<lambda>j. \<not> (case ps ! (j - Suc i) of (sp, sv) \<Rightarrow> records_agree b b' sp sv)) [Suc i ..< Suc i + length ps]"
    by (rule filter_cong) (auto simp: nth_Cons')
  ultimately show ?case using 2 by simp
qed simp

definition spike_side :: "string \<Rightarrow> retirement list" where
  "spike_side f = truncate_at_self_loop 3 (trim_boot_stub (fst (parse_spike_log f)) 0x80000000)"

definition sv_side :: "string \<Rightarrow> retirement list" where
  "sv_side g = truncate_at_self_loop 3 (fst (parse_sv_log g))"

lemma compare_result:
  "result (compare f g) =
     (let n = min (length (spike_side f)) (length (sv_side g))
      in if n = 0 then None
         else Some (compare_loop (pc (spike_side f ! 0)) (pc (sv_side g ! 0)) 0
                (zip (take n (spike_side f)) (take n (sv_side g))) \<lparr>total = 0, passed = 0, mismatches = []\<rparr>))"
proof -
  obtain rs u x qs v where p: "parse_spike_log f = (rs, u, x)" "parse_sv_log g = (qs, v)"
    by (metis prod.exhaust)
  show ?thesis
    by (simp only: compare_def spike_side_def sv_side_def Let_def p prod.case fst_conv report.simps)
qed

text \<open>C38: Two recorded values of 32 bits are taken to match exactly when they agree modulo 2^31: besides
  the intended base offset, every difference in bit 31 alone goes unnoticed.\<close>

theorem values_match_iff_low_bits:
  assumes "fits 32 sv_val" "fits 32 spike_val"
  shows "values_match_allowing_pc_base sv_val spike_val \<longleftrightarrow> sv_val mod 2 ^ 31 = spike_val mod 2 ^ 31"
  using assms by (rule values_match_mod)

lemma values_match_iff_low_bits_witness:
  "values_match_allowing_pc_base 0 0x80000000 \<longleftrightarrow> 0 mod 2 ^ 31 = (0x80000000 :: int) mod 2 ^ 31"
  by (rule values_match_iff_low_bits) (simp_all add: fits_def)

text \<open>C30: The accuracy report counts: of the \<open>n\<close> pairs of records present on both sides, \<open>passed\<close> is the
  number of pairs that agree (same PC distance from the first record, same register write not counting
  x0, same store), and the mismatches listed are the first fifteen others, in order; there is no
  tally exactly when one side is empty.\<close>

theorem compare_tally:
  "let sp = spike_side f; sv = sv_side g; n = min (length sp) (length sv);
       agree = (\<lambda>i. records_agree (pc (sp ! 0)) (pc (sv ! 0)) (sp ! i) (sv ! i))
   in case result (compare f g) of
        None \<Rightarrow> n = 0
      | Some t \<Rightarrow> total t = n \<and> passed t = length (filter agree [0 ..< n])
          \<and> map m_idx (mismatches t) = take 15 (filter (\<lambda>i. \<not> agree i) [0 ..< n])"
proof -
  define sp sv where "sp = spike_side f" and "sv = sv_side g"
  define n where "n = min (length sp) (length sv)"
  let ?ps = "zip (take n sp) (take n sv)"
  let ?agree = "\<lambda>i. records_agree (pc (sp ! 0)) (pc (sv ! 0)) (sp ! i) (sv ! i)"
  have l: "length ?ps = n" "min (min (length sp) n) (min (length sv) n) = n" by (simp_all add: n_def)
  have nth: "?ps ! i = (sp ! i, sv ! i)" if "i < n" for i using that by (simp add: n_def)
  have ps: "?ps = map (\<lambda>i. (sp ! i, sv ! i)) [0 ..< n]"
    by (rule nth_equalityI) (simp_all add: l nth)
  have "failing (pc (sp ! 0)) (pc (sv ! 0)) 0 ?ps = filter (\<lambda>i. \<not> ?agree i) [0 ..< n]"
    unfolding failing_positions l(1) by (rule filter_cong) (simp_all add: nth)
  moreover have "length (filter (\<lambda>(a, b). records_agree (pc (sp ! 0)) (pc (sv ! 0)) a b) ?ps) = length (filter ?agree [0 ..< n])"
    unfolding ps by (simp add: filter_map comp_def)
  ultimately show ?thesis
    using l by (simp add: compare_result sp_def [symmetric] sv_def [symmetric] n_def [symmetric] Let_def
        loop_total loop_passed loop_mismatches)
qed

end
