(* ===== verification/End_To_End.thy ===== *)
theory End_To_End
  imports Compare
begin

text \<open>
  The comparison as a whole: when Spike and the core execute the same instructions, up to the base
  offset of 2^31 in PC-derived values, the accuracy reported from the two log files is 100%.
\<close>

section \<open>The same execution on both sides\<close>

text \<open>Equal, or moved by the distance between the two reset vectors.\<close>

definition moved :: "nat \<Rightarrow> 32 word \<Rightarrow> bool" where
  "moved a v \<longleftrightarrow> int a = uint v \<or> int a = (uint v + 2 ^ 31) mod 2 ^ 32"

text \<open>
  One instruction as Spike logs it and as the core's logger samples it. Spike logs no write to x0; the
  core samples one.
\<close>

definition same_reg :: "(nat \<times> nat) option \<Rightarrow> (5 word \<times> 32 word) option \<Rightarrow> bool" where
  "same_reg a b =
     (case b of
        None \<Rightarrow> a = None
      | Some (rd, v) \<Rightarrow>
          if rd = 0 then a = None
          else (case a of Some (x, y) \<Rightarrow> x = unat rd \<and> moved y v | None \<Rightarrow> False))"

definition same_mem :: "access \<Rightarrow> (32 word \<times> 32 word) option \<Rightarrow> bool" where
  "same_mem a b =
     (case a of
        WriteAt x y \<Rightarrow> (case b of Some (ad, d) \<Rightarrow> moved x ad \<and> y = unat d | None \<Rightarrow> False)
      | _ \<Rightarrow> b = None)"

definition same_step ::
    "spike_event \<Rightarrow> 32 word \<times> (5 word \<times> 32 word) option \<Rightarrow> (32 word \<times> 32 word) option \<Rightarrow> bool" where
  "same_step e w m \<longleftrightarrow>
     int (at_pc e) = (uint (fst w) + 2 ^ 31) mod 2 ^ 32
     \<and> same_reg (written e) (snd w) \<and> same_mem (Spike_Log.accessed e) m"

text \<open>Spike's log: a boot stub, then the program from 0x80000000 on. The core's EX/MEM stage is ahead.\<close>

definition same_execution :: "spike_event list \<Rightarrow> spike_event list \<Rightarrow> edge list \<Rightarrow> bool" where
  "same_execution boot body es \<longleftrightarrow>
     (\<forall>e \<in> set boot. at_pc e \<noteq> 0x80000000)
     \<and> body \<noteq> [] \<and> at_pc (hd body) = 0x80000000
     \<and> retired es \<noteq> [] \<and> length (retired es) \<le> length (Sv_Log.accessed es)
     \<and> (\<forall>i < min (length body) (length (retired es)).
          same_step (body ! i) (retired es ! i) (Sv_Log.accessed es ! i))"

section \<open>Both sides of the comparison\<close>

lemma spike_expected_append:
  "spike_expected i (xs @ ys) = spike_expected i xs @ spike_expected (i + int (length xs)) ys"
  by (induction xs arbitrary: i) (simp_all add: algebra_simps)

lemma length_spike_expected [simp]: "length (spike_expected i es) = length es"
  by (induction es arbitrary: i) simp_all

lemma nth_spike_expected:
  "j < length es \<Longrightarrow> spike_expected i es ! j =
     \<lparr>idx = i + int j, pc = int (at_pc (es ! j)), instr = Some (int (encoding (es ! j))),
      reg = reg_commit (es ! j), mem = mem_commit (es ! j)\<rparr>"
proof (induction es arbitrary: i j)
  case (Cons e es)
  then show ?case by (cases j) simp_all
qed simp

lemma trim_expected:
  "\<forall>e \<in> set boot. at_pc e \<noteq> 0x80000000 \<Longrightarrow> at_pc e = 0x80000000 \<Longrightarrow>
   trim_rest (spike_expected i boot @ spike_expected j (e # es)) 0x80000000 = Some (spike_expected j (e # es))"
proof (induction boot arbitrary: i)
  case (Cons b boot)
  then have "int (at_pc b) \<noteq> 0x80000000" by (metis int_eq_iff_numeral list.set_intros(1))
  with Cons show ?case by simp
qed simp

lemma cut_run_prefix: "\<exists>k. cut_run t rs = take k rs \<and> (rs \<noteq> [] \<longrightarrow> 0 < k)"
proof (induction rs)
  case (Cons r rs)
  then obtain k where "cut_run t rs = take k rs" by blast
  then have "cut_run t (r # rs) = take (if same_pc t (r # rs) then 1 else Suc k) (r # rs)" by simp
  then show ?case by (metis neq0_conv zero_less_Suc zero_neq_one)
qed simp

lemma truncate_prefix:
  obtains k where "truncate_at_self_loop 3 rs = take k rs" "rs \<noteq> [] \<Longrightarrow> 0 < k"
  using truncate_cut [of 3 rs] cut_run_prefix [of 3 rs] by auto

section \<open>Agreement\<close>

lemma uint_fits: "fits 32 (uint (v :: 32 word))"
  using uint_lt2p [of v] by (simp add: fits_def)

lemma base_shift_zero:
  assumes "fits 32 x" "(x + 2 ^ 31) mod 2 ^ 32 = 2 ^ 31"
  shows "x = 0"
proof (cases "x < 2 ^ 31")
  case True
  then have "(x + 2 ^ 31) mod 2 ^ 32 = x + 2 ^ 31" using assms(1) by (simp add: fits_def)
  with assms(2) show ?thesis by simp
next
  case False
  then have "(x + 2 ^ 31) mod 2 ^ 32 = x - 2 ^ 31"
    using assms(1) int_mod_pos_eq [of "x + 2 ^ 31" "2 ^ 32" 1 "x - 2 ^ 31"] by (simp add: fits_def)
  with assms show ?thesis by (simp add: fits_def)
qed

lemma moved_match:
  assumes "moved a v"
  shows "mask32 (int a) = int a" "values_match_allowing_pc_base (uint v) (int a)"
proof -
  have "fits 32 (int a)" using assms uint_fits [of v] by (auto simp: moved_def fits_def)
  then show "mask32 (int a) = int a" by (simp add: mask32_def and_mask_take fits_take)
  show "values_match_allowing_pc_base (uint v) (int a)"
    using assms by (auto simp: moved_def values_match_allowing_pc_base_def mask_mod BASE_OFFSET_def)
qed

lemma same_reg_agree:
  assumes "same_reg (written e) b"
  shows "writes_agree (=) (\<lambda>v w. values_match_allowing_pc_base w v) (drop_x0 (reg_commit e)) (drop_x0 (reg_of b))"
proof (cases b)
  case None
  with assms show ?thesis
    by (simp add: same_reg_def reg_commit_def reg_of_def drop_x0_def is_x0_def writes_agree_def)
next
  case (Some p)
  obtain rd v where b: "b = Some (rd, v)" using Some by (cases p) simp
  show ?thesis
  proof (cases "rd = 0")
    case True
    with assms b show ?thesis
      by (simp add: same_reg_def reg_commit_def reg_of_def drop_x0_def is_x0_def writes_agree_def)
  next
    case False
    then obtain y where y: "written e = Some (unat rd, y)" "moved y v"
      using assms b by (auto simp: same_reg_def split: option.splits)
    have "uint rd \<noteq> 0" using False by (simp add: uint_0_iff)
    then show ?thesis
      using moved_match [OF y(2)] y(1) b
      by (simp add: reg_commit_def reg_of_def drop_x0_def is_x0_def writes_agree_def)
  qed
qed

lemma same_mem_agree:
  assumes "same_mem (Spike_Log.accessed e) m"
  shows "writes_agree (\<lambda>a b. values_match_allowing_pc_base b a) (=) (mem_commit e) (mem_of m)"
proof (cases "Spike_Log.accessed e")
  case (WriteAt x y)
  then obtain ad d where m: "m = Some (ad, d)" "moved x ad" "y = unat d"
    using assms by (auto simp: same_mem_def split: option.splits)
  have "mask32 (int y) = uint d" using m(3) by (simp add: mask32_def)
  then show ?thesis
    using moved_match [OF m(2)] WriteAt m(1) by (simp add: mem_commit_def mem_of_def writes_agree_def)
qed (use assms in \<open>simp_all add: same_mem_def mem_commit_def mem_of_def writes_agree_def\<close>)

lemma same_step_agree:
  assumes "same_step e w m" "b = 0x80000000"
  shows "records_agree b 0
    \<lparr>idx = i, pc = int (at_pc e), instr = n, reg = reg_commit e, mem = mem_commit e\<rparr>
    \<lparr>idx = j, pc = uint (fst w), instr = n', reg = reg_of (snd w), mem = mem_of m\<rparr>"
proof -
  have "(int (at_pc e) - b) mod 2 ^ 32 = uint (fst w) mod 2 ^ 32"
    using assms by (simp add: same_step_def mod_diff_left_eq)
  then show ?thesis
    using assms same_reg_agree [of e "snd w"] same_mem_agree [of e m]
    by (simp add: records_agree_def same_step_def)
qed

lemma sv_expected_nth:
  "i < length (retired es) \<Longrightarrow> length (retired es) \<le> length (Sv_Log.accessed es) \<Longrightarrow>
   sv_expected es ! i = \<lparr>idx = int i, pc = uint (fst (retired es ! i)), instr = None,
     reg = reg_of (snd (retired es ! i)), mem = mem_of (Sv_Log.accessed es ! i)\<rparr>"
  by (simp add: sv_expected_def)

section \<open>The report\<close>

lemma loop_all_agree:
  "\<forall>(sp, sv) \<in> set ps. records_agree b b' sp sv \<Longrightarrow> mismatches t = [] \<Longrightarrow>
   compare_loop b b' i ps t = t\<lparr>total := total t + length ps, passed := passed t + length ps\<rparr>"
  by (induction b b' i ps t rule: compare_loop.induct) (auto simp: Let_def reasons_none)

text \<open>The records of both sides.\<close>

lemma sides_same_execution:
  assumes "regular (boot @ body)" "same_execution boot body es"
  shows "spike_side (spike_log w (boot @ body)) = truncate_at_self_loop 3 (spike_expected (int (length boot)) body)"
    "sv_side (commit_log es) = truncate_at_self_loop 3 (sv_expected es)"
proof -
  have p: "parse_spike_log (spike_log w (boot @ body)) = (spike_expected 0 (boot @ body), [], [])"
    using parse_regular [OF assms(1)] by simp
  have "\<forall>e \<in> set boot. at_pc e \<noteq> 0x80000000" "at_pc (hd body) = 0x80000000" "body \<noteq> []"
    using assms(2) by (simp_all add: same_execution_def)
  then have "trim_boot_stub (spike_expected 0 (boot @ body)) 0x80000000 = spike_expected (int (length boot)) body"
    using trim_expected [of boot "hd body" 0 "int (length boot)" "tl body"]
    by (simp add: trim_boot_stub_def spike_expected_append)
  then show "spike_side (spike_log w (boot @ body)) = truncate_at_self_loop 3 (spike_expected (int (length boot)) body)"
    "sv_side (commit_log es) = truncate_at_self_loop 3 (sv_expected es)"
    by (simp_all add: spike_side_def sv_side_def p parse_commit_log)
qed

lemma compare_same_execution:
  fixes w :: nat
  assumes "regular (boot @ body)" "same_execution boot body es"
  defines "n \<equiv> min (length (spike_side (spike_log w (boot @ body)))) (length (sv_side (commit_log es)))"
  shows "0 < n"
    and "result (compare (spike_log w (boot @ body)) (commit_log es)) = Some \<lparr>total = n, passed = n, mismatches = []\<rparr>"
    and "spike_warning (compare (spike_log w (boot @ body)) (commit_log es)) = []"
    and "exception_warning (compare (spike_log w (boot @ body)) (commit_log es)) = None"
    and "sv_warning (compare (spike_log w (boot @ body)) (commit_log es)) = []"
proof -
  let ?f = "spike_log w (boot @ body)" and ?g = "commit_log es"
  have p: "parse_spike_log ?f = (spike_expected 0 (boot @ body), [], [])" "parse_sv_log ?g = (sv_expected es, [])"
    using parse_regular [OF assms(1)] parse_commit_log by simp_all
  show "spike_warning (compare ?f ?g) = []" "exception_warning (compare ?f ?g) = None" "sv_warning (compare ?f ?g) = []"
    by (simp_all add: compare_def p Let_def)
  let ?sp = "spike_expected (int (length boot)) body" and ?sv = "sv_expected es"
  note s = sides_same_execution(1) [OF assms(1,2), of w] sides_same_execution(2) [OF assms(1,2)]
  have hd: "at_pc (hd body) = 0x80000000"
    and ne: "body \<noteq> []" "retired es \<noteq> []" and ahead: "length (retired es) \<le> length (Sv_Log.accessed es)"
    using assms(2) by (simp_all add: same_execution_def)
  have steps: "same_step (body ! i) (retired es ! i) (Sv_Log.accessed es ! i)"
    if "i < length body" "i < length (retired es)" for i
    using assms(2) that by (simp add: same_execution_def)
  have lsv: "length ?sv = length (retired es)" by (simp add: sv_expected_def)
  have nonempty: "?sp \<noteq> []" "?sv \<noteq> []"
    using ne lsv length_spike_expected [of "int (length boot)" body] by (metis length_0_conv)+
  obtain k where k: "truncate_at_self_loop 3 ?sp = take k ?sp" "0 < k"
    using truncate_prefix [of ?sp] nonempty(1) by blast
  obtain l where l: "truncate_at_self_loop 3 ?sv = take l ?sv" "0 < l"
    using truncate_prefix [of ?sv] nonempty(2) by blast
  have nn: "n = min (length (take k ?sp)) (length (take l ?sv))" unfolding n_def s k(1) l(1) by (rule refl)
  show n: "0 < n" using k(2) l(2) ne lsv by (simp add: nn)
  have b: "pc (take k ?sp ! 0) = 0x80000000" "pc (take l ?sv ! 0) = 0"
  proof -
    have i0: "0 < length body" "0 < length (retired es)" using ne by simp_all
    have h: "int (at_pc (body ! 0)) = 0x80000000" using hd ne(1) by (simp add: hd_conv_nth)
    then show "pc (take k ?sp ! 0) = 0x80000000" using k(2) i0 by (simp add: nth_spike_expected)
    have "(uint (fst (retired es ! 0)) + 2 ^ 31) mod 2 ^ 32 = 2 ^ 31"
      using steps [OF i0] h by (simp add: same_step_def)
    then have "uint (fst (retired es ! 0)) = 0"
      by (rule base_shift_zero [OF uint_fits])
    then show "pc (take l ?sv ! 0) = 0" using l(2) i0 ahead by (simp add: sv_expected_nth)
  qed
  have "\<forall>(sp, sv) \<in> set (zip (take n (take k ?sp)) (take n (take l ?sv))). records_agree 0x80000000 0 sp sv"
  proof (clarsimp simp: set_zip)
    fix i
    assume "i < length body" "i < k" "i < length ?sv" "i < l"
    then show "records_agree 0x80000000 0 (?sp ! i) (?sv ! i)"
      using same_step_agree [OF steps refl] ahead lsv by (simp add: nth_spike_expected sv_expected_nth)
  qed
  from loop_all_agree [OF this, of "\<lparr>total = 0, passed = 0, mismatches = []\<rparr>" 0]
  show "result (compare ?f ?g) = Some \<lparr>total = n, passed = n, mismatches = []\<rparr>"
    unfolding compare_result s k(1) l(1) using n b unfolding nn by (simp add: Let_def)
qed

text \<open>C9: When both simulators execute the same instructions (PCs moved by the base offset, values equal or
  moved by it, stores with equal data), the accuracy computed from the text of the two log files is
  100%: every record of the shorter truncated trace is compared, at least one, all pass, nothing is
  listed as a mismatch, and no line of either log is unrecognised, whatever the boot stub is and
  wherever the logs stop.\<close>

theorem same_execution_full_accuracy:
  assumes "regular (boot @ body)" "same_execution boot body es"
  shows "let f = spike_log w (boot @ body); g = commit_log es; rep = compare f g;
             n = min (length (spike_side f)) (length (sv_side g))
    in 0 < n \<and> result rep = Some \<lparr>total = n, passed = n, mismatches = []\<rparr>
       \<and> spike_warning rep = [] \<and> exception_warning rep = None \<and> sv_warning rep = []"
  using compare_same_execution [OF assms] by (simp only: Let_def)

text \<open>A boot instruction, then auipc, a store through the register it sets, and the endless branch.\<close>

definition sample_boot :: "spike_event list" where
  "sample_boot = [\<lparr>at_pc = 0x1000, encoding = 0x297, disassembly = ''auipc   t0, 0x0'',
     written = Some (5, 0x1000), accessed = NoAccess\<rparr>]"

definition sample_body :: "spike_event list" where
  "sample_body =
     [\<lparr>at_pc = 0x80000000, encoding = 0xf97, disassembly = ''auipc   t6, 0x0'',
        written = Some (31, 0x80000000), accessed = NoAccess\<rparr>,
      \<lparr>at_pc = 0x80000004, encoding = 0x005fa223, disassembly = ''sw      t0, 4(t6)'',
        written = None, accessed = WriteAt 0x80000004 0x1000\<rparr>,
      \<lparr>at_pc = 0x80000008, encoding = 0x63, disassembly = ''beqz    zero, pc + 0'',
        written = None, accessed = NoAccess\<rparr>]"

definition sample_edges :: "edge list" where
  "sample_edges =
     [\<lparr>ex_mem = Some None, mem_wb = None\<rparr>,
      \<lparr>ex_mem = Some (Some (4, 0x1000)), mem_wb = Some (0, Some (31, 0))\<rparr>,
      \<lparr>ex_mem = Some None, mem_wb = Some (4, None)\<rparr>,
      \<lparr>ex_mem = None, mem_wb = Some (8, None)\<rparr>]"

lemma sample_execution: "regular (sample_boot @ sample_body)" "same_execution sample_boot sample_body sample_edges"
proof -
  show "regular (sample_boot @ sample_body)"
    unfolding regular_def
  proof (intro conjI)
    show "\<forall>e \<in> set (sample_boot @ sample_body). wf_event e \<and> at_pc e < 2 ^ 32 \<and> encoding e < 2 ^ 32"
      by (simp add: sample_boot_def sample_body_def wf_concrete contains_eval is_space_def LF_def CR_def)
    show "uniform (reg_commits (sample_boot @ sample_body))" "uniform (mem_commits (sample_boot @ sample_body))"
      by (simp_all add: sample_boot_def sample_body_def uniform_def reg_commits_def mem_commits_def
          key_of_def reg_commit_def mem_commit_def)
  qed
  have r: "retired sample_edges = [(0, Some (31, 0)), (4, None), (8, None)]"
    "Sv_Log.accessed sample_edges = [None, Some (4, 0x1000), None]"
    by (simp_all add: sample_edges_def)
  show "same_execution sample_boot sample_body sample_edges"
    unfolding same_execution_def r
    by (simp add: sample_boot_def sample_body_def same_step_def same_reg_def same_mem_def moved_def All_less_Suc)
qed

lemma same_execution_full_accuracy_witness:
  "let f = spike_log 8 (sample_boot @ sample_body); g = commit_log sample_edges; rep = compare f g;
       n = min (length (spike_side f)) (length (sv_side g))
   in 0 < n \<and> result rep = Some \<lparr>total = n, passed = n, mismatches = []\<rparr>
      \<and> spike_warning rep = [] \<and> exception_warning rep = None \<and> sv_warning rep = []"
  by (rule same_execution_full_accuracy [OF sample_execution])

end
