(* ===== verification/Spike_Reference.thy ===== *)
theory Spike_Reference
  imports Relocated End_To_End Gen_Main
begin

text \<open>
  What the flow relies on Spike for: it loads the segment of \<open>program.elf\<close> and executes RV32I from its
  entry point, logging each instruction with the text of its own disassembler (\<open>spike_executes\<close>). Run on
  the file of a generated program this gives a log the parser is made for (\<open>executed_regular\<close>) which
  tells the same execution as the core's (\<open>executed_steps\<close>).
\<close>

section \<open>Loading and logging\<close>

text \<open>Memory outside the segment reads as zero; the registers are whatever the boot code left.\<close>

definition load_elf :: "bytes \<Rightarrow> regs \<Rightarrow> rv" where
  "load_elf elf regs =
     (case elf_segment elf of (entry, vaddr, bs) \<Rightarrow>
        \<lparr>rv_pc = word_of_int entry, rv_regs = regs,
         rv_mem = (\<lambda>a. let i = unat (a - word_of_int vaddr) in if i < length bs then bs ! i else 0)\<rparr>)"

definition logs :: "spike_event \<Rightarrow> rv_event \<Rightarrow> bool" where
  "logs e f \<longleftrightarrow>
     at_pc e = unat (ev_pc f) \<and> encoding e = unat (ev_instr f)
     \<and> written e = (case ev_write f of None \<Rightarrow> None | Some (rd, v) \<Rightarrow> if rd = 0 then None else Some (unat rd, unat v))
     \<and> Spike_Log.accessed e = (case ev_access f of Quiet \<Rightarrow> NoAccess | Loads x \<Rightarrow> ReadAt (unat x)
         | Stores x v \<Rightarrow> WriteAt (unat x) (unat v))"

text \<open>The text the disassembler may print: not empty, starting visibly, on one line, without the word core.\<close>

definition printable :: "string \<Rightarrow> bool" where
  "printable d \<longleftrightarrow> d \<noteq> [] \<and> \<not> is_space (hd d) \<and> LF \<notin> set d \<and> CR \<notin> set d \<and> \<not> contains ''core'' d"

definition spike_executes :: "regs \<Rightarrow> bytes \<Rightarrow> spike_event list \<Rightarrow> bool" where
  "spike_executes regs elf body \<longleftrightarrow>
     list_all2 logs body (emits rv_step (length body) (load_elf elf regs))
     \<and> (\<forall>e \<in> set body. printable (disassembly e))"

section \<open>The loaded program\<close>

lemma nth_word_bytes:
  "j < length ws \<Longrightarrow> x < 4 \<Longrightarrow> word_bytes ws ! (4 * j + x) = word_of_int (drop_bit (8 * x) (ws ! j))"
proof (induction ws arbitrary: j)
  case (Cons w ws)
  have c: "word_bytes (w # ws) = le_bytes 4 w @ word_bytes ws" by (simp add: word_bytes_def)
  show ?case
  proof (cases j)
    case 0
    with Cons.prems(2) show ?thesis unfolding c by (simp add: nth_append) (simp add: le_bytes_def)
  next
    case (Suc j')
    with Cons show ?thesis unfolding c by (simp add: nth_append)
  qed
qed simp

lemma word_of_bytes:
  fixes w :: int
  assumes "\<And>x. x < 4 \<Longrightarrow> m (a + of_nat x) = word_of_int (drop_bit (8 * x) w)"
  shows "word_of m a = word_of_int w"
proof -
  have "word_of m a = word_cat (word_cat (word_of_int (drop_bit 24 w) :: 8 word) (word_of_int (drop_bit 16 w) :: 8 word) :: 16 word)
      (word_cat (word_of_int (drop_bit 8 w) :: 8 word) (word_of_int w :: 8 word) :: 16 word)"
    using assms [of 0] assms [of 1] assms [of 2] assms [of 3] by (simp add: word_of_def half_of_def add.assoc)
  also have "\<dots> = word_of_int w"
    by (rule bit_word_eqI) (auto simp: bit_simps bit_word_cat_iff)
  finally show ?thesis .
qed

lemma loaded_word:
  assumes "elf_segment elf = (ENTRY_ADDR, ENTRY_ADDR, word_bytes P)" "j < 1024"
  shows "word_of (rv_mem (load_elf elf regs)) (word_pc j + base) = (if j < length P then word_of_int (P ! j) else 0)"
proof -
  have m: "rv_mem (load_elf elf regs) (word_pc j + base + of_nat x)
      = (if j < length P then word_of_int (drop_bit (8 * x) (P ! j)) else 0)" if "x < 4" for x
  proof -
    have "unat (of_nat x :: u32w) = x" using that by (simp add: unsigned_of_nat take_bit_nat_eq_self)
    then have "unat (word_pc j + base + of_nat x - base) = 4 * j + x"
      using word_pc_byte [OF assms(2), of "of_nat x"] that by simp
    then show ?thesis
      using that nth_word_bytes [of j P x] by (simp add: load_elf_def assms(1) ENTRY_ADDR_def Let_def)
  qed
  have "word_of (rv_mem (load_elf elf regs)) (word_pc j + base) = word_of_int (if j < length P then P ! j else 0)"
    by (rule word_of_bytes) (simp add: m)
  then show ?thesis by simp
qed

lemma built_beside:
  assumes "build_full_program n t = (Inr (map Some P, r), t')" "elf_segment elf = (ENTRY_ADDR, ENTRY_ADDR, word_bytes P)"
  shows "beside P outside start_arch (load_elf elf regs)"
  unfolding beside_def
proof (intro conjI exI)
  show "stays_in_window P outside start_arch" by (rule built_stays [OF assms(1)])
  show "relocatable_program P (nat n + 31)" by (rule built_relocatable [OF assms(1)])
  have "rv_pc (load_elf elf regs) = base" by (simp add: load_elf_def assms(2) ENTRY_ADDR_def)
  then show "shifted P 0 start_arch (load_elf elf regs)"
    using loaded_word [OF assms(2)] by (auto simp: shifted_def start_arch_def word_pc_def same_regs_def unsigned_eq_0_iff)
qed simp


section \<open>The log\<close>

text \<open>Whether an instruction writes a register or the memory shows in its encoding.\<close>

definition writes_reg :: "u32w \<Rightarrow> bool" where
  "writes_reg i \<longleftrightarrow> i_opcode i \<notin> {0b0100011, 0b1100011} \<and> i_rd i \<noteq> 0"

definition writes_mem :: "u32w \<Rightarrow> bool" where
  "writes_mem i \<longleftrightarrow> i_opcode i = 0b0100011"

lemma rv_step_shape:
  assumes "rv_step S = Some (f, S')"
  shows "(\<exists>rd v. ev_write f = Some (rd, v) \<and> rd \<noteq> 0) \<longleftrightarrow> writes_reg (ev_instr f)"
    "(\<exists>x v. ev_access f = Stores x v) \<longleftrightarrow> writes_mem (ev_instr f)"
    "ev_access f = Stores x v \<Longrightarrow> ev_write f = None"
proof -
  define i where "i = word_of (rv_mem S) (rv_pc S)"
  have x: "rv_execute i S = Some (f, S')" using assms by (simp add: rv_step_def i_def)
  have r: "retire i p w a m S = Some (f, S') \<Longrightarrow> ev_instr f = i \<and> ev_write f = w \<and> ev_access f = a" for p w a m
    by (auto simp: retire_def split: if_splits)
  have "((\<exists>rd v. ev_write f = Some (rd, v) \<and> rd \<noteq> 0) \<longleftrightarrow> writes_reg (ev_instr f))
    \<and> ((\<exists>x v. ev_access f = Stores x v) \<longleftrightarrow> writes_mem (ev_instr f)) \<and> (\<forall>x v. ev_access f = Stores x v \<longrightarrow> ev_write f = None)"
    using x unfolding rv_execute_def Let_def writes_reg_def writes_mem_def
    by (auto dest!: r split: if_splits option.splits)
  then show "(\<exists>rd v. ev_write f = Some (rd, v) \<and> rd \<noteq> 0) \<longleftrightarrow> writes_reg (ev_instr f)"
    "(\<exists>x v. ev_access f = Stores x v) \<longleftrightarrow> writes_mem (ev_instr f)"
    "ev_access f = Stores x v \<Longrightarrow> ev_write f = None" by blast+
qed


lemma emitted: "f \<in> set (emits advance n b) \<Longrightarrow> \<exists>c c'. advance c = Some (f, c')"
proof (induction n arbitrary: b)
  case (Suc n)
  then show ?case by (cases "advance b") fastforce+
qed simp

lemma logs_shape:
  assumes "logs e f" "rv_step S = Some (f, S')"
  shows "written e \<noteq> None \<longleftrightarrow> writes_reg (word_of_nat (encoding e))"
    "(\<exists>x v. Spike_Log.accessed e = WriteAt x v) \<longleftrightarrow> writes_mem (word_of_nat (encoding e))"
    "Spike_Log.accessed e = WriteAt x v \<Longrightarrow> written e = None"
proof -
  have w: "written e \<noteq> None \<longleftrightarrow> (\<exists>rd v. ev_write f = Some (rd, v) \<and> rd \<noteq> 0)"
    using assms(1) by (auto simp: logs_def split: option.splits if_splits)
  have a: "(\<exists>x v. Spike_Log.accessed e = WriteAt x v) \<longleftrightarrow> (\<exists>x v. ev_access f = Stores x v)"
    using assms(1) by (auto simp: logs_def split: rv_access.splits)
  have i: "word_of_nat (encoding e) = ev_instr f" using assms(1) by (simp add: logs_def)
  show "written e \<noteq> None \<longleftrightarrow> writes_reg (word_of_nat (encoding e))"
    "(\<exists>x v. Spike_Log.accessed e = WriteAt x v) \<longleftrightarrow> writes_mem (word_of_nat (encoding e))"
    unfolding w a i by (rule rv_step_shape(1) [OF assms(2)], rule rv_step_shape(2) [OF assms(2)])
  show "Spike_Log.accessed e = WriteAt x v \<Longrightarrow> written e = None"
    using a w rv_step_shape(3) [OF assms(2)] by auto
qed

lemma executed_logs:
  assumes "spike_executes regs elf body" "e \<in> set body"
  obtains f S S' where "logs e f" "rv_step S = Some (f, S')" "printable (disassembly e)"
proof -
  obtain i where i: "i < length body" "e = body ! i" using assms(2) by (auto simp: in_set_conv_nth)
  let ?fs = "emits rv_step (length body) (load_elf elf regs)"
  have l: "list_all2 logs body ?fs" using assms(1) by (simp add: spike_executes_def)
  then have "?fs ! i \<in> set ?fs" "logs e (?fs ! i)" using i by (simp_all add: list_all2_conv_all_nth)
  then show thesis using emitted [of "?fs ! i" rv_step "length body"] assms that by (auto simp: spike_executes_def)
qed

text \<open>A log whose commits are told by the encodings is regular.\<close>

lemma uniform_determined:
  assumes "\<And>e. e \<in> set es \<Longrightarrow> (c e \<noteq> None) = Q (encoding e)"
  shows "uniform (map (\<lambda>e. (key_of e, c e)) es)"
  unfolding uniform_def
proof (clarsimp)
  fix e f
  assume "e \<in> set es" "f \<in> set es" "key_of e = key_of f"
  then show "(c e = None) = (c f = None)" using assms [of e] assms [of f] by (auto simp: key_of_def)
qed

lemma uniform_map: "uniform (map (\<lambda>e. (k e, c e)) xs) \<longleftrightarrow>
    (\<forall>x \<in> set xs. \<forall>y \<in> set xs. k x = k y \<longrightarrow> (c x = None \<longleftrightarrow> c y = None))"
  by (simp add: uniform_def)

lemma uniform_append:
  assumes "uniform (map (\<lambda>e. (k e, c e)) xs)" "uniform (map (\<lambda>e. (k e, c e)) ys)" "\<forall>x \<in> set xs. \<forall>y \<in> set ys. k x \<noteq> k y"
  shows "uniform (map (\<lambda>e. (k e, c e)) (xs @ ys))"
  using assms unfolding uniform_map set_append by (metis Un_iff)

lemma executed_regular:
  assumes "spike_executes regs elf body" "regular boot" "\<forall>e \<in> set boot. at_pc e < 0x80000000"
    and "\<forall>e \<in> set body. 0x80000000 \<le> at_pc e"
  shows "regular (boot @ body)"
proof -
  have wf: "wf_event e \<and> at_pc e < 2 ^ 32 \<and> encoding e < 2 ^ 32" if e: "e \<in> set body" for e
  proof -
    obtain f S S' where f: "logs e f" "rv_step S = Some (f, S')" "printable (disassembly e)"
      by (rule executed_logs [OF assms(1) e])
    have "at_pc e < 2 ^ 32" "encoding e < 2 ^ 32"
      using f(1) unsigned_less [of "ev_pc f", where ?'a = nat] unsigned_less [of "ev_instr f", where ?'a = nat]
      by (simp_all add: logs_def)
    then show ?thesis using f(3) logs_shape(3) [OF f(1,2)]
      by (auto simp: wf_event_def printable_def split: access.splits)
  qed
  have keys: "\<forall>x \<in> set boot. \<forall>y \<in> set body. key_of x \<noteq> key_of y"
    using assms(3,4) by (fastforce simp: key_of_def)
  have "uniform (map (\<lambda>e. (key_of e, reg_commit e)) body)"
  proof (rule uniform_determined)
    fix e assume "e \<in> set body"
    then show "(reg_commit e \<noteq> None) = writes_reg (word_of_nat (encoding e))"
      using executed_logs [OF assms(1)] logs_shape(1) by (metis reg_commit_def option.map_disc_iff)
  qed
  moreover have "uniform (map (\<lambda>e. (key_of e, mem_commit e)) body)"
  proof (rule uniform_determined)
    fix e assume "e \<in> set body"
    then obtain f S S' where f: "logs e f" "rv_step S = Some (f, S')" by (rule executed_logs [OF assms(1)])
    show "(mem_commit e \<noteq> None) = writes_mem (word_of_nat (encoding e))"
      using logs_shape(2) [OF f] by (auto simp: mem_commit_def split: access.splits)
  qed
  ultimately show ?thesis
    using assms(2) wf uniform_append [OF _ _ keys] unfolding regular_def reg_commits_def mem_commits_def by auto
qed


section \<open>The same execution as the core\<close>

lemma moved_unat: "moved (unat v) v" "moved (unat (v + base)) v"
proof -
  show "moved (unat v) v" by (simp add: moved_def)
  have "int (unat (v + base)) = (uint v + 2 ^ 31) mod 2 ^ 32" by (simp add: uint_word_ariths)
  then show "moved (unat (v + base)) v" by (simp add: moved_def)
qed

lemma logged_step:
  assumes "logs e f" "event_moved ev f"
  shows "End_To_End.same_step e (fst ev, fst (snd ev)) (snd (snd ev))"
proof -
  obtain p w s where ev: "ev = (p, w, s)" by (cases ev)
  have "int (at_pc e) = (uint p + 2 ^ 31) mod 2 ^ 32"
    using assms by (simp add: ev logs_def event_moved_def uint_word_ariths)
  moreover have "same_reg (written e) w"
  proof (cases w)
    case None
    with assms show ?thesis by (simp add: ev logs_def event_moved_def same_reg_def)
  next
    case (Some wr)
    obtain rd v where wr: "wr = (rd, v)" by (cases wr)
    then obtain v' where "ev_write f = Some (rd, v')" "v' = v \<or> v' = v + base"
      using assms(2) Some by (auto simp: ev event_moved_def)
    then show ?thesis using assms(1) Some wr moved_unat [of v] by (auto simp: logs_def same_reg_def)
  qed
  moreover have "same_mem (Spike_Log.accessed e) s"
    using assms moved_unat(2)
    by (auto simp: ev logs_def event_moved_def same_mem_def split: option.splits rv_access.splits prod.splits)
  ultimately show ?thesis by (simp add: ev End_To_End.same_step_def)
qed

lemma executed_events:
  assumes "build_full_program n t = (Inr (map Some P, r), t')" "elf_segment elf = (ENTRY_ADDR, ENTRY_ADDR, word_bytes P)"
  shows "list_all2 (event_logged P) (isa_trace l (program_rom P) outside start_arch) (emits rv_step l (load_elf elf regs))"
  unfolding isa_trace_def by (rule relocation.events_match [OF built_beside [OF assms]])

lemma executed_steps:
  assumes "build_full_program n t = (Inr (map Some P, r), t')" "elf_segment elf = (ENTRY_ADDR, ENTRY_ADDR, word_bytes P)"
    and "spike_executes regs elf body"
  shows "list_all2 (\<lambda>e ev. End_To_End.same_step e (fst ev, fst (snd ev)) (snd (snd ev))) body
      (isa_trace (length body) (program_rom P) outside start_arch)"
    "\<forall>e \<in> set body. 0x80000000 \<le> at_pc e"
proof -
  let ?tr = "isa_trace (length body) (program_rom P) outside start_arch" and ?fs = "emits rv_step (length body) (load_elf elf regs)"
  have ev: "list_all2 (event_logged P) ?tr ?fs" by (rule executed_events [OF assms(1,2)])
  have lg: "list_all2 logs body ?fs" using assms(3) by (simp add: spike_executes_def)
  show "list_all2 (\<lambda>e ev. End_To_End.same_step e (fst ev, fst (snd ev)) (snd (snd ev))) body ?tr"
    using ev lg logged_step by (auto simp: list_all2_conv_all_nth event_logged_def)
  show "\<forall>e \<in> set body. 0x80000000 \<le> at_pc e"
  proof
    fix e assume "e \<in> set body"
    then obtain i where i: "i < length body" "e = body ! i" by (auto simp: in_set_conv_nth)
    have "logs e (?fs ! i)" "event_moved (?tr ! i) (?fs ! i)"
      using ev lg i by (auto simp: list_all2_conv_all_nth event_logged_def)
    moreover have "fst (?tr ! i) = trace_pc (program_rom P) outside i"
      using i(1) by (simp add: isa_trace_def trace_of_nth isa_event_def trace_pc_def)
    ultimately have a: "at_pc e = unat (trace_pc (program_rom P) outside i + base)"
      by (cases "?tr ! i") (simp add: logs_def event_moved_def)
    obtain k where k: "k \<le> nat n + 31" "trace_pc (program_rom P) outside i = word_pc k"
      using trace_in_text [OF built_replayable [OF assms(1)]] by blast
    have "k < 1024" using k(1) built_replayable [OF assms(1)] by (simp add: replayable_def)
    moreover have "word_pc k + base = word_pc (k + 0x20000000)" by (simp add: word_pc_def algebra_simps)
    ultimately show "0x80000000 \<le> at_pc e" using a k(2) unat_word_pc [of "k + 0x20000000"] by simp
  qed
qed


section \<open>Position independence\<close>



end
