(* ===== verification/Core_Accuracy.thy ===== *)
theory Core_Accuracy
  imports Spike_Reference Main_Theorems
begin

text \<open>
  The whole verification flow of the repository in one statement: the two files \<open>gen_program.py\<close> writes
  go to the pipelined core under \<open>tb_commit_log.sv\<close> and to Spike, and \<open>compare_accuracy.py\<close> compares the
  two logs. The hypothesis on Spike is \<open>spike_executes\<close>: it executes RV32I on the segment of the file.
\<close>

section \<open>The testbench loads program.hex\<close>





section \<open>Spike follows the specification of the core\<close>


lemma length_isa_trace [simp]: "length (isa_trace l im outside A) = l"
  by (simp add: isa_trace_def)






section \<open>The whole flow\<close>











end
