(* ===== verification/Rtl_Properties.thy ===== *)
theory Rtl_Properties
  imports Rtl_Theorems
begin

text \<open>
  The properties of the parts of the core: the pipeline as a whole, the loop buffer and the branch
  predictor on replayable programs, forwarding and stalling, the combinational units against the
  simulator. The last section holds runs on which the core and the instruction set part: programs
  outside \<open>replayable\<close> and instructions outside \<open>supported\<close>.
\<close>

section \<open>Programs for concrete runs\<close>

text \<open>An instruction memory that starts with the given words and holds nops behind them.\<close>

definition rom_of :: "u32w list \<Rightarrow> rom" where
  "rom_of ws w = (if unat w < length ws then ws ! unat w else 0x00000013)"

definition fresh_core :: core where
  "fresh_core = reset_core (\<lambda>_. 0) (\<lambda>_. 0)"

text \<open>\<open>addi x30,x0,3; addi x30,x30,-1; lw x5,64(x0); add x6,x6,x5; bne x30,x0,-12; beq x0,x0,0\<close>: the
  instruction before the loop branch waits for a load.\<close>

definition stall_rom :: rom where
  "stall_rom = rom_of [0x00300F13, 0xFFFF0F13, 0x04002283, 0x00530333, 0xFE0F1AE3, 0x63]"



section \<open>The pipeline\<close>

lemma reset_inv:
  assumes "throughout (core_step im outside) (fetch_ok im) N (reset_core ram0 buf0)"
  shows "pipe_inv im (core_run N im outside (reset_core ram0 buf0))"
  using pipeline.inv_run [OF pipe_inv_reset assms] by (simp add: core_run_funpow)

text \<open>C5: The pipeline refines the instruction set: on any memory contents, as long as the words delivered
  to IF/ID are those in memory, the architectural state after \<open>N\<close> cycles is that of the
  one-instruction-at-a-time machine after as many steps as instructions have left EX, the sequence
  of their addresses, register writes and stores is that machine's trace, and there is at least one
  for every three cycles.\<close>

theorem pipeline_refines_isa:
  assumes "throughout (core_step im outside) (fetch_ok im) N (reset_core ram0 buf0)"
  shows "let evs = issues N im outside (reset_core ram0 buf0); A = \<lparr>apc = 0, aregs = \<lambda>_. 0, adata = ram0\<rparr>
    in arch_of outside (core_run N im outside (reset_core ram0 buf0)) = (isa_step im outside ^^ length evs) A
       \<and> evs = isa_trace (length evs) im outside A \<and> N div 3 \<le> length evs"
  using core_abs_run [OF pipe_inv_reset assms] issues_trace [OF pipe_inv_reset assms]
    issues_at_least [OF pipe_inv_reset assms]
  unfolding arch_of_reset Let_def by blast

lemma pipeline_refines_isa_witness:
  "let evs = issues 60 (program_rom sample_words) (\<lambda>_. 0) (reset_core (\<lambda>_. 7) (\<lambda>_. 0));
       A = \<lparr>apc = 0, aregs = \<lambda>_. 0, adata = \<lambda>_. 7\<rparr>
    in arch_of (\<lambda>_. 0) (core_run 60 (program_rom sample_words) (\<lambda>_. 0) (reset_core (\<lambda>_. 7) (\<lambda>_. 0)))
         = (isa_step (program_rom sample_words) (\<lambda>_. 0) ^^ length evs) A
       \<and> evs = isa_trace (length evs) (program_rom sample_words) (\<lambda>_. 0) A \<and> 60 div 3 \<le> length evs"
  by (rule pipeline_refines_isa [OF built_fetch_ok [OF sample_build]])



text \<open>C25: A load-use stall holds the program counter and IF/ID, puts a bubble into EX and lasts one cycle.\<close>

theorem stall_holds_one_cycle:
  assumes "stall c" "\<not> flush c"
  shows "let c' = core_step im outside c
    in pc_if c' = pc_if c \<and> if_id_r c' = if_id_r c \<and> \<not> idex_valid (id_ex_r c') \<and> \<not> stall c' \<and> \<not> flush c'"
  using assms
  by (simp add: Let_def next_pc_if_def next_if_id_def next_id_ex_def stall_def [of "core_step im outside c"]
      hazard_unit_def id_ex_0_def no_control_def flush_def [of "core_step im outside c"] is_control_flow_ex_def)

lemma stall_holds_one_cycle_witness:
  "let c = core_run 4 stall_rom (\<lambda>_. 0) fresh_core; c' = core_step stall_rom (\<lambda>_. 0) c
   in pc_if c' = pc_if c \<and> if_id_r c' = if_id_r c \<and> \<not> idex_valid (id_ex_r c') \<and> \<not> stall c' \<and> \<not> flush c'"
proof -
  have "stall (core_run 4 stall_rom (\<lambda>_. 0) fresh_core)" "\<not> flush (core_run 4 stall_rom (\<lambda>_. 0) fresh_core)"
    by code_simp+
  then show ?thesis unfolding Let_def by (rule stall_holds_one_cycle [unfolded Let_def])
qed

section \<open>Loop buffer and branch predictor\<close>

text \<open>C22: The branch predictor redirects only control flow: as long as fetches deliver the words in memory,
  an address for which it predicts taken holds a branch, a \<open>jal\<close> or a \<open>jalr\<close>. Without the tag an
  alias would redirect fetch at an instruction that no flush corrects.\<close>

theorem predictor_redirects_control_flow:
  assumes "throughout (core_step im outside) (fetch_ok im) N (reset_core ram0 buf0)"
    and "predict_taken (bp (core_run N im outside (reset_core ram0 buf0))) a"
  shows "control_flow (instruction_mem im a)"
  using reset_inv [OF assms(1)] assms(2) by (auto simp: pipe_inv_def bp_inv_def predict_taken_def)

lemma predictor_redirects_control_flow_witness:
  "predict_taken (bp (core_run 6 (rom_of [0x63]) (\<lambda>_. 0) fresh_core)) 0 \<and> control_flow (instruction_mem (rom_of [0x63]) 0)"
proof -
  have p: "predict_taken (bp (core_run 6 (rom_of [0x63]) (\<lambda>_. 0) fresh_core)) 0" by code_simp
  have w: "rom_word (rom_of [0x63]) 0 = 0x63" "rom_word (rom_of [0x63]) 1 = 0x13" by code_simp+
  have "jumps_to (rom_of [0x63]) 0 0" "\<not> control_flow 0x13" by code_simp+
  with w have "replayable (rom_of [0x63]) 0" by (auto simp: replayable_def i_opcode_def)
  from predictor_redirects_control_flow [OF replayable_fetch_ok [OF this] p [unfolded fresh_core_def]] p
  show ?thesis by blast
qed

text \<open>C10: On a replayable program (in particular on every generated one) the loop buffer and the gated
  instruction memory are transparent: in every cycle without flush or stall IF delivers the word in
  memory, IF never goes beyond the second word behind the text, and where the predictor redirects, the
  word is a jump of the program and the target is its target.\<close>

theorem replayable_run:
  assumes "replayable im e"
  shows "let c = core_run N im outside (reset_core ram0 buf0)
    in fetch_ok im c
       \<and> (\<exists>k \<le> e + 2. pc_if c = word_pc k
            \<and> (predict_taken_if c \<longrightarrow> k \<le> e \<and> (\<exists>t \<le> e. jumps_to im k t \<and> predict_target_if c = word_pc t)))"
proof -
  let ?c = "core_run N im outside (reset_core ram0 buf0)"
  have i: "core_inv im e ?c" unfolding core_run_funpow by (rule core_inv_run [OF assms core_inv_reset])
  obtain k where k: "k \<le> e + 2" "pc_if ?c = word_pc k"
    using i by (auto simp: core_inv_def path_inv_def Let_def)
  have "pred_ok im e (bp ?c)" using i by (simp add: core_inv_def)
  from predicted_word [OF assms this _ k(1)] k(2)
  have "predict_taken_if ?c \<longrightarrow> at_word im e k (word_pc k) True (predict_target_if ?c)"
    by (simp add: predict_taken_if_def predict_target_if_def)
  with k core_inv_step(2) [OF assms i] show ?thesis by (auto simp: at_word_def Let_def)
qed

lemma replayable_run_witness:
  "let c = core_run 70 (program_rom sample_words) (\<lambda>_. 0) (reset_core (\<lambda>_. 0) (\<lambda>_. 0))
   in fetch_ok (program_rom sample_words) c
      \<and> (\<exists>k \<le> 37 + 2. pc_if c = word_pc k
           \<and> (predict_taken_if c \<longrightarrow> k \<le> 37 \<and> (\<exists>t \<le> 37. jumps_to (program_rom sample_words) k t \<and> predict_target_if c = word_pc t)))"
proof -
  have "replayable (program_rom sample_words) 37" using built_replayable [OF sample_build] by simp
  from replayable_run [OF this] show ?thesis .
qed

section \<open>The combinational units and the simulator\<close>

text \<open>C24: The immediate generator of the core extracts the immediates the simulator's decoder extracts, for
  every instruction word of every format.\<close>

theorem imm_gen_matches_decoder:
  "imm_gen i =
     (let opcode = f_opcode i
      in if opcode = 0x13 \<or> opcode = 0x03 \<or> opcode = 0x67 then sign_extend_12 (drop_bit 20 i)
         else if opcode = 0x23 then decode_S_imm i
         else if opcode = 0x63 then decode_B_imm i
         else if opcode = 0x6F then decode_J_imm i
         else if opcode = 0x37 \<or> opcode = 0x17 then i AND 0xFFFFF000
         else 0)"
  by (rule imm_gen_decode)

text \<open>C23: The branch decision from the flags of the subtraction is the comparison of the operands as signed
  integers, also where the difference overflows; the remaining codes never branch.\<close>

theorem branch_decision_compares:
  "branch_decision funct3 a b 0b0001 =
     (if funct3 = 0b000 then a = b
      else if funct3 = 0b001 then a \<noteq> b
      else if funct3 = 0b100 then sint a < sint b
      else if funct3 = 0b101 then sint b \<le> sint a
      else False)"
  using signed_less [of a b]
  by (auto simp: branch_decision_def alu_zero_def alu_negative_def alu_overflow_def alu_result_def word_sless_alt not_less)



section \<open>Where the core and the instruction set part\<close>

text \<open>A load-use stall at the moment a backward branch is first predicted taken makes the loop buffer record
  the branch itself as the first word of the loop: \<open>STATE_IDLE\<close> starts the recording although fetch
  does not advance, and the next cycle sees the address of the branch again.\<close>

lemma idle_stall_records_branch:
  assumes "state_q l = STATE_IDLE" "target < if_pc" "if_pc < if_pc + 4"
  shows "let l1 = lb_step if_pc branch_word True target False True l;
             l2 = lb_step if_pc branch_word True target False False l1
         in loop_active l2 \<and> instruction_out l2 target memory_word = branch_word"
proof -
  have "if_pc + 4 - 4 = if_pc" by simp
  with assms show ?thesis
    by (auto simp: Let_def lb_step_def lb_next_def lb_capture_def is_backward_prediction_def loop_active_def
        instruction_out_def read_idx_valid_def read_idx_def)
qed




end
