(* ===== verification/Rtl_Testbenches.thy ===== *)
theory Rtl_Testbenches
  imports Rtl_Core
begin

text \<open>
  The directed testbenches \<open>rtl/tb_*.sv\<close> of the core, run on its model: a program, what is watched at
  the rising edges, and the checks behind a fixed wait. The clock has the period 20 with rising edges
  at 10, 30, ...; \<open>reset_core\<close> releases the reset at a falling edge, and a check that waits 1 ns reads
  the state between two edges. A result of a testbench is the list of its verdicts, True for PASS.
\<close>

section \<open>Clock and checks\<close>

fun place :: "10 word \<Rightarrow> u32w list \<Rightarrow> rom \<Rightarrow> rom" where
  "place j [] im = im"
| "place j (w # ws) im = place (j + 1) ws (im(j := w))"

text \<open>The rising edges strictly between the release of the reset and \<open>t\<close> ns after it.\<close>

definition edges_before :: "int \<Rightarrow> nat" where
  "edges_before t = nat ((t + 9) div 20)"

text \<open>The core and the monitor both see the state before the edge.\<close>

fun clocks :: "nat \<Rightarrow> rom \<Rightarrow> (u32w \<Rightarrow> u32w) \<Rightarrow> (core \<Rightarrow> 'm \<Rightarrow> 'm) \<Rightarrow> core \<times> 'm \<Rightarrow> core \<times> 'm" where
  "clocks 0 im outside watch s = s"
| "clocks (Suc n) im outside watch (c, m) = clocks n im outside watch (core_step im outside c, watch c m)"

text \<open>Checks, each with the time it waits before it looks.\<close>

type_synonym 'm checks = "(int \<times> (core \<Rightarrow> 'm \<Rightarrow> bool)) list"

fun verdicts :: "int \<Rightarrow> 'm checks \<Rightarrow> rom \<Rightarrow> (u32w \<Rightarrow> u32w) \<Rightarrow> (core \<Rightarrow> 'm \<Rightarrow> 'm) \<Rightarrow> core \<times> 'm \<Rightarrow> bool list \<times> core" where
  "verdicts t [] im outside watch s = ([], fst s)"
| "verdicts t ((d, ok) # cs) im outside watch s =
     (case clocks (edges_before (t + d) - edges_before t) im outside watch s of
        (c, m) \<Rightarrow> (case verdicts (t + d) cs im outside watch (c, m) of (vs, e) \<Rightarrow> (ok c m # vs, e)))"

definition check_reg :: "5 word \<Rightarrow> u32w \<Rightarrow> int \<times> (core \<Rightarrow> 'm \<Rightarrow> bool)" where
  "check_reg r v = (1, \<lambda>c m. rf c r = v)"

definition check_mem :: "u32w \<Rightarrow> u32w \<Rightarrow> int \<times> (core \<Rightarrow> 'm \<Rightarrow> bool)" where
  "check_mem a v = (1, \<lambda>c m. data_ram c (unat (drop_bit 2 a)) = v)"

definition check_buf :: "4 word \<Rightarrow> u32w \<Rightarrow> int \<times> (core \<Rightarrow> 'm \<Rightarrow> bool)" where
  "check_buf j v = (1, \<lambda>c m. buffer (lb c) j = v)"

text \<open>\<open>check_bit\<close> and \<open>check_ge\<close> look at once.\<close>

definition check_bit :: "('m \<Rightarrow> bool) \<Rightarrow> bool \<Rightarrow> int \<times> (core \<Rightarrow> 'm \<Rightarrow> bool)" where
  "check_bit actual expected = (0, \<lambda>c m. actual m = expected)"

definition check_ge :: "('m \<Rightarrow> 8 word) \<Rightarrow> 8 word \<Rightarrow> int \<times> (core \<Rightarrow> 'm \<Rightarrow> bool)" where
  "check_ge actual minimum = (0, \<lambda>c m. \<not> actual m < minimum)"

text \<open>One edge during the reset, then the wait and the checks.\<close>

definition bench :: "int \<Rightarrow> 'm checks \<Rightarrow> rom \<Rightarrow> (u32w \<Rightarrow> u32w) \<Rightarrow> (core \<Rightarrow> 'm \<Rightarrow> 'm) \<Rightarrow> 'm \<Rightarrow> core \<Rightarrow> bool list \<times> core" where
  "bench wait cs im outside watch m c =
     verdicts wait cs im outside watch (clocks (edges_before wait) im outside watch (c, watch c m))"

section \<open>tb_riscv_core.sv\<close>

definition core_program :: rom where
  "core_program = place 0
     [0x00500093, 0x00a00113, 0x002081b3, 0x00308233, 0x00402023, 0x00002403, 0x001404b3, 0x03700513,
      0x03700593, 0x00b50463, 0x06300613, 0x04200693, 0x01400713, 0x01e00793, 0x00f71463, 0x05800813,
      0x04d00893, 0x00300913, 0x00300993, 0x01391463, 0x06f00a13, 0x00800aef, 0x07b00b13, 0x02c00b93,
      0x06c00c13, 0x000c0ce7, 0x0c700d13, 0x09b00d93, 0x00030e37, 0x00001e97] nop_rom"

definition tb_riscv_core :: "(u32w \<Rightarrow> u32w) \<Rightarrow> ram \<Rightarrow> (4 word \<Rightarrow> u32w) \<Rightarrow> bool list" where
  "tb_riscv_core outside ram0 buf0 = fst (bench 2500
     [check_reg 1 5, check_reg 2 10, check_reg 3 15, check_reg 4 20, check_mem 0 20, check_reg 8 20,
      check_reg 9 25, check_reg 10 55, check_reg 11 55, check_reg 12 0, check_reg 13 66, check_reg 14 20,
      check_reg 15 30, check_reg 16 0, check_reg 17 77, check_reg 18 3, check_reg 19 3, check_reg 20 111,
      check_reg 21 88, check_reg 22 0, check_reg 23 44, check_reg 24 108, check_reg 25 104, check_reg 26 0,
      check_reg 27 155, check_reg 28 0x00030000, check_reg 29 4212]
     core_program outside (\<lambda>c m. m) () (reset_core ram0 buf0))"


definition slti_program :: rom where
  "slti_program = place 0
     [0xfff00093, 0x0000a113, 0x0000b193, 0x00500213, 0x00500293, 0x00322313, 0x0032b393] nop_rom"

definition tb_slti_sltiu :: "(u32w \<Rightarrow> u32w) \<Rightarrow> ram \<Rightarrow> (4 word \<Rightarrow> u32w) \<Rightarrow> bool list" where
  "tb_slti_sltiu outside ram0 buf0 = fst (bench 400
     [check_reg 1 (- 1), check_reg 2 1, check_reg 3 0, check_reg 4 5, check_reg 5 5, check_reg 6 0, check_reg 7 0]
     slti_program outside (\<lambda>c m. m) () (reset_core ram0 buf0))"

section \<open>tb_btb_tag_fix.sv\<close>

definition alias_program :: rom where
  "alias_program = (place 0 [0x00000093, 0x00300113, 0x00108093, 0xfe209ee3] nop_rom)(67 := 0x3e700f13)"

text \<open>\<open>bad_alias_predict\<close>.\<close>

definition watch_alias :: "core \<Rightarrow> bool \<Rightarrow> bool" where
  "watch_alias c m = (if pc_if c = 268 \<and> predict_taken_if c then True else m)"

definition tb_btb_tag_fix :: "(u32w \<Rightarrow> u32w) \<Rightarrow> ram \<Rightarrow> (4 word \<Rightarrow> u32w) \<Rightarrow> bool list" where
  "tb_btb_tag_fix outside ram0 buf0 = fst (bench 2000
     [check_reg 1 3, check_reg 2 3, check_reg 30 999, check_bit id False]
     alias_program outside watch_alias False (reset_core ram0 buf0))"

section \<open>tb_loop_buffer.sv\<close>

definition count_program :: rom where
  "count_program = place 0 [0x00000093, 0x00500113, 0x00108093, 0xfe209ee3] nop_rom"

text \<open>\<open>saw_playback\<close> and \<open>saw_invalid\<close>.\<close>

definition watch_states :: "core \<Rightarrow> bool \<times> bool \<Rightarrow> bool \<times> bool" where
  "watch_states c m =
     (if loop_active (lb c) then True else fst m, if state_q (lb c) = STATE_INVALID then True else snd m)"

definition tb_loop_buffer :: "(u32w \<Rightarrow> u32w) \<Rightarrow> ram \<Rightarrow> (4 word \<Rightarrow> u32w) \<Rightarrow> bool list" where
  "tb_loop_buffer outside ram0 buf0 = fst (bench 1000
     [check_reg 1 5, check_reg 2 5, check_bit fst True, check_bit snd True,
      check_buf 0 0x00108093, check_buf 1 0xfe209ee3]
     count_program outside watch_states (False, False) (reset_core ram0 buf0))"

section \<open>tb_loop_buffer_edgecases.sv\<close>

definition oversized_program :: rom where
  "oversized_program = place 0 ([0x00000093, 0x00300113] @ replicate 17 0x00000013 @ [0x00108093, 0xfa209ce3, 0x30900f93]) nop_rom"

definition inner_branch_program :: rom where
  "inner_branch_program = place 0
     [0x00000093, 0x00600113, 0x00300193, 0x00108093, 0x00308463, 0x04d00493, 0x05800493, 0xfe2098e3, 0x22b00c93] nop_rom"

text \<open>\<open>saw_flush_during_recording\<close> and \<open>max_write_ptr_seen\<close>.\<close>

definition watch_recording :: "core \<Rightarrow> bool \<times> 8 word \<Rightarrow> bool \<times> 8 word" where
  "watch_recording c m =
     (if flush c \<and> state_q (lb c) = STATE_RECORDING then True else fst m,
      if snd m < ucast (write_ptr_q (lb c)) then ucast (write_ptr_q (lb c)) else snd m)"

definition edgecases_phase1 :: "(u32w \<Rightarrow> u32w) \<Rightarrow> ram \<Rightarrow> (4 word \<Rightarrow> u32w) \<Rightarrow> bool list \<times> core" where
  "edgecases_phase1 outside ram0 buf0 = bench 2000
     [check_reg 1 3, check_reg 2 3, check_reg 31 777, check_ge snd 16]
     oversized_program outside watch_recording (False, 0) (reset_core ram0 buf0)"

definition edgecases_phase2 :: "(u32w \<Rightarrow> u32w) \<Rightarrow> ram \<Rightarrow> (4 word \<Rightarrow> u32w) \<Rightarrow> bool list \<times> core" where
  "edgecases_phase2 outside ram0 buf0 = bench 2000
     [check_reg 1 6, check_reg 2 6, check_reg 25 555, check_bit fst True]
     inner_branch_program outside watch_recording (False, 0) (reset_core ram0 buf0)"

text \<open>The second phase resets the core the first one leaves (again one edge falls into the reset); the
  memories keep their contents.\<close>

definition tb_loop_buffer_edgecases :: "(u32w \<Rightarrow> u32w) \<Rightarrow> ram \<Rightarrow> (4 word \<Rightarrow> u32w) \<Rightarrow> bool list" where
  "tb_loop_buffer_edgecases outside ram0 buf0 =
     (case edgecases_phase1 outside ram0 buf0 of (vs, e) \<Rightarrow> vs @ fst (edgecases_phase2 outside (data_ram e) (buffer (lb e))))"

section \<open>tb_loop_buffer_stall.sv\<close>

definition load_use_program :: rom where
  "load_use_program = place 0
     [0x00000093, 0x00500113, 0x00202023, 0x00002283, 0x00528333, 0x00108093, 0xfe2098e3] nop_rom"

text \<open>\<open>saw_playback\<close> and \<open>saw_stall\<close>.\<close>

definition watch_stall :: "core \<Rightarrow> bool \<times> bool \<Rightarrow> bool \<times> bool" where
  "watch_stall c m = (if loop_active (lb c) then True else fst m, if stall c then True else snd m)"

definition tb_loop_buffer_stall :: "(u32w \<Rightarrow> u32w) \<Rightarrow> (4 word \<Rightarrow> u32w) \<Rightarrow> bool list" where
  "tb_loop_buffer_stall outside buf0 = fst (bench 1400
     [check_reg 1 5, check_reg 2 5, check_reg 5 5, check_reg 6 10, check_bit fst True, check_bit snd True]
     load_use_program outside watch_stall (False, False) (reset_core (\<lambda>_. 0) buf0))"

section \<open>tb_icache_gating.sv\<close>

definition gate_icache_clk :: "core \<Rightarrow> bool" where
  "gate_icache_clk c \<longleftrightarrow> state_q (lb c) = STATE_LOOPING"

record gating =
  gate_matches_loop_active :: bool
  froze_correctly :: bool
  gated_run_length :: "4 word"
  max_gated_run_seen :: "8 word"
  prev_addr :: u32w
  prev_gate :: bool

definition watch_gating :: "core \<Rightarrow> gating \<Rightarrow> gating" where
  "watch_gating c m =
     (let gate = gate_icache_clk c
      in \<lparr>gate_matches_loop_active = (if gate \<noteq> loop_active (lb c) then False else gate_matches_loop_active m),
          froze_correctly =
            (if gate \<and> prev_gate m \<and> icache_addr_mux c \<noteq> prev_addr m then False else froze_correctly m),
          gated_run_length = (if gate \<and> prev_gate m then gated_run_length m + 1 else if gate then 1 else 0),
          max_gated_run_seen = (if max_gated_run_seen m < ucast (gated_run_length m)
             then ucast (gated_run_length m) else max_gated_run_seen m),
          prev_addr = icache_addr_mux c,
          prev_gate = gate\<rparr>)"

definition tb_icache_gating :: "(u32w \<Rightarrow> u32w) \<Rightarrow> ram \<Rightarrow> (4 word \<Rightarrow> u32w) \<Rightarrow> bool list" where
  "tb_icache_gating outside ram0 buf0 = fst (bench 1000
     [check_reg 1 5, check_reg 2 5, check_bit gate_matches_loop_active True, check_bit froze_correctly True,
      check_ge max_gated_run_seen 2]
     count_program outside watch_gating
     \<lparr>gate_matches_loop_active = True, froze_correctly = True, gated_run_length = 0, max_gated_run_seen = 0,
      prev_addr = 0, prev_gate = False\<rparr> (reset_core ram0 buf0))"

section \<open>Running them\<close>

text \<open>For the evaluation, a cycle with the signals that several registers read computed once.\<close>

lemma core_step_shared [code]: "core_step mem outside c =
  (let x = id_ex_r c; k = idex_ctl x; m = ex_mem_r c; w = mem_wb_r c; d = if_id_r c; i = ifid_instr d; l = lb c; p = pc_if c;
       rs1 = i_rs1 i; rs2 = i_rs2 i;
       wd = wb_write_data c; wr = wb_reg_write c; wa = memwb_rd_addr w; mr = exmem_valid m \<and> exmem_reg_write m; ma = exmem_rd_addr m;
       pick = (\<lambda>rs data. let sel = forward_sel rs mr ma wr wa in
          if sel = 0b10 then ex_mem_fwd_value c else if sel = 0b01 then wd else data);
       f1 = pick (idex_rs1_addr x) (idex_rs1_data x); f2 = pick (idex_rs2_addr x) (idex_rs2_data x);
       a = (if auipc k then idex_pc x else f1); b = (if alu_src k then idex_imm_ext x else f2);
       op = alu_control k; r = alu_result a b op;
       cf = (idex_valid x \<and> (branch k \<or> jump k));
       taken = (idex_valid x \<and> (jump k \<or> branch k \<and> branch_decision (idex_funct3 x) a b op));
       target = (if jalr k then word_cat (ucast (drop_bit 1 r) :: 31 word) (0 :: 1 word) else idex_pc x + idex_imm_ext x);
       fl = (cf \<and> (taken \<noteq> idex_pred_taken x \<or> taken \<and> target \<noteq> idex_pred_target x));
       st = hazard_unit rs1 rs2 (mem_read k) (idex_rd_addr x);
       mux = icache_addr_mux c; raw = instruction_mem mem mux;
       pt = predict_taken (bp c) p; pg = predict_target (bp c) p
   in \<lparr>pc_if = (if fl \<or> \<not> st then (if fl then (if taken then target else idex_pc_plus4 x) else if pt then pg else p + 4) else p),
      icache_frozen_addr_q = (if loop_active l then icache_frozen_addr_q c else p),
      if_id_r = (if fl then if_id_0 else if st then d
        else \<lparr>ifid_valid = True, ifid_pc = p, ifid_pc_plus4 = p + 4, ifid_instr = instruction_out l p raw,
              ifid_pred_taken = pt, ifid_pred_target = pg\<rparr>),
      id_ex_r = (if fl \<or> st then id_ex_0
        else \<lparr>idex_valid = ifid_valid d, idex_pc = ifid_pc d, idex_pc_plus4 = ifid_pc_plus4 d,
               idex_rs1_data = read_port wr wa wd (rf c) rs1, idex_rs2_data = read_port wr wa wd (rf c) rs2,
               idex_imm_ext = imm_gen i, idex_rs1_addr = rs1, idex_rs2_addr = rs2,
               idex_rd_addr = i_rd i, idex_funct3 = i_funct3 i,
               idex_pred_taken = ifid_pred_taken d, idex_pred_target = ifid_pred_target d,
               idex_ctl = latched_control (ifid_valid d) i\<rparr>),
      ex_mem_r = \<lparr>exmem_valid = idex_valid x, exmem_pc = idex_pc x, exmem_pc_plus4 = idex_pc_plus4 x,
          exmem_alu_result = r, exmem_store_data = f2,
          exmem_imm_ext = idex_imm_ext x, exmem_rd_addr = idex_rd_addr x,
          exmem_reg_write = reg_write k, exmem_mem_to_reg = mem_to_reg k,
          exmem_mem_read = mem_read k, exmem_mem_write = mem_write k,
          exmem_jump = jump k, exmem_lui = lui k\<rparr>,
      mem_wb_r = next_mem_wb outside c,
      rf = write_port wr wa wd (rf c),
      data_ram = data_mem_write (exmem_mem_write m) (exmem_alu_result m) (exmem_store_data m) (data_ram c),
      bp = bp_train cf (idex_pc x) taken target (bp c),
      lb = lb_step p raw pt pg fl st l\<rparr>)"
  unfolding core_step_def next_pc_if_def pc_next_if_def flush_target_def flush_def actual_taken_ex_def branch_taken_ex_def
    actual_target_ex_def is_control_flow_ex_def alu_result_ex_def alu_operand_a_def alu_operand_b_def fwd_rs1_def fwd_rs2_def forwarded_def
    next_if_id_def next_id_ex_def next_ex_mem_def instr_if_final_def instr_if_def stall_def read_data_def predict_taken_if_def predict_target_if_def Let_def
  by (rule refl)

lemma tb_riscv_core_passes: "list_all id (tb_riscv_core outside ram0 buf0)"
  by code_simp

lemma tb_slti_sltiu_passes: "list_all id (tb_slti_sltiu outside ram0 buf0)"
  by code_simp

lemma tb_btb_tag_fix_passes: "list_all id (tb_btb_tag_fix outside ram0 buf0)"
  by code_simp

lemma tb_loop_buffer_passes: "list_all id (tb_loop_buffer outside ram0 buf0)"
  by code_simp

lemma edgecases_phase1_passes: "list_all id (fst (edgecases_phase1 outside ram0 buf0))"
  by code_simp

lemma edgecases_phase2_passes: "list_all id (fst (edgecases_phase2 outside ram0 buf0))"
  by code_simp

lemma tb_loop_buffer_stall_passes: "list_all id (tb_loop_buffer_stall outside buf0)"
  by code_simp

lemma tb_icache_gating_passes: "list_all id (tb_icache_gating outside ram0 buf0)"
  by code_simp

text \<open>C20: All directed testbenches of the repository pass on the core, whatever the memories hold at power
  up: every check of registers, memory and loop buffer and every sticky flag prints PASS.\<close>

theorem testbenches_pass:
  "list_all id (tb_riscv_core outside ram0 buf0 @ tb_slti_sltiu outside ram0 buf0
     @ tb_btb_tag_fix outside ram0 buf0 @ tb_loop_buffer outside ram0 buf0
     @ tb_loop_buffer_edgecases outside ram0 buf0 @ tb_loop_buffer_stall outside buf0
     @ tb_icache_gating outside ram0 buf0)"
proof -
  obtain vs e where p: "edgecases_phase1 outside ram0 buf0 = (vs, e)" by (cases "edgecases_phase1 outside ram0 buf0")
  then have "list_all id vs" using edgecases_phase1_passes [of outside ram0 buf0] by simp
  then have "list_all id (tb_loop_buffer_edgecases outside ram0 buf0)"
    using edgecases_phase2_passes by (simp add: tb_loop_buffer_edgecases_def p)
  then show ?thesis
    using tb_riscv_core_passes tb_slti_sltiu_passes tb_btb_tag_fix_passes tb_loop_buffer_passes
      tb_loop_buffer_stall_passes tb_icache_gating_passes by simp
qed

end
