(* ===== verification/Rv32_Cpp.thy ===== *)
theory Rv32_Cpp
  imports Rv32_Agree
begin

text \<open>
  The simulator \<open>src/main.cpp\<close> implements RV32I: from a state with the same registers and the same
  memory below 4096, a step of RV32I that stays in that memory is a turn of the simulator. All loads
  and stores of bytes, halves and words, all branches, shifts and jumps are covered, not only those
  the generator emits.
\<close>

definition same_machine :: "cpu \<Rightarrow> rv \<Rightarrow> bool" where
  "same_machine c S \<longleftrightarrow>
     cpu.pc c = rv_pc S \<and> registers c 0 = 0 \<and> (\<forall>r. r \<noteq> 0 \<longrightarrow> rv_regs S r = registers c (unat r))
     \<and> (\<forall>a < 4096. rv_mem S a = memory c (unat a))"

text \<open>The accesses that stay in the memory of the simulator, and runs of \<open>n\<close> steps that do.\<close>

definition in_memory :: "rv \<Rightarrow> rv_event \<Rightarrow> bool" where
  "in_memory S f \<longleftrightarrow> rv_pc S \<le> 4092
     \<and> (case ev_access f of Quiet \<Rightarrow> True | Loads x \<Rightarrow> x \<le> 4092 | Stores x v \<Rightarrow> x \<le> 4092)"

fun rv_run :: "nat \<Rightarrow> rv \<Rightarrow> rv option" where
  "rv_run 0 S = Some S"
| "rv_run (Suc n) S =
     (case rv_step S of None \<Rightarrow> None | Some (f, S') \<Rightarrow> if in_memory S f then rv_run n S' else None)"

lemma same_register: "same_machine c S \<Longrightarrow> r \<noteq> 0 \<Longrightarrow> rv_regs S r = registers c (unat r)"
  by (simp add: same_machine_def)

section \<open>Memory\<close>

lemma near:
  assumes "(a :: u32w) \<le> 4092"
  shows "a < 4096" "a + 1 < 4096" "a + 2 < 4096" "a + 3 < 4096" "\<not> 4096 \<le> a + 3"
proof -
  have u: "unat a \<le> 4092" using assms by (simp add: word_le_nat_alt)
  then have "unat (a + 1) = unat a + 1" "unat (a + 2) = unat a + 2" "unat (a + 3) = unat a + 3"
    by (simp_all add: unat_word_ariths)
  then show "a < 4096" "a + 1 < 4096" "a + 2 < 4096" "a + 3 < 4096" "\<not> 4096 \<le> a + 3"
    using u by (simp_all add: word_less_nat_alt word_le_nat_alt)
qed

lemma same_byte: "same_machine c S \<Longrightarrow> a < 4096 \<Longrightarrow> mem_get c a = Some (rv_mem S a)"
  by (simp add: same_machine_def mem_get_def)

lemma half_or: "ucast (m a) OR push_bit 8 (ucast (m (a + 1))) = half_of m a"
  unfolding half_of_def by (rule bit_word_eqI) (auto simp: bit_simps bit_word_cat_iff dest: bit_imp_le_length)

lemma half_or_32: "ucast (m a) OR push_bit 8 (ucast (m (a + 1))) = (ucast (half_of m a) :: u32w)"
  unfolding half_of_def by (rule bit_word_eqI) (auto simp: bit_simps bit_word_cat_iff dest: bit_imp_le_length)

lemma word_or: "ucast (m a) OR push_bit 8 (ucast (m (a + 1))) OR push_bit 16 (ucast (m (a + 2))) OR push_bit 24 (ucast (m (a + 3)))
    = word_of m a"
  unfolding word_of_def half_of_def add.assoc
  by (rule bit_word_eqI) (auto simp: bit_simps bit_word_cat_iff dest: bit_imp_le_length)

lemma same_fetch:
  assumes "same_machine c S" "a \<le> 4092"
  shows "fetch_instruction c a = Some (word_of (rv_mem S) a)"
  using near [OF assms(2)] same_byte [OF assms(1)] word_or [of "rv_mem S" a] by (simp add: fetch_instruction_def)

lemma same_set:
  assumes "same_machine c S" "a < 4096"
  shows "\<exists>c'. mem_set a v c = Some c' \<and> same_machine c' (S\<lparr>rv_mem := (rv_mem S)(a := v)\<rparr>) \<and> out c' = out c"
proof -
  have "unat b = unat a \<longleftrightarrow> b = a" for b :: u32w by (simp add: word_unat_eq_iff)
  then show ?thesis using assms by (auto simp: mem_set_def same_machine_def)
qed

lemma bytes_of_word:
  "(ucast (v AND 0xFF) :: 8 word) = ucast (v :: u32w)" "byte_of 0 v = ucast v" "byte_of 1 v = ucast (drop_bit 8 v)"
  "byte_of 2 v = ucast (drop_bit 16 v)" "byte_of 3 v = ucast (drop_bit 24 v)"
proof -
  have m: "0xFF = (mask 8 :: u32w)" by (simp add: mask_eq_exp_minus_1)
  show "(ucast (v AND 0xFF) :: 8 word) = ucast v" "byte_of 0 v = ucast v" "byte_of 1 v = ucast (drop_bit 8 v)"
    "byte_of 2 v = ucast (drop_bit 16 v)" "byte_of 3 v = ucast (drop_bit 24 v)"
    unfolding byte_of_def m by (rule bit_word_eqI; auto simp: bit_simps)+
qed


section \<open>Registers\<close>

lemma same_operand: "same_machine c S \<Longrightarrow> Cpp_Sim.reg c (f_rs1 i) = rv_reg S (i_rs1 i)" "same_machine c S \<Longrightarrow> Cpp_Sim.reg c (f_rs2 i) = rv_reg S (i_rs2 i)"
  by (auto simp: same_machine_def rv_reg_def Cpp_Sim.reg_def f_ucast unat_reg)

lemma write_reg_keeps [simp]: "cpu.pc (write_reg r v c) = cpu.pc c" "out (write_reg r v c) = out c"
  by (simp_all add: write_reg_def)

text \<open>The state behind an instruction: a register write, or a change of the memory.\<close>

lemma same_retire_write:
  assumes "same_machine c S" "retire i p (Some (i_rd i, v)) x (rv_mem S) S = Some (f, S')" "p = q + 4"
  shows "same_machine (write_reg (f_rd i) v c\<lparr>cpu.pc := q + 4\<rparr>) S'"
proof -
  have "unat (i_rd i) = 0 \<longleftrightarrow> i_rd i = 0" "unat s = unat (i_rd i) \<longleftrightarrow> s = i_rd i" for s by (auto simp: word_unat_eq_iff)
  then show ?thesis using assms
    by (auto simp: retire_def same_machine_def f_ucast(4) write_reg_5 split: if_splits)
qed

lemma same_retire_memory:
  assumes "same_machine c (S\<lparr>rv_mem := m\<rparr>)" "retire i p None x m S = Some (f, S')" "p = q + 4"
  shows "same_machine (c\<lparr>cpu.pc := q + 4\<rparr>) S'"
  using assms by (auto simp: retire_def same_machine_def split: if_splits)

section \<open>Opcode by opcode\<close>

lemma f3_rv: "f_funct3 i = 0x0 \<longleftrightarrow> i_funct3 i = 0" "f_funct3 i = 0x1 \<longleftrightarrow> i_funct3 i = 1"
  "f_funct3 i = 0x2 \<longleftrightarrow> i_funct3 i = 2" "f_funct3 i = 0x3 \<longleftrightarrow> i_funct3 i = 3"
  "f_funct3 i = 0x4 \<longleftrightarrow> i_funct3 i = 4" "f_funct3 i = 0x5 \<longleftrightarrow> i_funct3 i = 5"
  "f_funct3 i = 0x6 \<longleftrightarrow> i_funct3 i = 6" "f_funct3 i = 0x7 \<longleftrightarrow> i_funct3 i = 7"
  unfolding f_ucast ucast_up_iff(2) [symmetric] by simp_all

lemma load_rv:
  assumes "same_machine c S" "i_opcode i = 0x03" "rv_load (i_funct3 i) (rv_mem S) (rv_reg S (i_rs1 i) + imm_i i) = Some v"
    and "rv_reg S (i_rs1 i) + imm_i i \<le> 4092"
  shows "exec_load i c = Some (write_reg (f_rd i) v c)"
proof -
  let ?a = "rv_reg S (i_rs1 i) + imm_i i"
  note n = near [OF assms(4)]
  have a: "Cpp_Sim.reg c (f_rs1 i) + sign_extend_12 (drop_bit 20 i) = ?a" by (simp add: same_operand [OF assms(1)] rv_imm_i)
  note g = same_byte [OF assms(1)]
  show ?thesis
    using assms(3) word3_exhaust [of "i_funct3 i"]
    unfolding exec_load_def Let_def a f3_rv rv_load_def
    by (elim disjE) (auto simp: g n half_or half_or_32 word_or split: if_splits)
qed

lemma store_rv:
  assumes "same_machine c S" "i_opcode i = 0x23"
    and "rv_store (i_funct3 i) (rv_reg S (i_rs1 i) + imm_s i) (rv_reg S (i_rs2 i)) (rv_mem S) = Some m"
    and "rv_reg S (i_rs1 i) + imm_s i \<le> 4092"
  shows "\<exists>c'. exec_store i c = Some c' \<and> same_machine c' (S\<lparr>rv_mem := m\<rparr>) \<and> out c' = out c"
proof -
  let ?a = "rv_reg S (i_rs1 i) + imm_s i" and ?v = "rv_reg S (i_rs2 i)"
  note n = near [OF assms(4)]
  have a: "Cpp_Sim.reg c (f_rs1 i) + decode_S_imm i = ?a" "Cpp_Sim.reg c (f_rs2 i) = ?v"
    by (simp_all add: same_operand [OF assms(1)] rv_imm_s)
  obtain c1 where c1: "mem_set ?a (ucast ?v) c = Some c1" "same_machine c1 (S\<lparr>rv_mem := (rv_mem S)(?a := ucast ?v)\<rparr>)" "out c1 = out c"
    using same_set [OF assms(1) n(1)] by blast
  obtain c2 where c2: "mem_set (?a + 1) (ucast (drop_bit 8 ?v)) c1 = Some c2"
    "same_machine c2 (S\<lparr>rv_mem := (rv_mem S)(?a := ucast ?v, ?a + 1 := ucast (drop_bit 8 ?v))\<rparr>)" "out c2 = out c"
    using same_set [OF c1(2) n(2)] c1(3) by auto
  obtain c3 where c3: "mem_set (?a + 2) (ucast (drop_bit 16 ?v)) c2 = Some c3"
    "same_machine c3 (S\<lparr>rv_mem := (rv_mem S)(?a := ucast ?v, ?a + 1 := ucast (drop_bit 8 ?v), ?a + 2 := ucast (drop_bit 16 ?v))\<rparr>)" "out c3 = out c"
    using same_set [OF c2(2) n(3)] c2(3) by auto
  obtain c4 where c4: "mem_set (?a + 3) (ucast (drop_bit 24 ?v)) c3 = Some c4"
    "same_machine c4 (S\<lparr>rv_mem := (rv_mem S)(?a := ucast ?v, ?a + 1 := ucast (drop_bit 8 ?v), ?a + 2 := ucast (drop_bit 16 ?v),
      ?a + 3 := ucast (drop_bit 24 ?v))\<rparr>)" "out c4 = out c"
    using same_set [OF c3(2) n(4)] c3(3) by auto
  have h: "ucast (ucast ?v :: 16 word) = (ucast ?v :: 8 word)" "ucast (drop_bit 8 (ucast ?v :: 16 word)) = (ucast (drop_bit 8 ?v) :: 8 word)"
    "ucast (ucast (drop_bit 16 ?v) :: 16 word) = (ucast (drop_bit 16 ?v) :: 8 word)"
    "ucast (drop_bit 8 (ucast (drop_bit 16 ?v) :: 16 word)) = (ucast (drop_bit 24 ?v) :: 8 word)"
    by (rule bit_word_eqI; auto simp: bit_simps)+
  show ?thesis
    using assms(3) word3_exhaust [of "i_funct3 i"] c1 c2 c3(1) c4
    unfolding exec_store_def Let_def a f3_rv rv_store_def
    by (elim disjE) (auto simp: bytes_of_word put_word_def put_half_def h add.assoc split: if_splits simp del: One_nat_def)
qed


section \<open>A turn of the simulator\<close>

lemma op_rv:
  assumes "i_funct7 i = 0 \<or> i_funct7 i = 0x20 \<and> i_funct3 i \<in> {0, 5}"
  shows "exec_reg i c = write_reg (f_rd i) (rv_op (i_funct3 i) (i_funct7 i \<noteq> 0) (Cpp_Sim.reg c (f_rs1 i)) (Cpp_Sim.reg c (f_rs2 i))) c"
proof -
  have "f_funct3 i = 5 \<longrightarrow> bit i 30 = (f_funct7 i = 0x20)"
    using assms f7_bit30 [of i] by (auto simp: funct_iff)
  from exec_reg_isa [OF this] show ?thesis unfolding alu_r_rv [OF assms] .
qed

lemma branch_rv:
  "i_funct3 i \<notin> {2, 3} \<Longrightarrow>
   exec_branch i c = c\<lparr>cpu.pc := (if rv_taken (i_funct3 i) (Cpp_Sim.reg c (f_rs1 i)) (Cpp_Sim.reg c (f_rs2 i))
     then cpu.pc c + imm_b i - 4 else cpu.pc c)\<rparr>"
  using word3_exhaust [of "i_funct3 i"]
  unfolding exec_branch_def Let_def f3_rv rv_imm_b by (elim disjE) (auto simp: rv_taken_def)

text \<open>What executing an instruction does before the loop adds 4 to the program counter.\<close>

lemma execute_rv:
  assumes "same_machine c S" "rv_execute i S = Some (f, S')"
    and "case ev_access f of Quiet \<Rightarrow> True | Loads x \<Rightarrow> x \<le> 4092 | Stores x v \<Rightarrow> x \<le> 4092"
  shows "\<exists>c'. decode_and_execute i c = Some c' \<and> same_machine (c'\<lparr>cpu.pc := cpu.pc c' + 4\<rparr>) S' \<and> out c' = out c"
proof -
  let ?a = "rv_reg S (i_rs1 i)" and ?b = "rv_reg S (i_rs2 i)"
  have p: "cpu.pc c = rv_pc S" using assms(1) by (simp add: same_machine_def)
  have S: "S\<lparr>rv_mem := rv_mem S\<rparr> = S" by simp
  note r = same_operand [OF assms(1)] and w = same_retire_write [OF assms(1)]
  have acc: "retire i q x y m S = Some (f, S') \<Longrightarrow> ev_access f = y" for q x y m by (auto simp: retire_def split: if_splits)
  note x = assms(2) [unfolded rv_execute_def Let_def]
  consider "i_opcode i = 0x33" | "i_opcode i = 0x13" | "i_opcode i = 0x03" | "i_opcode i = 0x23" | "i_opcode i = 0x63"
    | "i_opcode i = 0x6F" | "i_opcode i = 0x67" | "i_opcode i = 0x37" | "i_opcode i = 0x17"
    using x by (auto split: if_splits)
  then show ?thesis
  proof cases
    case 1
    then have l: "i_funct7 i = 0 \<or> i_funct7 i = 0x20 \<and> i_funct3 i \<in> {0, 5}" using x by (auto split: if_splits)
    have "retire i (rv_pc S + 4) (Some (i_rd i, rv_op (i_funct3 i) (i_funct7 i \<noteq> 0) ?a ?b)) Quiet (rv_mem S) S = Some (f, S')"
      using x 1 l by (simp split: if_splits)
    from w [OF this refl] 1 show ?thesis
      by (simp add: decode_and_execute_def opcode_iff op_rv [OF l] r p)
  next
    case 2
    then have l: "i_funct3 i = 5 \<longrightarrow> i_funct7 i \<in> {0, 0x20}" using x by (auto split: if_splits)
    have "retire i (rv_pc S + 4) (Some (i_rd i, rv_op (i_funct3 i) (i_funct3 i = 5 \<and> i_funct7 i \<noteq> 0) ?a (imm_i i))) Quiet (rv_mem S) S = Some (f, S')"
      using x 2 by (simp split: if_splits)
    from w [OF this refl] 2 show ?thesis
      by (simp add: decode_and_execute_def opcode_iff exec_imm_isa alu_i_rv [OF l] rv_imm_i r p)
  next
    case 3
    then obtain v where v: "rv_load (i_funct3 i) (rv_mem S) (?a + imm_i i) = Some v"
      "retire i (rv_pc S + 4) (Some (i_rd i, v)) (Loads (?a + imm_i i)) (rv_mem S) S = Some (f, S')"
      using x by (auto split: option.splits)
    have "?a + imm_i i \<le> 4092" using assms(3) acc [OF v(2)] by simp
    from load_rv [OF assms(1) 3 v(1) this] w [OF v(2) refl] 3 show ?thesis
      by (simp add: decode_and_execute_def opcode_iff p)
  next
    case 4
    then obtain m where v: "rv_store (i_funct3 i) (?a + imm_s i) ?b (rv_mem S) = Some m"
      "retire i (rv_pc S + 4) None (Stores (?a + imm_s i) ?b) m S = Some (f, S')"
      using x by (auto split: option.splits)
    have "?a + imm_s i \<le> 4092" using assms(3) acc [OF v(2)] by simp
    from store_rv [OF assms(1) 4 v(1) this] obtain c' where
      c': "exec_store i c = Some c'" "same_machine c' (S\<lparr>rv_mem := m\<rparr>)" "out c' = out c" by blast
    have "cpu.pc c' = rv_pc S" using c'(2) by (simp add: same_machine_def)
    with same_retire_memory [OF c'(2) v(2) refl] c' 4 show ?thesis
      by (simp add: decode_and_execute_def opcode_iff)
  next
    case 5
    then have l: "i_funct3 i \<notin> {2, 3}" using x by (auto split: if_splits)
    have v: "retire i (if rv_taken (i_funct3 i) ?a ?b then rv_pc S + imm_b i else rv_pc S + 4) None Quiet (rv_mem S) S = Some (f, S')"
      using x 5 l by simp
    have "same_machine (c\<lparr>cpu.pc := (if rv_taken (i_funct3 i) ?a ?b then rv_pc S + imm_b i - 4 else rv_pc S) + 4\<rparr>) S'"
      by (rule same_retire_memory [OF _ v]) (simp_all add: S assms(1))
    with 5 show ?thesis
      by (cases "rv_taken (i_funct3 i) ?a ?b") (simp_all add: decode_and_execute_def opcode_iff branch_rv [OF l] r p)
  next
    case 6
    then have v: "retire i (rv_pc S + imm_j i) (Some (i_rd i, rv_pc S + 4)) Quiet (rv_mem S) S = Some (f, S')" using x by simp
    have "rv_pc S + imm_j i = rv_pc S + imm_j i - 4 + 4" by simp
    from w [OF v this] 6 show ?thesis
      by (simp add: decode_and_execute_def opcode_iff exec_jal_def Let_def rv_imm_j p)
  next
    case 7
    then have v: "retire i ((?a + imm_i i) AND NOT 1) (Some (i_rd i, rv_pc S + 4)) Quiet (rv_mem S) S = Some (f, S')"
      using x by (simp split: if_splits)
    have "(?a + imm_i i) AND NOT 1 = ((?a + imm_i i) AND NOT 1) - 4 + 4" by simp
    from w [OF v this] 7 show ?thesis
      by (simp add: decode_and_execute_def opcode_iff exec_jalr_def Let_def rv_imm_i r p)
  next
    case 8
    then have "retire i (rv_pc S + 4) (Some (i_rd i, imm_u i)) Quiet (rv_mem S) S = Some (f, S')" using x by simp
    from w [OF this refl] 8 show ?thesis by (simp add: decode_and_execute_def opcode_iff rv_imm_u p)
  next
    case 9
    then have "retire i (rv_pc S + 4) (Some (i_rd i, rv_pc S + imm_u i)) Quiet (rv_mem S) S = Some (f, S')" using x by simp
    from w [OF this refl] 9 show ?thesis by (simp add: decode_and_execute_def opcode_iff rv_imm_u p)
  qed
qed

lemma rv_execute_nonzero: "rv_execute i S = Some r \<Longrightarrow> i \<noteq> 0"
  by (auto simp: rv_execute_def Let_def i_opcode_def)

lemma turn_rv:
  assumes "same_machine c S" "rv_step S = Some (f, S')" "in_memory S f"
  shows "\<exists>c'. sim_step c = Go c' \<and> same_machine c' S' \<and> out c' = out c"
proof -
  have m: "rv_pc S \<le> 4092" "case ev_access f of Quiet \<Rightarrow> True | Loads x \<Rightarrow> x \<le> 4092 | Stores x v \<Rightarrow> x \<le> 4092"
    using assms(3) by (simp_all add: in_memory_def)
  have p: "cpu.pc c = rv_pc S" using assms(1) by (simp add: same_machine_def)
  let ?i = "word_of (rv_mem S) (rv_pc S)"
  have x: "rv_execute ?i S = Some (f, S')" using assms(2) by (simp add: rv_step_def)
  obtain c' where "decode_and_execute ?i c = Some c'" "same_machine (c'\<lparr>cpu.pc := cpu.pc c' + 4\<rparr>) S'" "out c' = out c"
    using execute_rv [OF assms(1) x m(2)] by blast
  then show ?thesis
    using same_fetch [OF assms(1) m(1)] near(1) [OF m(1)] rv_execute_nonzero [OF x] by (simp add: sim_step_def p)
qed

lemma run_rv:
  "same_machine c S \<Longrightarrow> rv_run n S = Some S' \<Longrightarrow>
   \<exists>c'. (\<forall>k. run_sim (n + k) c = run_sim k c') \<and> same_machine c' S' \<and> out c' = out c"
proof (induction n arbitrary: c S)
  case (Suc n)
  obtain f T where t: "rv_step S = Some (f, T)" "in_memory S f" "rv_run n T = Some S'"
    using Suc.prems(2) by (auto split: option.splits if_splits)
  obtain d where d: "sim_step c = Go d" "same_machine d T" "out d = out c"
    using turn_rv [OF Suc.prems(1) t(1,2)] by blast
  from Suc.IH [OF d(2) t(3)] d(1,3) show ?case by auto
qed auto

text \<open>C7: The single-cycle simulator implements RV32I: as long as the instruction set defines a step of the
  machine, and the instructions and their accesses lie in the first 4 KiB, the loop of \<open>main.cpp\<close>
  makes exactly these steps, one per turn, for all 37 computational, load, store, branch and jump
  instructions, and prints nothing.\<close>

theorem simulator_implements_rv32i:
  assumes "same_machine c S" "rv_run n S = Some S'"
  shows "\<exists>c'. (\<forall>k. run_sim (n + k) c = run_sim k c') \<and> same_machine c' S' \<and> out c' = out c"
  by (rule run_rv [OF assms])

text \<open>The bound is that of a word for every load: \<open>lb x1, 0(x2)\<close> at 4095 is refused, where \<open>sb x1, 0(x2)\<close>
  writes the byte.\<close>

lemma last_byte_stored_not_loaded:
  "registers c 2 = 4095 \<Longrightarrow> exec_load 0x00010083 c = Some (say (OutOfBounds 4095) c)
     \<and> exec_store 0x00110023 c = mem_set 4095 (byte_of 0 (registers c 1)) c"
  by (simp add: exec_load_def exec_store_def f_rs1_def f_rs2_def f_rd_def f_funct3_def sign_extend_12_def decode_S_imm_def Cpp_Sim.reg_def)

text \<open>A byte stored and loaded again with its sign: \<open>sb x2, 0(x1)\<close>, \<open>lb x3, 0(x1)\<close> with x1 = 16 and
  x2 = 0x1FF.\<close>

definition sb_cpu :: cpu where
  "sb_cpu = \<lparr>registers = (\<lambda>r. if r = 1 then 16 else if r = 2 then 0x1FF else 0), pc = 0,
     memory = (\<lambda>a. if a < 8 then [0x23, 0x80, 0x20, 0x00, 0x83, 0x81, 0x00, 0x00] ! a else 0), out = []\<rparr>"

text \<open>The RV32I machine with the registers and the memory of the simulator.\<close>

definition as_rv :: "cpu \<Rightarrow> rv" where
  "as_rv c = \<lparr>rv_pc = cpu.pc c, rv_regs = (\<lambda>r. registers c (unat r)), rv_mem = (\<lambda>a. memory c (unat a))\<rparr>"

lemma as_rv_same: "registers c 0 = 0 \<Longrightarrow> same_machine c (as_rv c)"
  by (simp add: same_machine_def as_rv_def)

lemma sb_run: "case rv_run 2 (as_rv sb_cpu) of None \<Rightarrow> False | Some S \<Rightarrow> rv_mem S 16 = 0xFF \<and> rv_regs S 3 = 0xFFFFFFFF"
  by code_simp

lemma simulator_implements_rv32i_witness:
  "\<exists>c'. run_sim 2 sb_cpu = Running c' \<and> registers c' 3 = 0xFFFFFFFF"
proof -
  have s: "same_machine sb_cpu (as_rv sb_cpu)" by (rule as_rv_same) (simp add: sb_cpu_def)
  obtain S where r: "rv_run 2 (as_rv sb_cpu) = Some S" "rv_regs S 3 = 0xFFFFFFFF"
    using sb_run by (auto split: option.splits)
  obtain c' where c: "\<forall>k. run_sim (2 + k) sb_cpu = run_sim k c'" "same_machine c' S"
    using simulator_implements_rv32i [OF s r(1)] by blast
  have "run_sim 2 sb_cpu = Running c'" using c(1) [rule_format, of 0] by simp
  moreover have "registers c' (unat (3 :: 5 word)) = 0xFFFFFFFF" using same_register [OF c(2), of 3] r(2) by simp
  ultimately show ?thesis by auto
qed

end
