(* ===== verification/Cpp_Main.thy ===== *)
theory Cpp_Main
  imports Gen_Main Rv32_Cpp
begin

text \<open>
  The program \<open>src/main.cpp\<close> as a whole: the text of its messages, \<open>dump_registers\<close>, and \<open>main\<close> from the
  contents of \<open>program.hex\<close> to the standard output (\<open>simulate\<close>; a program that does not end within the
  fuel is \<open>Unfinished\<close>). Messages on the error stream are not part of it.
\<close>

section \<open>Messages\<close>

text \<open>\<open>std::endl\<close> ends a line; numbers are printed with \<open>std::hex\<close>.\<close>

definition endl :: string where "endl = [LF]"

fun msg_text :: "cpp_msg \<Rightarrow> string" where
  "msg_text (UnknownIType f) = ''Unknown I-type funct3: 0x'' @ hex (unat f) @ endl"
| "msg_text (UnknownRType f) = ''Unknown R-Type funct3: 0x'' @ hex (unat f) @ endl"
| "msg_text (UnknownStore f) = ''Unknown Store funct3: 0x'' @ hex (unat f) @ endl"
| "msg_text (UnknownBType f) = ''Unknown B-Type funct3: 0x'' @ hex (unat f) @ endl"
| "msg_text (OutOfBounds a) = ''Memory access out of bounds: 0x'' @ hex (unat a) @ endl"
| "msg_text (UnknownLoad f) = ''Unknown Load funct3: 0x'' @ hex (unat f) @ endl"
| "msg_text EcallExit = ''Program exited gracefully via ECALL.'' @ endl"
| "msg_text (UnknownOpcode opc) = ''Unknown Opcode: 0x'' @ hex (unat opc) @ endl"

definition loaded_text :: "u32w \<Rightarrow> string" where
  "loaded_text current_pc = ''Loaded '' @ dec (unat (current_pc div 4)) @ '' instructions.'' @ endl"

section \<open>dump_registers\<close>

definition ruler :: string where "ruler = replicate 44 (CHR ''='')"

text \<open>\<open>std::setw(k)\<close> with the fill character, left and right aligned.\<close>

definition setw_left :: "nat \<Rightarrow> string \<Rightarrow> string" where
  "setw_left k s = s @ replicate (k - length s) (CHR '' '')"

definition setw_right :: "char \<Rightarrow> nat \<Rightarrow> string \<Rightarrow> string" where
  "setw_right c k s = replicate (k - length s) c @ s"

definition signed_dec :: "u32w \<Rightarrow> string" where
  "signed_dec v = (if sint v < 0 then CHR ''-'' # dec (nat (- sint v)) else dec (nat (sint v)))"

definition register_text :: "nat \<Rightarrow> u32w \<Rightarrow> string" where
  "register_text i v =
     ''x'' @ setw_left 2 (dec i) @ '': 0x'' @ setw_right (CHR ''0'') 8 (hex (unat v))
     @ '' ('' @ setw_right (CHR '' '') 10 (signed_dec v) @ '')''
     @ (if i mod 2 = 1 then endl else ''  |  '')"

definition dump_registers :: "(nat \<Rightarrow> u32w) \<Rightarrow> string" where
  "dump_registers regs =
     endl @ ruler @ endl @ ''          FINAL REGISTER FILE STATE         '' @ endl @ ruler @ endl
     @ concat (map (\<lambda>i. register_text i (regs i)) [0 ..< 32]) @ ruler @ endl"

section \<open>main\<close>

datatype run = Output string | Undefined_Behaviour | Unfinished

text \<open>The file is \<open>None\<close> when it cannot be opened; then nothing is loaded and no count printed.\<close>

definition load_program :: "string option \<Rightarrow> (cpu \<times> string) option" where
  "load_program file =
     (case file of
        None \<Rightarrow> Some (init_cpu, [])
      | Some text \<Rightarrow> map_option (\<lambda>(c, current_pc, bad). (c, loaded_text current_pc)) (load_from_file text init_cpu))"

definition simulate :: "nat \<Rightarrow> string option \<Rightarrow> run" where
  "simulate fuel file =
     (case load_program file of
        None \<Rightarrow> Undefined_Behaviour
      | Some (c, loaded) \<Rightarrow>
          (case run_sim fuel c of
             Crashed \<Rightarrow> Undefined_Behaviour
           | Running _ \<Rightarrow> Unfinished
           | Ended d \<Rightarrow> Output (loaded @ concat (map msg_text (out d)) @ dump_registers (registers d))))"

section \<open>Reading the dump\<close>

text \<open>A reader of the dump: the eight digits behind each 0x.\<close>

fun read_dump :: "string \<Rightarrow> u32w list" where
  "read_dump [] = []"
| "read_dump [c] = []"
| "read_dump (c # d # s) =
     (if c = CHR ''0'' \<and> d = CHR ''x'' then word_of_nat (parse_digits 16 (take 8 s)) # read_dump (drop 8 s)
      else read_dump (d # s))"

text \<open>Text in which no x follows directly on a 0 is skipped.\<close>

fun no_0x :: "string \<Rightarrow> bool" where
  "no_0x [] = True"
| "no_0x [c] = True"
| "no_0x (c # d # s) = (\<not> (c = CHR ''0'' \<and> d = CHR ''x'') \<and> no_0x (d # s))"

lemma read_skip: "no_0x s \<Longrightarrow> s = [] \<or> last s \<noteq> CHR ''0'' \<Longrightarrow> read_dump (s @ r) = read_dump r"
proof (induction s rule: no_0x.induct)
  case (2 c)
  then show ?case by (cases r) auto
qed auto

lemma no_0x_append: "no_0x s \<Longrightarrow> no_0x r \<Longrightarrow> s = [] \<or> last s \<noteq> CHR ''0'' \<Longrightarrow> no_0x (s @ r)"
proof (induction s rule: no_0x.induct)
  case (2 c)
  then show ?case by (cases r) auto
qed auto

lemma no_x: "CHR ''x'' \<notin> set s \<Longrightarrow> no_0x s"
  by (induction s rule: no_0x.induct) auto

lemma read_hex: "n < 2 ^ 32 \<Longrightarrow> read_dump (''0x'' @ hex_pad 8 n @ r) = word_of_nat n # read_dump r"
proof -
  assume "n < 2 ^ 32"
  then have "length (hex_pad 8 n) = 8" by (intro length_hex_pad) simp_all
  then show ?thesis by simp
qed


lemma setw_hex: "setw_right (CHR ''0'') k (hex n) = hex_pad k n"
  by (simp add: setw_right_def hex_pad_def zero_pad_def)

lemma is_digit_x [simp]: "\<not> is_digit (CHR ''x'')"
  by (simp add: is_digit_def)

lemma no_x_text:
  "CHR ''x'' \<notin> set (setw_left k (dec n))" "CHR ''x'' \<notin> set (setw_right (CHR '' '') k (signed_dec v))"
  "CHR ''x'' \<notin> set endl" "CHR ''x'' \<notin> set ruler"
  using dec_chars [of "CHR ''x''"] by (auto simp: setw_left_def setw_right_def signed_dec_def endl_def LF_def ruler_def)

lemma no_0x_Cons: "no_0x (c # s) \<longleftrightarrow> no_0x s \<and> \<not> (c = CHR ''0'' \<and> s \<noteq> [] \<and> hd s = CHR ''x'')"
  by (cases s) auto

lemma read_register: "read_dump (register_text i v @ r) = v # read_dump r"
proof -
  let ?p = "''x'' @ setw_left 2 (dec i) @ '': ''" and ?q = "'' ('' @ setw_right (CHR '' '') 10 (signed_dec v) @ '')'' @ (if i mod 2 = 1 then endl else ''  |  '')"
  have v: "unat v < 2 ^ 32" using unsigned_less [of v] by simp
  have "CHR ''x'' \<notin> set (setw_left 2 (dec i) @ '': '')" "CHR ''x'' \<notin> set ?q" using no_x_text by auto
  then have p: "no_0x ?p" "no_0x ?q" using no_x by (auto simp: no_0x_Cons)
  have l: "last ?p \<noteq> CHR ''0''" "last ?q \<noteq> CHR ''0''" by (simp_all add: endl_def LF_def)
  have "read_dump (?q @ r) = read_dump r" using read_skip [OF p(2)] l(2) by blast
  then have "read_dump (''0x'' @ hex_pad 8 (unat v) @ ?q @ r) = v # read_dump r" using read_hex [OF v] by simp
  moreover have "read_dump (?p @ s) = read_dump s" for s using read_skip [OF p(1)] l(1) by blast
  moreover have "register_text i v @ r = ?p @ ''0x'' @ hex_pad 8 (unat v) @ ?q @ r"
    by (simp add: register_text_def setw_hex)
  ultimately show ?thesis by metis
qed

text \<open>C34: The final register dump of \<open>main.cpp\<close> can be read back: the eight hexadecimal digits behind each
  0x are the 32 registers, in order, whatever their values.\<close>

theorem dump_registers_read_back: "read_dump (dump_registers regs) = map regs [0 ..< 32]"
proof -
  let ?h = "endl @ ruler @ endl @ ''          FINAL REGISTER FILE STATE         '' @ endl @ ruler @ endl"
  have h: "read_dump (?h @ r) = read_dump r" for r
    by (rule read_skip [OF no_x]) (use no_x_text in \<open>auto simp: endl_def LF_def\<close>)
  have t: "read_dump (ruler @ endl) = []"
    using read_skip [OF no_x, of "ruler @ endl" "[]"] no_x_text by (auto simp: endl_def LF_def)
  have "read_dump (concat (map (\<lambda>i. register_text i (regs i)) is) @ ruler @ endl) = map regs is" for "is"
    by (induction "is") (simp_all add: read_register t)
  then show ?thesis using h by (simp add: dump_registers_def)
qed


section \<open>The whole program\<close>

text \<open>\<open>current_pc\<close> is a multiple of 4, so the bound of \<open>store_word\<close> cannot be passed by wrapping around.\<close>

lemma store_word_total:
  assumes m: "unat p mod 4 = 0"
  shows "\<exists>c'. store_word p v c = Some c' \<and> registers c' = registers c \<and> cpu.pc c' = cpu.pc c \<and> out c' = out c"
proof (cases "4096 \<le> p + 3")
  case False
  have "unat p < 4294967296" using unsigned_less [of p] by simp
  with m have "unat p + 3 < 4294967296" by presburger
  then have "unat (p + 3) = unat p + 3" by (simp add: unat_word_ariths)
  then have "p \<le> 4092" using False m by (simp add: word_le_nat_alt)
  from near [OF this] show ?thesis by (auto simp: store_word_def put_word_def mem_set_def)
qed (auto simp: store_word_def)

lemma load_lines_total:
  "unat p mod 4 = 0 \<Longrightarrow> \<exists>c' q bad. load_lines p ls c = Some (c', q, bad)
     \<and> registers c' = registers c \<and> cpu.pc c' = cpu.pc c \<and> out c' = out c"
proof (induction ls arbitrary: p c)
  case (Cons l ls)
  have p: "unat (p + 4) mod 4 = 0" using Cons.prems by (simp add: unat_word_ariths mod_mod_cancel)
  show ?case
  proof (cases "l = [] \<or> stoul16 l = None")
    case True
    with Cons.IH [OF Cons.prems, of c] show ?thesis by auto
  next
    case False
    then obtain v where v: "stoul16 l = Some v" "l \<noteq> []" by auto
    obtain d where d: "store_word p (of_nat v) c = Some d" "registers d = registers c" "cpu.pc d = cpu.pc c" "out d = out c"
      using store_word_total [OF Cons.prems] by metis
    with Cons.IH [OF p, of d] v show ?thesis by auto
  qed
qed simp

lemma dump_cong:
  assumes "\<And>i. i < 32 \<Longrightarrow> f i = g i"
  shows "dump_registers f = dump_registers g"
proof -
  have "map (\<lambda>i. register_text i (f i)) [0 ..< 32] = map (\<lambda>i. register_text i (g i)) [0 ..< 32]"
    by (rule map_cong [OF refl], simp only: set_upt atLeastLessThan_iff assms)
  then show ?thesis unfolding dump_registers_def by (rule arg_cong)
qed

text \<open>How a run of RV32I ends for the simulator: on a zero word, or on a system call with 10 in x17.\<close>

definition last_words :: "rv \<Rightarrow> string option" where
  "last_words S =
     (let i = word_of (rv_mem S) (rv_pc S)
      in if i = 0 then Some []
         else if i_opcode i = 0x73 \<and> rv_regs S 17 = 10 then Some (msg_text EcallExit)
         else None)"

lemma last_turns:
  assumes "same_machine c S" "rv_pc S \<le> 4092" "last_words S = Some t" "out c = []"
  shows "\<exists>d. run_sim (Suc (Suc k)) c = Ended d \<and> registers d = registers c \<and> concat (map msg_text (out d)) = t"
proof -
  let ?i = "word_of (rv_mem S) (rv_pc S)"
  have p: "cpu.pc c = rv_pc S" using assms(1) by (simp add: same_machine_def)
  note f = same_fetch [OF assms(1,2)] near(1) [OF assms(2)]
  show ?thesis
  proof (cases "?i = 0")
    case True
    then show ?thesis using assms(3,4) f by (simp add: last_words_def sim_step_def p)
  next
    case False
    then have e: "i_opcode ?i = 0x73" "rv_regs S 17 = 10" "t = msg_text EcallExit"
      using assms(3) by (auto simp: last_words_def Let_def split: if_splits)
    have "registers c 17 = 10" using same_register [OF assms(1), of 17] e(2) by simp
    then have x: "decode_and_execute ?i c = Some (c\<lparr>out := [EcallExit], cpu.pc := 4096\<rparr>)"
      using assms(4) e(1) by (simp add: decode_and_execute_def f_ucast exec_system_def say_def)
    from False e(3) f show ?thesis by (simp add: sim_step_def p x)
  qed
qed

text \<open>C19: What the program prints, for every \<open>program.hex\<close> (the loader never leaves the memory, whatever the
  file holds): if RV32I, started on the loaded memory, runs \<open>n\<close> steps inside it and comes to a zero
  word or to the exit call, then \<open>main\<close> ends after the number of loaded instructions, the exit message
  if there is one, and the dump of the registers RV32I has computed.\<close>

theorem simulator_output:
  "\<exists>c p bad. load_from_file file init_cpu = Some (c, p, bad) \<and> registers c 0 = 0
     \<and> (\<forall>n S t. rv_run n (as_rv c) = Some S \<and> rv_pc S \<le> 4092 \<and> last_words S = Some t \<longrightarrow>
          simulate (n + 2 + k) (Some file) = Output (loaded_text p @ t @ dump_registers (\<lambda>r. rv_reg S (of_nat r))))"
proof -
  obtain c p bad where l: "load_from_file file init_cpu = Some (c, p, bad)" "registers c = (\<lambda>_. 0)" "out c = []"
    using load_lines_total [of 0 "split_at (\<lambda>c. c = LF) file" init_cpu] by (auto simp: load_from_file_def init_cpu_def)
  have "simulate (n + 2 + k) (Some file) = Output (loaded_text p @ t @ dump_registers (\<lambda>r. rv_reg S (of_nat r)))"
    if r: "rv_run n (as_rv c) = Some S" "rv_pc S \<le> 4092" "last_words S = Some t" for n S t
  proof -
    have "same_machine c (as_rv c)" by (rule as_rv_same) (simp add: l)
    from run_rv [OF this r(1)] obtain d where
      d: "run_sim (n + (2 + k)) c = run_sim (2 + k) d" "same_machine d S" "out d = []" using l(3) by metis
    obtain e where e: "run_sim (2 + k) d = Ended e" "registers e = registers d" "concat (map msg_text (out e)) = t"
      using last_turns [OF d(2) r(2,3) d(3), of k] by auto
    have "registers d i = rv_reg S (of_nat i)" if "i < 32" for i
    proof (cases "i = 0")
      case True
      then show ?thesis using d(2) by (simp add: rv_reg_def same_machine_def)
    next
      case False
      have u: "unat (of_nat i :: 5 word) = i" using that by (simp add: unat_of_nat)
      with False have "(of_nat i :: 5 word) \<noteq> 0" by (metis unat_0)
      then show ?thesis using same_register [OF d(2)] u by (simp add: rv_reg_def)
    qed
    then have "dump_registers (registers e) = dump_registers (\<lambda>r. rv_reg S (of_nat r))"
      unfolding e(2) by (rule dump_cong)
    with d(1) e show ?thesis by (simp add: simulate_def load_program_def l(1) add.assoc)
  qed
  with l(1) fun_cong [OF l(2)] show ?thesis by blast
qed

text \<open>\<open>addi x1, x0, 5\<close>, \<open>addi x17, x0, 10\<close>, \<open>ecall\<close>.\<close>

definition exit_hex :: string where
  "exit_hex = unlines (map (\<lambda>w. hex_pad 8 (nat w)) [0x00500093, 0x00A00893, 0x00000073])"

lemma exit_loaded: "load_from_file exit_hex init_cpu =
    map_option (\<lambda>c. (c, 12, 0)) (load_words 0 [0x00500093, 0x00A00893, 0x00000073] init_cpu)"
  using load_hex_text [of "[0x00500093, 0x00A00893, 0x00000073]" init_cpu]
  by (simp add: exit_hex_def fits_def del: load_words.simps)

lemma exit_run: "case load_words 0 [0x00500093, 0x00A00893, 0x00000073] init_cpu of None \<Rightarrow> False
    | Some c \<Rightarrow> (case rv_run 2 (as_rv c) of None \<Rightarrow> False
        | Some S \<Rightarrow> rv_pc S \<le> 4092 \<and> word_of (rv_mem S) (rv_pc S) = 0x73 \<and> rv_reg S 17 = 10 \<and> rv_reg S 1 = 5)"
  by code_simp

lemma simulator_output_witness:
  "\<exists>r. simulate 4 (Some exit_hex) = Output (loaded_text 12 @ msg_text EcallExit @ dump_registers r) \<and> r 1 = 5"
proof -
  obtain c where w: "load_words 0 [0x00500093, 0x00A00893, 0x00000073] init_cpu = Some c"
    using exit_run by (cases "load_words 0 [0x00500093, 0x00A00893, 0x00000073] init_cpu") auto
  then have c: "load_from_file exit_hex init_cpu = Some (c, 12, 0)" by (simp add: exit_loaded del: load_words.simps)
  obtain S where S: "rv_run 2 (as_rv c) = Some S" "rv_pc S \<le> 4092" "word_of (rv_mem S) (rv_pc S) = 0x73"
    "rv_reg S 17 = 10" "rv_reg S 1 = 5"
    using exit_run unfolding w by (auto split: option.splits)
  then have t: "last_words S = Some (msg_text EcallExit)"
    by (simp add: last_words_def rv_reg_def i_opcode_def del: msg_text.simps)
  have "simulate (2 + 2 + 0) (Some exit_hex) = Output (loaded_text 12 @ msg_text EcallExit @ dump_registers (\<lambda>r. rv_reg S (of_nat r)))"
    using simulator_output [of exit_hex 0] S(1,2) t c by (metis option.inject prod.inject)
  then show ?thesis using S(5) by (intro exI [of _ "\<lambda>r. rv_reg S (of_nat r)"]) simp
qed

end
