(* ===== verification/Mersenne_Twister.thy ===== *)
theory Mersenne_Twister
  imports Py_Random
begin

text \<open>
  The generator behind Python's \<open>random.Random(seed)\<close>: MT19937 with \<open>init_by_array\<close>, as in CPython's
  \<open>_randommodule.c\<close>. The array \<open>mt\<close> of 624 words is a list; loops that run around the indices 1 to 623
  again and again, each step reading the element written before, are passes over a list with the
  previous element at hand. \<open>random_Random k seed\<close> is the tape of the first 624 k outputs.
\<close>

section \<open>Seeding\<close>

text \<open>The 32-bit digits of the absolute value of the seed, least significant first, at least one.\<close>

function seed_key :: "int \<Rightarrow> 32 word list" where
  "seed_key a = word_of_int a # (if a < 2 ^ 32 then [] else seed_key (a div 2 ^ 32))"
  by pat_completeness auto
termination
  by (relation "measure nat") (auto simp: nat_less_eq_zless)

declare seed_key.simps [simp del]

text \<open>\<open>x ^ (x >> 30)\<close>.\<close>

definition fold30 :: "32 word \<Rightarrow> 32 word" where
  "fold30 x = x XOR drop_bit 30 x"

fun init_genrand :: "nat \<Rightarrow> int \<Rightarrow> 32 word \<Rightarrow> 32 word list" where
  "init_genrand 0 i x = []"
| "init_genrand (Suc n) i x = x # init_genrand n (i + 1) (1812433253 * fold30 x + word_of_int i)"

text \<open>
  The loops of \<open>init_by_array\<close>: \<open>mt[i] = (mt[i] ^ (fold30 (mt[i-1]) * c)) + a\<close> for the successive numbers
  \<open>a\<close>, with \<open>i\<close> running around; \<open>done\<close> holds the elements from 1 to \<open>i - 1\<close>, the last one first, and \<open>prev\<close>
  is \<open>mt[i-1]\<close>, which is also what the wrap-around puts into \<open>mt[0]\<close>.
\<close>

fun absorb :: "32 word \<Rightarrow> 32 word list \<Rightarrow> 32 word \<times> 32 word list \<times> 32 word list \<Rightarrow> 32 word \<times> 32 word list \<times> 32 word list" where
  "absorb c [] s = s"
| "absorb c (a # as) (prev, past, future) =
     (case (if future = [] then ([], rev past) else (past, future)) of
        (past', []) \<Rightarrow> (prev, past', [])
      | (past', x # xs) \<Rightarrow>
          (let y = (x XOR (fold30 prev * c)) + a in absorb c as (y, y # past', xs)))"

text \<open>The numbers \<open>key[j] + j\<close> of the first loop, with \<open>j\<close> running around the key, and \<open>- i\<close> of the second.\<close>

fun key_numbers :: "nat \<Rightarrow> 32 word list \<Rightarrow> (int \<times> 32 word list) \<Rightarrow> 32 word list" where
  "key_numbers 0 key s = []"
| "key_numbers (Suc n) key (j, ks) =
     (case (if ks = [] then (0, key) else (j, ks)) of
        (j', []) \<Rightarrow> []
      | (j', k # ks') \<Rightarrow> (k + word_of_int j') # key_numbers n key (j' + 1, ks'))"

fun index_numbers :: "nat \<Rightarrow> int \<Rightarrow> 32 word list" where
  "index_numbers 0 i = []"
| "index_numbers (Suc n) i = (let i' = (if i \<ge> 624 then 1 else i) in (- word_of_int i') # index_numbers n (i' + 1))"

definition init_by_array :: "32 word list \<Rightarrow> 32 word list" where
  "init_by_array key =
     (let k = max 624 (length key);
          mt = init_genrand 624 1 19650218;
          s = absorb 1664525 (key_numbers k key (0, key)) (hd mt, [], tl mt);
          i = int (k mod 623) + 1
      in case absorb 1566083941 (index_numbers 623 i) s of
           (prev, past, future) \<Rightarrow> 0x80000000 # rev past @ future)"

section \<open>Outputs\<close>

definition twist_word :: "32 word \<Rightarrow> 32 word \<Rightarrow> 32 word \<Rightarrow> 32 word" where
  "twist_word u v w =
     (let y = (u AND 0x80000000) OR (v AND 0x7FFFFFFF)
      in w XOR drop_bit 1 y XOR (if bit y 0 then 0x9908B0DF else 0))"

fun twist_words :: "32 word list \<Rightarrow> 32 word list \<Rightarrow> 32 word list \<Rightarrow> 32 word list" where
  "twist_words (u # us) (v # vs) (w # ws) = twist_word u v w # twist_words us vs ws"
| "twist_words us vs ws = []"

text \<open>\<open>mt[kk] = mt[kk + 397 mod 624] ^ ...\<close>: the first 227 words come from the old array, the others from the
  words already replaced.\<close>

definition twist :: "32 word list \<Rightarrow> 32 word list" where
  "twist mt =
     (let a = twist_words mt (tl mt) (drop 397 mt);
          b = twist_words (drop 227 mt) (drop 228 mt) a;
          c = twist_words (drop 454 mt) (drop 455 mt) b
      in a @ b @ c @ [twist_word (mt ! 623) (hd a) (b ! 169)])"

definition temper :: "32 word \<Rightarrow> 32 word" where
  "temper y0 =
     (let y1 = y0 XOR drop_bit 11 y0;
          y2 = y1 XOR (push_bit 7 y1 AND 0x9D2C5680);
          y3 = y2 XOR (push_bit 15 y2 AND 0xEFC60000)
      in y3 XOR drop_bit 18 y3)"

fun outputs :: "nat \<Rightarrow> 32 word list \<Rightarrow> rng" where
  "outputs 0 mt = []"
| "outputs (Suc k) mt = (let mt' = twist mt in map temper mt' @ outputs k mt')"

definition random_Random :: "nat \<Rightarrow> int \<Rightarrow> rng" where
  "random_Random k seed = outputs k (init_by_array (seed_key \<bar>seed\<bar>))"


section \<open>The tape\<close>

lemma length_key_numbers: "key \<noteq> [] \<Longrightarrow> length (key_numbers n key s) = n"
  by (induction n key s rule: key_numbers.induct) (auto split: list.splits)

lemma length_index_numbers [simp]: "length (index_numbers n i) = n"
  by (induction n i rule: index_numbers.induct) (auto simp: Let_def)

lemma length_absorb:
  "absorb c as (prev, past, future) = (p, d, f) \<Longrightarrow> length d + length f = length past + length future"
  by (induction c as "(prev, past, future)" arbitrary: prev past future rule: absorb.induct)
    (auto simp: Let_def split: if_splits list.splits)

lemma length_init_genrand [simp]: "length (init_genrand n i x) = n"
  by (induction n i x rule: init_genrand.induct) auto

lemma length_init_by_array [simp]: "length (init_by_array key) = 624"
proof -
  let ?mt = "init_genrand 624 1 19650218"
  obtain p d f where s: "absorb 1664525 (key_numbers (max 624 (length key)) key (0, key)) (hd ?mt, [], tl ?mt) = (p, d, f)"
    by (metis prod.exhaust)
  obtain p' d' f' where s': "absorb 1566083941 (index_numbers 623 (int (max 624 (length key) mod 623) + 1)) (p, d, f) = (p', d', f')"
    by (metis prod.exhaust)
  show ?thesis
    using length_absorb [OF s] length_absorb [OF s'] by (simp add: init_by_array_def Let_def s s' del: absorb.simps init_genrand.simps)
qed

lemma length_twist_words [simp]: "length (twist_words us vs ws) = min (length us) (min (length vs) (length ws))"
  by (induction us vs ws rule: twist_words.induct) auto

lemma length_twist [simp]: "length mt = 624 \<Longrightarrow> length (twist mt) = 624"
  by (simp add: twist_def Let_def)

lemma length_outputs: "length mt = 624 \<Longrightarrow> length (outputs k mt) = 624 * k"
  by (induction k mt rule: outputs.induct) (auto simp: Let_def)

lemma length_random_Random [simp]: "length (random_Random k seed) = 624 * k"
  by (simp add: random_Random_def length_outputs)

lemma outputs_prefix: "k \<le> l \<Longrightarrow> \<exists>u. outputs l mt = outputs k mt @ u"
proof (induction k mt arbitrary: l rule: outputs.induct)
  case (2 k mt)
  then obtain j where "l = Suc j" "k \<le> j" by (cases l) auto
  with 2 show ?case by (auto simp: Let_def)
qed simp

lemma random_Random_prefix: "k \<le> l \<Longrightarrow> \<exists>u. random_Random l seed = random_Random k seed @ u"
  by (simp add: random_Random_def outputs_prefix)

lemma random_Random_sign [simp]: "random_Random k (- seed) = random_Random k seed"
  by (simp add: random_Random_def)

end
