(* ===== verification/Seeds.thy ===== *)
theory Seeds
  imports Mersenne_Twister Gen_Main
begin

text \<open>
  A seed determines the program: what the generator computes on a tape it does not use up, it computes
  on every longer tape. \<open>reads f\<close> says so of a method that takes the tape and returns a result and the
  rest of the tape, with one rule for each way the generator composes them.
\<close>

section \<open>Methods that read the tape\<close>

named_theorems reads

definition reads :: "(rng \<Rightarrow> 'a \<times> rng) \<Rightarrow> bool" where
  "reads f \<longleftrightarrow> (\<forall>t x t' u. f t = (x, t') \<longrightarrow> t' \<noteq> [] \<longrightarrow> t \<noteq> [] \<and> f (t @ u) = (x, t' @ u))"

text \<open>The same for a method that also returns the set \<open>written_offsets\<close>.\<close>

definition reads_also :: "(rng \<Rightarrow> 'a \<times> 'b \<times> rng) \<Rightarrow> bool" where
  "reads_also f \<longleftrightarrow> (\<forall>t x y t' u. f t = (x, y, t') \<longrightarrow> t' \<noteq> [] \<longrightarrow> t \<noteq> [] \<and> f (t @ u) = (x, y, t' @ u))"

lemma reads_return [reads]: "reads (\<lambda>t. (x, t))" "reads_also (\<lambda>t. (x, y, t))" "reads (Pair x)"
  by (simp_all add: reads_def reads_also_def)

lemma reads_bind:
  assumes "reads f" "\<And>x t t'. f t = (x, t') \<Longrightarrow> reads (g x)"
  shows "reads (\<lambda>t. case f t of (x, t') \<Rightarrow> g x t')"
  using assms unfolding reads_def by (fastforce split: prod.splits)

lemma reads_bind_also:
  assumes "reads f" "\<And>x t t'. f t = (x, t') \<Longrightarrow> reads_also (g x)"
  shows "reads_also (\<lambda>t. case f t of (x, t') \<Rightarrow> g x t')"
  using assms unfolding reads_def reads_also_def by (fastforce split: prod.splits)

lemma reads_also_bind:
  assumes "reads_also f" "\<And>x y t t'. f t = (x, y, t') \<Longrightarrow> reads (g x y)"
  shows "reads (\<lambda>t. case f t of (x, y, t') \<Rightarrow> g x y t')"
  using assms unfolding reads_def reads_also_def by (fastforce split: prod.splits)

lemma reads_also_bind_also:
  assumes "reads_also f" "\<And>x y t t'. f t = (x, y, t') \<Longrightarrow> reads_also (g x y)"
  shows "reads_also (\<lambda>t. case f t of (x, y, t') \<Rightarrow> g x y t')"
  using assms unfolding reads_also_def by (fastforce split: prod.splits)

lemma reads_if [reads]:
  "(b \<Longrightarrow> reads f) \<Longrightarrow> (\<not> b \<Longrightarrow> reads g) \<Longrightarrow> reads (\<lambda>t. if b then f t else g t)"
  "(b \<Longrightarrow> reads_also f') \<Longrightarrow> (\<not> b \<Longrightarrow> reads_also g') \<Longrightarrow> reads_also (\<lambda>t. if b then f' t else g' t)"
  by (cases b; simp)+

lemma reads_case [reads]:
  "(\<And>a b. p = (a, b) \<Longrightarrow> reads (h a b)) \<Longrightarrow> reads (case p of (a, b) \<Rightarrow> h a b)"
  "(\<And>a b. p = (a, b) \<Longrightarrow> reads (h a b)) \<Longrightarrow> reads (\<lambda>t. case p of (a, b) \<Rightarrow> h a b t)"
  by (cases p; simp)+

lemmas binds = reads_bind reads_bind_also reads_also_bind reads_also_bind_also

section \<open>The random module\<close>

lemma reads_genrand [reads]: "reads genrand_uint32"
  unfolding reads_def by (auto elim: genrand_uint32.elims)

lemma reads_randbelow [reads]: "reads (randbelow n)"
proof -
  have "randbelow n t = (x, t') \<Longrightarrow> t' \<noteq> [] \<Longrightarrow> t \<noteq> [] \<and> randbelow n (t @ u) = (x, t' @ u)" for t x t' u
    by (induction n t rule: randbelow.induct) (auto simp: Let_def split: if_splits)
  then show ?thesis by (simp add: reads_def)
qed

lemma reads_draws [reads]:
  "reads (randint a b)" "reads (randrange start stop step)" "reads (choice xs)" "reads random53"
  "reads (choices population weights)"
  unfolding randint_def randrange_def choice_def random53_def choices_def Let_def
  by (intro binds reads)+

section \<open>The generator\<close>

lemma reads_gen_reg [reads]: "reads gen_reg"
  unfolding gen_reg_def by (rule reads)

lemma reads_categories [reads]:
  "reads gen_r" "reads gen_i_arith" "reads gen_i_shift" "reads (gen_load written)" "reads_also (gen_store written)"
  unfolding gen_r_def gen_i_arith_def gen_i_shift_def gen_load_def gen_store_def Let_def
  by (intro binds reads)+


lemma reads_jumps [reads]: "reads (gen_branch pos total_n ranges)" "reads (gen_jal pos total_n ranges)"
  unfolding gen_branch_def gen_jal_def Let_def
  by (intro binds reads)+

lemma reads_gen_one_instr [reads]: "reads_also (gen_one_instr allowed pos total_n ranges written)"
  unfolding gen_one_instr_def Let_def
  by (intro binds reads)

lemma reads_gen_body [reads]: "reads_also (gen_body k written)"
proof (induction k arbitrary: written)
  case (Suc k)
  have "gen_body (Suc k) written = (\<lambda>t. case gen_one_instr False 0 0 [] written t of
      (w, written1, t1) \<Rightarrow> case gen_body k written1 t1 of (ws, written2, t2) \<Rightarrow> (w # ws, written2, t2))"
    by (simp add: fun_eq_iff)
  then show ?case by (simp only:) (intro binds reads Suc.IH)
qed (auto intro: reads simp: reads_also_def)

lemma reads_random_loop_block [reads]: "reads_also (random_loop_block written budget)"
  unfolding random_loop_block_def Let_def
  by (intro binds reads)

lemma reads_place_blocks [reads]: "reads_also (place_blocks n i s written)"
proof (induction "nat (n - i)" arbitrary: i s written rule: less_induct)
  case less
  show ?case
  proof (cases "i < n")
    case True
    let ?none = "\<lambda>written' t2. place_blocks n (i + 1) (s\<lparr>single_slots := single_slots s @ [i], expected_retire := expected_retire s + 1\<rparr>) written' t2"
    let ?some = "\<lambda>words retire_count written' t2. place_blocks n (i + int (length words))
        (s\<lparr>instrs := splice_in (nat i) (map Some words) (instrs s), loop_ranges := loop_ranges s @ [(i, i + int (length words))],
           expected_retire := expected_retire s + retire_count\<rparr>) written' t2"
    have turn: "reads_also (case block of Some (words, retire_count) \<Rightarrow> ?some words retire_count written' | None \<Rightarrow> ?none written')"
      if "\<And>words retire_count. block = Some (words, retire_count) \<Longrightarrow> words \<noteq> []" for block written'
      using that True by (cases block) (auto intro!: less)
    have "place_blocks n i s written = (\<lambda>t. case random53 t of (k, t1) \<Rightarrow>
        case (if below_LOOP_BLOCK_PROB k then random_loop_block written (n - i) t1 else (None, written, t1)) of
          (block, written', t2) \<Rightarrow>
            (case block of Some (words, retire_count) \<Rightarrow> ?some words retire_count written' | None \<Rightarrow> ?none written') t2)"
      using True by (subst place_blocks.simps [abs_def]) (auto simp: fun_eq_iff split: prod.splits option.splits)
    moreover have "reads_also \<dots>"
      by (intro binds reads turn) (auto split: if_splits dest: random_loop_block_nonempty)
    ultimately show ?thesis by simp
  next
    case False
    then have "place_blocks n i s written = (\<lambda>t. (s, written, t))" by (subst place_blocks.simps [abs_def]) auto
    then show ?thesis by (simp add: reads)
  qed
qed

lemma reads_fill_slots [reads]: "reads_also (fill_slots n ranges slots ins written)"
proof (induction slots arbitrary: ins written)
  case (Cons i slots)
  have "fill_slots n ranges (i # slots) ins written = (\<lambda>t. case gen_one_instr True i n ranges written t of
      (w, written', t') \<Rightarrow> fill_slots n ranges slots (ins[nat i := Some w]) written' t')"
    by (simp add: fun_eq_iff)
  then show ?case by (simp only:) (intro binds reads Cons.IH)
qed (auto simp: reads_also_def)

lemma reads_random_program [reads]: "reads (random_program n)"
  unfolding random_program_def Let_def
  by (intro binds reads)





end
