(* ===== verification/Run_Spike.thy ===== *)
theory Run_Spike
  imports Spike_Log
begin

text \<open>
  \<open>shared/spike/run_spike.py\<close>: the script that compiles a test program, runs Spike on it and exports
  the instruction stream. The two external programs are parameters: the compiler's return code and
  the text Spike writes to its standard error.
\<close>

section \<open>The script\<close>

text \<open>\<open>exit(1)\<close> when the compiler fails.\<close>

definition build_binary :: "int \<Rightarrow> unit py" where
  "build_binary returncode = (if returncode \<noteq> 0 then Inl (SystemExit 1) else Inr ())"

definition pattern :: "item list" where
  "pattern = lits ''core'' @ [Plus Space, Open, Plus Digit, Close, Lit (CHR '':''), Plus Space, Open]
     @ lits ''0x'' @ [Plus Hex, Close, Plus Space, Lit (CHR ''(''), Open] @ lits ''0x''
     @ [Plus Hex, Close, Lit (CHR '')''), Plus Space, Open, Star AnyChar, Close]"

record instruction =
  core :: int
  i_pc :: string
  inst_hex :: string
  i_disassembly :: string

definition parse_line :: "string \<Rightarrow> instruction option" where
  "parse_line line =
     map_option (\<lambda>g. \<lparr>core = parse_int (g ! 0), i_pc = g ! 1, inst_hex = g ! 2, i_disassembly = strip (g ! 3)\<rparr>)
       (search pattern line)"

text \<open>The parsed instructions and the text of \<open>spike_trace.txt\<close>.\<close>

definition trace_header :: "string list" where
  "trace_header = [''PC          | Opcode     | Disassembly'', replicate 50 (CHR ''-'')]"

definition run_spike_and_parse :: "string \<Rightarrow> instruction list \<times> string" where
  "run_spike_and_parse raw_log =
     (let parsed_instructions = List.map_filter parse_line (splitlines raw_log)
      in (parsed_instructions,
          unlines (trace_header
            @ map (\<lambda>i. i_pc i @ '' | '' @ inst_hex i @ '' | '' @ i_disassembly i) parsed_instructions)))"

text \<open>The text of \<open>inst_mem.hex\<close>: the opcodes without their first two characters.\<close>

definition export_for_sv :: "instruction list \<Rightarrow> string" where
  "export_for_sv parsed_instructions = unlines (map (\<lambda>i. drop 2 (inst_hex i)) parsed_instructions)"

text \<open>The whole script: the contents of the two files.\<close>

definition run_script :: "int \<Rightarrow> string \<Rightarrow> (string \<times> string) py" where
  "run_script returncode raw_log =
     bind_py (build_binary returncode) (\<lambda>_.
       let (instructions, trace) = run_spike_and_parse raw_log
       in Inr (trace, export_for_sv instructions))"

section \<open>The two kinds of lines\<close>

text \<open>A disassembly free of every line end \<open>splitlines\<close> knows.\<close>

definition one_line :: "spike_event \<Rightarrow> bool" where
  "one_line e \<longleftrightarrow> (\<forall>c \<in> set (disassembly e). \<not> is_line_end c)"

abbreviation pc_items :: "item list" where
  "pc_items \<equiv> lits ''0x'' @ [Plus Hex, Close, Plus Space, Lit (CHR ''(''), Open] @ lits ''0x''
     @ [Plus Hex, Close, Lit (CHR '')''), Plus Space, Open, Star AnyChar, Close]"

lemma run_pattern_core:
  assumes "stops Space s"
  shows "run pattern (''core   0: '' @ s) [] None = run pc_items s [''0''] (Some [])"
proof -
  have "run pattern (''core   0: '' @ s) [] None
      = run (Plus Space # Open # Plus Digit # Close # Lit (CHR '':'') # Plus Space # Open # pc_items) (''   '' @ ''0: '' @ s) [] None"
    by (simp add: pattern_def del: run.simps(3))
  also have "\<dots> = run (Plus Digit # Close # Lit (CHR '':'') # Plus Space # Open # pc_items) (''0'' @ '': '' @ s) [] (Some [])"
    by (subst run_plus_det) simp_all
  also have "\<dots> = run (Plus Space # Open # pc_items) ('' '' @ s) [''0''] None"
    by (subst run_plus_det) simp_all
  also have "\<dots> = run pc_items s [''0''] (Some [])"
    using run_space [OF assms, of "Open # pc_items" "[''0'']"] by (simp del: run.simps(3))
  finally show ?thesis .
qed

lemma run_0x_hex:
  assumes "h \<noteq> []" "\<forall>c \<in> set h. is_hex c" "stops Hex s" "rejects Hex r"
  shows "run (lits ''0x'' @ Plus Hex # Close # r) (''0x'' @ h @ s) gs (Some []) = run r s (gs @ [''0x'' @ h]) None"
proof -
  have "run (lits ''0x'' @ Plus Hex # Close # r) (''0x'' @ h @ s) gs (Some []) = run (Plus Hex # Close # r) (h @ s) gs (Some ''0x'')"
    unfolding run_lits by simp
  also have "\<dots> = run (Close # r) s gs (Some (''0x'' @ h))"
    using assms by (subst run_plus_det) simp_all
  finally show ?thesis by simp
qed

lemma run_pattern_plain:
  assumes "wf_event e"
  shows "run pattern (plain_line w e) [] None
    = Some [''0'', ''0x'' @ hex_pad w (at_pc e), ''0x'' @ hex_pad 8 (encoding e), disassembly e]"
proof -
  let ?d = "disassembly e" and ?p = "''0x'' @ hex_pad w (at_pc e)" and ?i = "''0x'' @ hex_pad 8 (encoding e)"
  let ?r = "[Lit (CHR '')''), Plus Space, Open, Star AnyChar, Close]"
  have d: "?d \<noteq> []" "\<not> is_space (hd ?d)" "\<forall>c \<in> set ?d. in_class AnyChar c" "stops Space ?d"
    using assms by (auto simp: wf_event_def stops_def)
  have "run pattern (plain_line w e) [] None = run pc_items (?p @ '' ('' @ ?i @ '') '' @ ?d) [''0''] (Some [])"
    using run_pattern_core [of "pc_text w e @ '' '' @ ?d"] by (simp add: plain_line_def pc_text_def)
  also have "\<dots> = run (Plus Space # Lit (CHR ''('') # Open # lits ''0x'' @ Plus Hex # Close # ?r) ('' '' @ ''('' @ ?i @ '') '' @ ?d) [''0'', ?p] None"
    using run_0x_hex [OF printed_nonempty(3) hex_pad_hex, of "'' ('' @ ?i @ '') '' @ ?d"
        "Plus Space # Lit (CHR ''('') # Open # lits ''0x'' @ Plus Hex # Close # ?r" w "at_pc e" "[''0'']"]
    by simp
  also have "\<dots> = run (lits ''0x'' @ Plus Hex # Close # ?r) (?i @ '') '' @ ?d) [''0'', ?p] (Some [])"
    using run_space [of "''('' @ ?i @ '') '' @ ?d" "Lit (CHR ''('') # Open # lits ''0x'' @ Plus Hex # Close # ?r" "[''0'', ?p]"]
    by (simp del: run.simps(3))
  also have "\<dots> = run ?r ('') '' @ ?d) [''0'', ?p, ?i] None"
    using run_0x_hex [OF printed_nonempty(3) hex_pad_hex, of "'') '' @ ?d" ?r 8 "encoding e" "[''0'', ?p]"] by simp
  also have "\<dots> = run [Plus Space, Open, Star AnyChar, Close] ('' '' @ ?d) [''0'', ?p, ?i] None"
    by (simp del: run.simps(3))
  also have "\<dots> = Some [''0'', ?p, ?i, ?d]"
  proof (rule run_plus_max)
    have "run [Star AnyChar, Close] (?d @ []) [''0'', ?p, ?i] (Some []) = Some [''0'', ?p, ?i, ?d]"
      by (rule run_star_max) (use d(3) in simp_all)
    then show "run [Open, Star AnyChar, Close] ?d [''0'', ?p, ?i] (grow_all '' '' None) = Some [''0'', ?p, ?i, ?d]"
      by simp
  qed (use d(4) in simp_all)
  finally show ?thesis .
qed

lemma run_pattern_commit: "run pattern (commit_line w e) [] None = None"
  using run_pattern_core [of "''3 '' @ pc_text w e @ reg_text w e @ mem_text w e"]
  by (simp add: commit_line_def)

lemma pattern_core: "pattern = lits ''core'' @ drop 4 pattern"
  by (simp add: pattern_def)

lemma search_pattern:
  assumes "\<not> contains ''core'' (''ore'' @ t)"
  shows "search pattern (''core'' @ t) = run pattern (''core'' @ t) [] None"
  using search_first [of "''core''" "''ore'' @ t" "drop 4 pattern" "CHR ''c''"] assms
  unfolding pattern_core [symmetric] by simp

lemma parse_plain:
  assumes "wf_event e"
  shows "parse_line (plain_line w e)
    = Some \<lparr>core = 0, i_pc = ''0x'' @ hex_pad w (at_pc e), inst_hex = ''0x'' @ hex_pad 8 (encoding e),
        i_disassembly = strip (disassembly e)\<rparr>"
proof -
  have "CHR ''o'' \<notin> set (''re   0: '' @ pc_text w e)" using text_chars(1) by auto
  from no_core_text [OF this, of "disassembly e"] assms
  have "\<not> contains ''core'' (''ore   0: '' @ pc_text w e @ '' '' @ disassembly e)"
    by (simp add: wf_event_def contains.simps [of _ "CHR ''o'' # _"])
  then have "search pattern (plain_line w e) = run pattern (plain_line w e) [] None"
    using search_pattern [of "''   0: '' @ pc_text w e @ '' '' @ disassembly e"] by (simp add: plain_line_def)
  moreover have "parse_int ''0'' = 0" by (simp add: parse_int_def parse_digits_def digit_value_def)
  ultimately show ?thesis using run_pattern_plain [OF assms, of w] by (simp add: parse_line_def)
qed

lemma parse_commit: "parse_line (commit_line w e) = None"
proof -
  have "\<not> contains ''core'' (''ore   0: 3 '' @ pc_text w e @ reg_text w e @ mem_text w e)"
    using no_core [of "''   0: 3 '' @ pc_text w e @ reg_text w e @ mem_text w e"] text_chars by simp
  then have "search pattern (commit_line w e) = None"
    using search_pattern [of "''   0: 3 '' @ pc_text w e @ reg_text w e @ mem_text w e"] run_pattern_commit [of w e]
    by (simp add: commit_line_def)
  then show ?thesis by (simp add: parse_line_def)
qed

section \<open>The whole log\<close>

lemma not_line_end: "is_hex c \<Longrightarrow> \<not> is_line_end c" "\<not> is_line_end (CHR '' '')" "is_line_end LF" "is_line_end CR"
  by (auto simp: is_line_end_def is_hex_def is_digit_def Let_def LF_def CR_def)

lemma lines_no_end:
  assumes "one_line e"
  shows "c \<in> set (plain_line w e) \<Longrightarrow> \<not> is_line_end c" "c \<in> set (commit_line w e) \<Longrightarrow> \<not> is_line_end c"
proof -
  have l: "c \<in> set ''x ()me'' \<Longrightarrow> \<not> is_line_end c" "c \<in> set ''core   0: 3'' \<Longrightarrow> \<not> is_line_end c" for c
    by (auto simp: is_line_end_def)
  have t: "c \<in> set (pc_text w e) \<union> set (reg_text w e) \<union> set (mem_text w e) \<Longrightarrow> \<not> is_line_end c" for c
    using pc_text_chars [of c w e] reg_text_chars [of c w e] mem_text_chars [of c w e] not_line_end(1) l(1) by auto
  have "set (plain_line w e) \<subseteq> set ''core   0: 3'' \<union> set (pc_text w e) \<union> set (disassembly e)"
    "set (commit_line w e) \<subseteq> set ''core   0: 3'' \<union> set (pc_text w e) \<union> set (reg_text w e) \<union> set (mem_text w e)"
    by (auto simp: plain_line_def commit_line_def)
  with t l(2) assms show "c \<in> set (plain_line w e) \<Longrightarrow> \<not> is_line_end c"
    "c \<in> set (commit_line w e) \<Longrightarrow> \<not> is_line_end c"
    unfolding one_line_def by blast+
qed

lemma splitlines_log:
  assumes "\<forall>e \<in> set es. one_line e"
  shows "splitlines (spike_log w es) = log_lines w es"
proof -
  have l: "\<forall>l \<in> set (log_lines w es). \<forall>c \<in> set l. \<not> is_line_end c"
    using assms
  proof (induction es)
    case (Cons e es)
    then have "one_line e" "\<forall>l \<in> set (log_lines w es). \<forall>c \<in> set l. \<not> is_line_end c" by simp_all
    with lines_no_end [of e _ w] show ?case unfolding log_lines.simps by (metis set_ConsD)
  qed simp
  have "CR \<noteq> LF" by (simp add: LF_def CR_def)
  have "CR \<notin> set (unlines (log_lines w es))"
  proof
    assume "CR \<in> set (unlines (log_lines w es))"
    then obtain l' where "l' \<in> set (log_lines w es)" "CR \<in> set l'"
      using \<open>CR \<noteq> LF\<close> by (auto simp: unlines_def split: if_splits)
    with l not_line_end(4) show False by blast
  qed
  then show ?thesis
    using l split_at_unlines [of "log_lines w es" is_line_end] not_line_end(3)
    by (simp add: splitlines_def spike_log_lines universal_newlines_id)
qed

lemma parsed_log:
  assumes "\<forall>e \<in> set es. wf_event e"
  shows "List.map_filter parse_line (log_lines w es)
    = map (\<lambda>e. \<lparr>core = 0, i_pc = ''0x'' @ hex_pad w (at_pc e), inst_hex = ''0x'' @ hex_pad 8 (encoding e),
        i_disassembly = strip (disassembly e)\<rparr>) es"
  using assms by (induction es) (simp_all add: List.map_filter_simps parse_plain parse_commit)

text \<open>C37: The exported \<open>inst_mem.hex\<close> holds one line per retired instruction: its encoding in eight hex
  digits, in retirement order; the commit lines of the log contribute nothing. When the compiler
  fails the script exits with status 1.\<close>

theorem run_script_export:
  assumes "\<forall>e \<in> set es. wf_event e \<and> one_line e"
  shows "\<exists>trace. run_script returncode (spike_log w es)
    = (if returncode = 0 then Inr (trace, unlines (map (\<lambda>e. hex_pad 8 (encoding e)) es)) else Inl (SystemExit 1))"
proof -
  have "List.map_filter parse_line (splitlines (spike_log w es))
    = map (\<lambda>e. \<lparr>core = 0, i_pc = ''0x'' @ hex_pad w (at_pc e), inst_hex = ''0x'' @ hex_pad 8 (encoding e),
        i_disassembly = strip (disassembly e)\<rparr>) es"
    using assms by (simp add: splitlines_log parsed_log)
  then show ?thesis
    by (simp add: run_script_def build_binary_def run_spike_and_parse_def export_for_sv_def Let_def comp_def)
qed

lemma run_script_export_witness:
  "\<exists>trace. run_script 0 (spike_log 16 sample_events)
    = (if (0 :: int) = 0 then Inr (trace, unlines (map (\<lambda>e. hex_pad 8 (encoding e)) sample_events))
       else Inl (SystemExit 1))"
proof -
  have "\<forall>e \<in> set sample_events. wf_event e" using sample_regular by (simp add: regular_def)
  moreover have "\<forall>e \<in> set sample_events. one_line e"
    by (simp add: sample_events_def one_line_def is_line_end_def)
  ultimately show ?thesis using run_script_export [of sample_events 0 16] by blast
qed

end
