(* ===== verification/Spec2Isabelle.thy ===== *)
theory Spec2Isabelle
  imports Main_Theorems Core_Accuracy Rtl_Properties Rtl_Testbenches Cpp_Main Seeds Run_Spike
begin

text \<open>
  Verification development for the RV32I pipeline simulator repository.

  \<^bold>\<open>The program.\<close> The repository checks a five-stage RV32I core with forwarding, branch predictor
  and loop buffer (\<open>rtl/\<close>) against Spike, with tooling in \<open>shared/spike/\<close>. \<open>gen_program.py\<close> generates a
  random program that terminates by construction and
  writes it as \<open>program.hex\<close> (read by the testbench and by the single-cycle simulator \<open>src/main.cpp\<close>)
  and as \<open>program.elf\<close> (read by Spike). The testbench \<open>rtl/tb_commit_log.sv\<close> logs what the core retires
  to \<open>commit_log.txt\<close>; Spike logs to \<open>spike_trace.log\<close>. \<open>sv_log_parser.py\<close> and \<open>spike_log_parser.py\<close>
  turn both logs into retirement records, which \<open>compare_accuracy.py\<close> aligns and counts.
  \<open>run_spike.py\<close> runs Spike on a hand-written program and exports the instructions it executed.

  \<^bold>\<open>Theories, in the order of the code.\<close>

  \<^item> \<open>Prelude\<close>: Python's exceptions as a sum type, the bit-field calculus.
  \<^item> \<open>Encoders\<close> (\<open>gen_program.py\<close> 45-92): the instruction encoders on unbounded integers; each is the
    concatenation of the fields of its format (\<open>enc_cats\<close>).
  \<^item> \<open>Py_Random\<close>: Python's \<open>randint\<close>, \<open>randrange\<close>, \<open>choice\<close>, \<open>choices\<close> and \<open>random\<close> on a tape of
    outputs of the Mersenne Twister. The locale \<open>bounded_draws\<close> is the contract the generator relies
    on; it is interpreted on \<open>randbelow\<close>. Theorems hold for all tapes, hence for all seeds.
  \<^item> \<open>Mersenne_Twister\<close>, \<open>Seeds\<close>: the tape of a seed as CPython computes it (\<open>random_Random\<close>), and the proof
    that a seed determines the program, however long a tape is taken (\<open>reads\<close>, one rule per combinator).
  \<^item> \<open>Generator\<close> (95-448): one random instruction, loop blocks, the two passes of \<open>random_program\<close>, the
    preamble and the epilogue. \<open>written_offsets\<close> and the random state are threaded explicitly.
  \<^item> \<open>Elf_Writer\<close> (453-554): \<open>struct.pack\<close> and \<open>struct.unpack\<close> with their errors, \<open>build_elf32\<close>,
    \<open>self_check_elf\<close>, the layout of the file (\<open>elf_image\<close>) and a reader of the ELF format.
  \<^item> \<open>Gen_Main\<close> (557-574): the contents of the two files, and the C++ loader of \<open>program.hex\<close>.
  \<^item> \<open>Cpp_Sim\<close> (\<open>src/main.cpp\<close>): registers, byte memory, ALU, decoder and main loop. An access outside
    the memory array is the outcome \<open>None\<close>.
  \<^item> \<open>Instructions\<close>: abstract instructions, their encoding by the generator's encoders and their
    reference semantics; the C++ decoder inverts the encoders (\<open>decode_encode_op\<close>).
  \<^item> \<open>Gen_Spec\<close>, \<open>Gen_Structure\<close>: what the generator may emit; every program is the preamble, the base
    register setup and a list of blocks, whose branches go forward to a block start outside all loops
    (invariants \<open>placed\<close> and \<open>filled\<close> of the two passes).
  \<^item> \<open>Gen_Exec\<close>, \<open>Gen_Run\<close>, \<open>Gen_Safety\<close>: runs on the simulator. \<open>safe_run P m c d\<close> is an inductive
    relation: \<open>m\<close> turns through states that all hold the program \<open>P\<close> unchanged.
  \<^item> \<open>Gen_Theorems\<close>, \<open>Main_Theorems\<close>: the properties of generation, of runs and of the files.
  \<^item> \<open>Py_Text\<close>, \<open>Py_Regex\<close>: Python text (code points below 256), lines, numbers, and a backtracking
    matcher for the fragment of \<open>re\<close> the scripts use, with evaluation lemmas on printed text.
  \<^item> \<open>Trace\<close>: the retirement record and \<open>truncate_at_self_loop\<close>, which both parsers define alike.
  \<^item> \<open>Keyed_Fifo\<close>: the locale of a FIFO queue per key, interpreted on the dictionaries of the Spike
    parser; it carries the argument that commits are matched to the right instruction.
  \<^item> \<open>Spike_Log\<close>, \<open>Sv_Log\<close>: the two parsers, the formats of the two logs (for the core, the logger of
    \<open>tb_commit_log.sv\<close>), and the proofs that each parser inverts the printing.
  \<^item> \<open>Compare\<close>, \<open>End_To_End\<close>: the comparison, its specification \<open>records_agree\<close>, and the theorem that
    equal executions score 100%, from log text to report.
  \<^item> \<open>Run_Spike\<close>: \<open>run_spike.py\<close>.

  \<^bold>\<open>The pipelined core.\<close>

  \<^item> \<open>Rtl_Units\<close>: the combinational units \<open>alu.sv\<close>, \<open>imm_gen.sv\<close>, \<open>control_unit.sv\<close>, \<open>hazard_unit.sv\<close>,
    \<open>forward_unit.sv\<close>, the ports of \<open>reg_file.sv\<close> and the two memories, on words of the declared widths.
  \<^item> \<open>Rtl_Core\<close>: \<open>branch_predictor.sv\<close>, \<open>loop_buffer.sv\<close>, the pipeline registers of \<open>riscv_pkg.sv\<close>, and
    \<open>riscv_core.sv\<close>: one definition per signal, and \<open>core_step\<close> for a rising clock edge.
  \<^item> \<open>Simulation\<close>: the locales \<open>stuttering_refinement\<close> and \<open>progressing_refinement\<close>: a machine whose
    steps are, under an abstraction, one step of an abstract machine or none.
  \<^item> \<open>Rtl_Isa\<close>: the specification of the pipeline, a one-instruction-at-a-time machine over the memories
    of the core, written with the decoding functions of \<open>src/main.cpp\<close>; the datapath computes its effects.
  \<^item> \<open>Rtl_Pipeline\<close>: the invariant \<open>pipe_inv\<close> and the abstraction \<open>arch_of\<close> (the state with all writes
    in flight committed). An instruction leaving EX is one step of the specification: the
    interpretation \<open>pipeline\<close> of \<open>progressing_refinement\<close>, with at least one step in three cycles. It
    supposes \<open>fetch_ok\<close>: the loop buffer delivers the words in memory.
  \<^item> \<open>Rtl_Path\<close>, \<open>Rtl_Loop\<close>: \<open>fetch_ok\<close> holds in every cycle for programs that are \<open>replayable\<close>, a check of
    the memory contents: jumps stay in the text, and a loop (the words from the target of a backward
    jump to the jump) has no other control flow and no load-use pair before its branch, and is not
    entered at its last two words. \<open>lb_inv\<close> relates recorded words to addresses in each state.
  \<^item> \<open>Rtl_Replay\<close>: every generated program is replayable.
  \<^item> \<open>Rtl_Cpp\<close>, \<open>Rtl_Agree\<close>: the specification executes every \<open>supported\<close> instruction like the simulator;
    on a generated program both stay in the \<open>same_state\<close>.
  \<^item> \<open>Rtl_Commit\<close>: the edges \<open>tb_commit_log.sv\<close> samples and its run loop.
  \<^item> \<open>Rtl_Theorems\<close>, \<open>Rtl_Properties\<close>: the properties of the core, and concrete programs on which it leaves
    the instruction set (outside \<open>replayable\<close>, outside \<open>supported\<close>).
  \<^item> \<open>Rtl_Trace\<close>: the addresses of a generated program's trace: it reaches the endless branch, no address
    repeats before, so the logs are cut exactly behind the first turn of the endless branch.
  \<^item> \<open>Rtl_Testbenches\<close>: the seven directed testbenches \<open>tb_*.sv\<close>, evaluated on the model of the core.

  \<^bold>\<open>The instruction set, and what holds of both implementations.\<close>

  \<^item> \<open>Rv32\<close>: RV32I as its manual defines it, one memory for code and data, written without the decoding
    functions of the repository; a step that traps has no result.
  \<^item> \<open>Rv32_Agree\<close>: its immediates, operations and steps against the decoders of both implementations.
  \<^item> \<open>Rv32_Cpp\<close>: the C++ simulator implements it (\<open>same_machine\<close> relates the states).
  \<^item> \<open>Cpp_Main\<close>: messages, \<open>dump_registers\<close> and \<open>main\<close> of \<open>src/main.cpp\<close>, from the text of \<open>program.hex\<close>
    to the standard output.
  \<^item> \<open>Relocation\<close>, \<open>Relocated\<close>: the core's machine at address 0 with two memories, and RV32I at 0x80000000
    with one, run a program in lockstep (the locale \<open>lockstep\<close> of \<open>Simulation\<close>) when registers that hold
    addresses are used as addresses only; every generated program is of this kind.
  \<^item> \<open>Spike_Reference\<close>: RV32I on the segment of \<open>program.elf\<close>, and \<open>spike_executes\<close>: Spike logs its events.
  \<^item> \<open>Core_Accuracy\<close>: the whole flow, from the command line of the generator through \<open>$readmemh\<close>, the core,
    Spike, both logs and both parsers to the report of the comparison.

  \<^bold>\<open>Bounds and fuel.\<close> \<open>run_sim\<close> takes the number of loop turns as fuel, since generated programs end in
  an endless branch on which the C++ loop never ends; the theorems quantify over all fuel, and
  \<open>generated_program_ends\<close> bounds the turns to the endless branch. \<open>core_run\<close> takes the number of clock
  cycles; \<open>core_finishes\<close> bounds the cycles to the same point. \<open>tb_edges\<close> takes the number of clock edges
  before the hard timeout of the testbench, 199999, of which 60002 are enough. \<open>simulate\<close> takes the
  turns of the simulator's loop, and two more than RV32I has steps are enough. Pass 1 of the generator
  terminates because a loop block is never empty. All other recursions are structural or on
  decreasing length.

  \<^bold>\<open>Parameters.\<close> The outputs of the Mersenne Twister for a seed (any function \<open>seeded\<close>; \<open>random_Random\<close>
  is the one of CPython), the return code of the compiler, the
  text Spike prints (in the format the parser's docstring documents; \<open>spike_executes\<close> states that Spike
  executes RV32I on the ELF file it is given), the registers and the boot code Spike starts with, the
  contents of the files named on a command line, the value of a read outside the data memory and the
  contents of the loop buffer before it is written.

  \<^bold>\<open>Not modelled.\<close> The wording of the messages of the Python scripts and of the testbenches, text outside
  Latin-1, the value \<open>x\<close> of SystemVerilog (signals have two values), \<open>tb/sim_main.cpp\<close>, a driver for
  classes Verilator generates, and \<open>instruction_mem_bram.sv\<close>, an alternative memory with a registered
  read for which the core is not written. \<open>boot.s\<close>, \<open>main.c\<close> and \<open>hello.c\<close> are inputs of a compiler.
  The lines of the Python scripts without a definition are comments, docstrings and imports.
\<close>

end
